(* ===== verification/Go_Prelude.thy ===== *)
theory Go_Prelude
  imports Main
begin

text \<open>
  The fragment of the Go language and of its standard library that the plugin relies on.

  \<^item> A call of a Go function is a state transformer that also says how the call ended
    (\<open>outcome\<close>): it returned a value, it panicked, it ended the process (\<open>os.Exit\<close>,
    \<open>log.Fatalf\<close>) or it blocks forever on a mutex that its own goroutine holds. The
    state is returned in every case, because what a call did before it panicked stays
    done: \<open>net/http\<close> recovers the panic of a handler and goes on serving.
  \<^item> An \<open>error\<close> is a value; \<open>nil\<close> is \<open>None\<close>. A call of \<open>fmt.Errorf\<close> is kept as its
    format and its arguments, and so is the message of a typed error.
  \<^item> A Go map is a partial function, or \<open>None\<close> for the nil map: reading and deleting in
    the nil map are allowed, writing to it panics.
  \<^item> The functions of \<open>strings\<close> and \<open>strconv\<close> that the code calls, on strings as lists of
    bytes.

  The collections \<open>go_run\<close> (how the monad computes), \<open>go_keeps\<close> (which part of the state an
  operation leaves alone), \<open>go_maintains\<close> (invariants) and \<open>go_nonblock\<close> (operations that do not
  wait for a mutex) carry the proofs of the component theories.
\<close>

named_theorems go_run \<open>evaluation of the monad of Go calls\<close>
named_theorems go_maintains \<open>invariants that an operation maintains\<close>
named_theorems go_nonblock \<open>operations that never block on a mutex\<close>
named_theorems go_keeps \<open>parts of the state that an operation leaves unchanged\<close>

section \<open>Outcomes, errors and calls\<close>

datatype go_panic =
    NilMapWrite
  | NilDeref
  | IndexOutOfRange
  | SliceOutOfRange
  | TypeAssertion
  | InvalidArgument
  | Explicit string

datatype 'a outcome =
    Returns 'a
  | Panics go_panic
  | Exits int
  | Blocks

datatype error =
    ExtErr string
  | NotExist string
  | NoSuchContainer string
  | NSPathNotExistErr string "err_arg list"
  | NSPathNotNSErr string "err_arg list"
  | Errorf string "err_arg list"
and err_arg = ArgS string | ArgD int | ArgE error | ArgL "string list"

type_synonym ('s, 'a) go = "'s \<Rightarrow> 'a outcome \<times> 's"

definition go_return :: "'a \<Rightarrow> ('s, 'a) go" where
  "go_return x = (\<lambda>s. (Returns x, s))"

definition go_panic :: "go_panic \<Rightarrow> ('s, 'a) go" where
  "go_panic p = (\<lambda>s. (Panics p, s))"

definition go_exit :: "int \<Rightarrow> ('s, 'a) go" where
  "go_exit n = (\<lambda>s. (Exits n, s))"

definition go_block :: "('s, 'a) go" where
  "go_block = (\<lambda>s. (Blocks, s))"

definition go_gets :: "('s \<Rightarrow> 'a) \<Rightarrow> ('s, 'a) go" where
  "go_gets f = (\<lambda>s. (Returns (f s), s))"

definition go_modify :: "('s \<Rightarrow> 's) \<Rightarrow> ('s, unit) go" where
  "go_modify f = (\<lambda>s. (Returns (), f s))"

definition go_bind :: "('s, 'a) go \<Rightarrow> ('a \<Rightarrow> ('s, 'b) go) \<Rightarrow> ('s, 'b) go" where
  "go_bind m f = (\<lambda>s. case m s of (r, s') \<Rightarrow>
     (case r of
        Returns x \<Rightarrow> f x s'
      | Panics p \<Rightarrow> (Panics p, s')
      | Exits n \<Rightarrow> (Exits n, s')
      | Blocks \<Rightarrow> (Blocks, s')))"

definition go_seq :: "('s, 'a) go \<Rightarrow> ('s, 'b) go \<Rightarrow> ('s, 'b) go" where
  "go_seq m n = go_bind m (\<lambda>_. n)"

text \<open>
  \<open>defer d()\<close> around a body: \<open>d\<close> runs when the body has returned or panicked, not when the
  process ended or the goroutine is stuck. What \<open>d\<close> returns is dropped; a panic of \<open>d\<close>
  replaces the body's outcome.
\<close>

definition go_defer :: "('s, 'b) go \<Rightarrow> ('s, 'a) go \<Rightarrow> ('s, 'a) go" where
  "go_defer d m = (\<lambda>s. case m s of (r, s') \<Rightarrow>
     (case r of
        Returns x \<Rightarrow> go_seq d (go_return x) s'
      | Panics p \<Rightarrow> go_seq d (go_panic p) s'
      | Exits n \<Rightarrow> (Exits n, s')
      | Blocks \<Rightarrow> (Blocks, s')))"

text \<open>
  \<open>wg.Add(1); go func() { defer wg.Done(); m() }(); wg.Wait()\<close>: the caller waits for the
  goroutine. A panic in a goroutine that does not recover ends the process with status 2.
\<close>

definition go_wait :: "('s, 'a) go \<Rightarrow> ('s, 'a) go" where
  "go_wait m = (\<lambda>s. case m s of (r, s') \<Rightarrow>
     (case r of Panics p \<Rightarrow> (Exits 2, s') | _ \<Rightarrow> (r, s')))"

text \<open>\<open>for _, x := range xs\<close>, without an early \<open>return\<close> or \<open>break\<close> in the body.\<close>

primrec go_for :: "('x \<Rightarrow> ('s, unit) go) \<Rightarrow> 'x list \<Rightarrow> ('s, unit) go" where
  "go_for f [] = go_return ()"
| "go_for f (x # xs) = go_seq (f x) (go_for f xs)"

text \<open>Two ways to run a call: by the outcome of its first part, where a fact gives it, or by
  evaluating the first part, which is what the collection \<open>go_run\<close> does.\<close>

lemma go_bind_simps:
  "m s = (Returns x, s') \<Longrightarrow> go_bind m f s = f x s'"
  "m s = (Panics p, s') \<Longrightarrow> go_bind m f s = (Panics p, s')"
  "m s = (Exits n, s') \<Longrightarrow> go_bind m f s = (Exits n, s')"
  "m s = (Blocks, s') \<Longrightarrow> go_bind m f s = (Blocks, s')"
  by (simp_all add: go_bind_def)

lemma go_bind_eval [go_run]:
  "go_bind m f s = (case m s of (r, s') \<Rightarrow>
     (case r of
        Returns x \<Rightarrow> f x s'
      | Panics p \<Rightarrow> (Panics p, s')
      | Exits n \<Rightarrow> (Exits n, s')
      | Blocks \<Rightarrow> (Blocks, s')))"
  by (simp add: go_bind_def)

lemma go_seq_eval [go_run]: "go_seq m n s = go_bind m (\<lambda>_. n) s"
  by (simp add: go_seq_def)

lemma go_seq_simps:
  "m s = (Returns x, s') \<Longrightarrow> go_seq m n s = n s'"
  "m s = (Panics p, s') \<Longrightarrow> go_seq m n s = (Panics p, s')"
  "m s = (Exits k, s') \<Longrightarrow> go_seq m n s = (Exits k, s')"
  "m s = (Blocks, s') \<Longrightarrow> go_seq m n s = (Blocks, s')"
  by (simp_all add: go_seq_def go_bind_simps)

lemma go_prim_simps [go_run]:
  "go_return x s = (Returns x, s)"
  "go_panic p s = (Panics p, s)"
  "go_exit n s = (Exits n, s)"
  "go_block s = (Blocks, s)"
  "go_gets f s = (Returns (f s), s)"
  "go_modify g s = (Returns (), g s)"
  by (simp_all add: go_return_def go_panic_def go_exit_def go_block_def go_gets_def go_modify_def)

lemma go_bind_prim [go_run]:
  "go_bind (go_return x) f s = f x s"
  "go_bind (go_panic p) f s = (Panics p, s)"
  "go_bind (go_gets h) f s = f (h s) s"
  "go_bind (go_modify g) f s = f () (g s)"
  by (simp_all add: go_bind_def go_prim_simps)

lemma go_bind_assoc: "go_bind (go_bind m f) g = go_bind m (\<lambda>x. go_bind (f x) g)"
  by (rule ext) (simp add: go_bind_def split: prod.splits outcome.splits)

lemma go_bind_ReturnsE:
  assumes "go_bind m f s = (Returns y, s'')"
  obtains x s' where "m s = (Returns x, s')" and "f x s' = (Returns y, s'')"
  using assms by (auto simp: go_bind_def split: prod.splits outcome.splits)

lemma go_seq_ReturnsE:
  assumes "go_seq m n s = (Returns y, s'')"
  obtains x s' where "m s = (Returns x, s')" and "n s' = (Returns y, s'')"
  using assms unfolding go_seq_def by (rule go_bind_ReturnsE)

lemma go_bind_if [go_run]:
  "go_bind (if b then m else n) f s = (if b then go_bind m f s else go_bind n f s)"
  by simp

subsection \<open>What an operation leaves alone\<close>

definition keeps :: "('s \<Rightarrow> 'f) \<Rightarrow> ('s, 'a) go \<Rightarrow> bool" where
  "keeps f m \<longleftrightarrow> (\<forall>s. f (snd (m s)) = f s)"

lemma keepsI: "(\<And>s r s'. m s = (r, s') \<Longrightarrow> f s' = f s) \<Longrightarrow> keeps f m"
  unfolding keeps_def by (metis prod.collapse)

lemma keepsD: "keeps f m \<Longrightarrow> m s = (r, s') \<Longrightarrow> f s' = f s"
  unfolding keeps_def by (metis snd_conv)

lemma keeps_snd: "keeps f m \<Longrightarrow> f (snd (m s)) = f s"
  by (simp add: keeps_def)

lemma keeps_prim [go_keeps]:
  "keeps f (go_return x)"
  "keeps f (go_panic p)"
  "keeps f (go_exit n)"
  "keeps f go_block"
  "keeps f (go_gets g)"
  by (simp_all add: keeps_def go_run)

lemma keeps_modify [go_keeps]: "(\<And>s. f (g s) = f s) \<Longrightarrow> keeps f (go_modify g)"
  by (simp add: keeps_def go_run)

lemma keeps_bind [go_keeps]:
  assumes "keeps f m" and "\<And>x. keeps f (g x)"
  shows "keeps f (go_bind m g)"
proof (rule keepsI)
  fix s r s'
  assume eq: "go_bind m g s = (r, s')"
  obtain q s1 where m: "m s = (q, s1)" by (cases "m s")
  with assms(1) have "f s1 = f s" by (rule keepsD)
  with m eq show "f s' = f s"
    by (cases q) (auto simp: go_bind_def dest: keepsD [OF assms(2)])
qed

lemma keeps_seq [go_keeps]: "keeps f m \<Longrightarrow> keeps f n \<Longrightarrow> keeps f (go_seq m n)"
  unfolding go_seq_def by (rule keeps_bind)

lemma keeps_if [go_keeps]: "keeps f m \<Longrightarrow> keeps f n \<Longrightarrow> keeps f (if b then m else n)"
  by simp

lemma keeps_for [go_keeps]: "(\<And>x. keeps f (g x)) \<Longrightarrow> keeps f (go_for g xs)"
  by (induction xs) (auto intro: go_keeps)

lemma keeps_option [go_keeps]:
  "keeps f m \<Longrightarrow> (\<And>x. keeps f (g x)) \<Longrightarrow> keeps f (case v of None \<Rightarrow> m | Some x \<Rightarrow> g x)"
  by (cases v) auto

lemma keeps_sum [go_keeps]:
  "(\<And>e. keeps f (h e)) \<Longrightarrow> (\<And>x. keeps f (g x)) \<Longrightarrow>
   keeps f (case v of Inl e \<Rightarrow> h e | Inr x \<Rightarrow> g x)"
  by (cases v) auto

lemma keeps_prod [go_keeps]:
  "(\<And>x y. keeps f (g x y)) \<Longrightarrow> keeps f (case v of (x, y) \<Rightarrow> g x y)"
  by (cases v) auto

lemma keeps_defer [go_keeps]:
  assumes "keeps f d" and "keeps f m"
  shows "keeps f (go_defer d m)"
proof (rule keepsI)
  fix s r s'
  assume eq: "go_defer d m s = (r, s')"
  obtain q s1 where m: "m s = (q, s1)" by (cases "m s")
  with assms(2) have s1: "f s1 = f s" by (rule keepsD)
  note seq = keepsD [OF keeps_seq [OF assms(1) keeps_prim(1)]] keepsD [OF keeps_seq [OF assms(1) keeps_prim(2)]]
  from m eq show "f s' = f s"
    by (cases q) (auto simp: go_defer_def s1 [symmetric] dest: seq)
qed

lemma keeps_wait [go_keeps]: "keeps f m \<Longrightarrow> keeps f (go_wait m)"
  by (auto simp: keeps_def go_wait_def split: prod.split outcome.split) (metis snd_conv)+

lemma go_defer_simps:
  "m s = (Returns x, s') \<Longrightarrow> go_defer d m s = go_seq d (go_return x) s'"
  "m s = (Panics p, s') \<Longrightarrow> go_defer d m s = go_seq d (go_panic p) s'"
  "m s = (Exits k, s') \<Longrightarrow> go_defer d m s = (Exits k, s')"
  "m s = (Blocks, s') \<Longrightarrow> go_defer d m s = (Blocks, s')"
  by (simp_all add: go_defer_def)

lemma go_defer_eval [go_run]:
  "go_defer d m s = (case m s of (r, s') \<Rightarrow>
     (case r of
        Returns x \<Rightarrow> go_seq d (go_return x) s'
      | Panics p \<Rightarrow> go_seq d (go_panic p) s'
      | Exits n \<Rightarrow> (Exits n, s')
      | Blocks \<Rightarrow> (Blocks, s')))"
  by (simp add: go_defer_def)

lemma go_wait_simps:
  "m s = (Returns x, s') \<Longrightarrow> go_wait m s = (Returns x, s')"
  "m s = (Panics p, s') \<Longrightarrow> go_wait m s = (Exits 2, s')"
  by (simp_all add: go_wait_def)

lemma go_wait_eval [go_run]:
  "go_wait m s = (case m s of (r, s') \<Rightarrow> (case r of Panics p \<Rightarrow> (Exits 2, s') | _ \<Rightarrow> (r, s')))"
  by (simp add: go_wait_def)

subsection \<open>Invariants of an operation\<close>

definition maintains :: "('s \<Rightarrow> bool) \<Rightarrow> ('s, 'a) go \<Rightarrow> bool" where
  "maintains I m \<longleftrightarrow> (\<forall>s. I s \<longrightarrow> I (snd (m s)))"

lemma maintainsD: "maintains I m \<Longrightarrow> I s \<Longrightarrow> m s = (r, s') \<Longrightarrow> I s'"
  unfolding maintains_def by (metis snd_conv)

lemma maintains_keeps: "keeps f m \<Longrightarrow> (\<And>s t. f s = f t \<Longrightarrow> I s = I t) \<Longrightarrow> maintains I m"
  unfolding keeps_def maintains_def by metis

lemma maintains_bind:
  assumes "maintains I m" and "\<And>x. maintains I (g x)"
  shows "maintains I (go_bind m g)"
  unfolding maintains_def
proof (intro allI impI)
  fix s
  assume "I s"
  obtain q s1 where m: "m s = (q, s1)" by (cases "m s")
  with assms(1) \<open>I s\<close> have "I s1" by (blast dest: maintainsD)
  with m show "I (snd (go_bind m g s))"
    using assms(2) by (cases q) (auto simp: go_bind_def maintains_def)
qed

lemma maintains_seq: "maintains I m \<Longrightarrow> maintains I n \<Longrightarrow> maintains I (go_seq m n)"
  unfolding go_seq_def by (rule maintains_bind)

lemma maintains_return: "maintains I (go_return x)"
  by (simp add: maintains_def go_run)

lemma maintains_option:
  "maintains I m \<Longrightarrow> (\<And>x. maintains I (g x)) \<Longrightarrow> maintains I (case v of None \<Rightarrow> m | Some x \<Rightarrow> g x)"
  by (cases v) auto

lemma maintains_prod: "(\<And>x y. maintains I (g x y)) \<Longrightarrow> maintains I (case v of (x, y) \<Rightarrow> g x y)"
  by (cases v) auto

lemma maintains_if: "maintains I m \<Longrightarrow> maintains I n \<Longrightarrow> maintains I (if b then m else n)"
  by simp

lemmas maintains_rules [go_maintains] =
  maintains_bind maintains_seq maintains_return maintains_option maintains_prod maintains_if

text \<open>An invariant on a part of the state that the operation leaves alone.\<close>

lemma maintains_part: "keeps f m \<Longrightarrow> maintains (\<lambda>s. P (f s)) m"
  by (simp add: keeps_def maintains_def)

subsection \<open>What holds when an operation returns\<close>

definition returns_with :: "('s \<Rightarrow> bool) \<Rightarrow> ('s, 'a) go \<Rightarrow> ('a \<Rightarrow> 's \<Rightarrow> bool) \<Rightarrow> bool" where
  "returns_with P m Q \<longleftrightarrow> (\<forall>s x s'. P s \<longrightarrow> m s = (Returns x, s') \<longrightarrow> Q x s')"

lemma returns_withD: "returns_with P m Q \<Longrightarrow> P s \<Longrightarrow> m s = (Returns x, s') \<Longrightarrow> Q x s'"
  by (simp add: returns_with_def)

lemma returns_with_bind:
  assumes "returns_with P m R" and "\<And>x. returns_with (R x) (g x) Q"
  shows "returns_with P (go_bind m g) Q"
  unfolding returns_with_def
proof (intro allI impI)
  fix s y s''
  assume "P s" and "go_bind m g s = (Returns y, s'')"
  then obtain x s' where m: "m s = (Returns x, s')" and g: "g x s' = (Returns y, s'')"
    by (elim go_bind_ReturnsE)
  from assms(1) \<open>P s\<close> m have "R x s'" by (rule returns_withD)
  from assms(2) this g show "Q y s''" by (rule returns_withD)
qed

lemma returns_with_keeps: "keeps f m \<Longrightarrow> returns_with (\<lambda>s. P (f s)) m (\<lambda>_ s. P (f s))"
  unfolding returns_with_def by (metis keepsD)

lemma returns_with_return: "(\<And>s. P s \<Longrightarrow> Q x s) \<Longrightarrow> returns_with P (go_return x) Q"
  by (simp add: returns_with_def go_run)

subsection \<open>Operations that come back\<close>

definition nonblocking :: "('s, 'a) go \<Rightarrow> bool" where
  "nonblocking m \<longleftrightarrow> (\<forall>s. fst (m s) \<noteq> Blocks)"

lemma nonblockingD: "nonblocking m \<Longrightarrow> fst (m s) \<noteq> Blocks"
  by (simp add: nonblocking_def)

lemma nonblocking_prim [go_nonblock]:
  "nonblocking (go_return x)"
  "nonblocking (go_panic p)"
  "nonblocking (go_exit n)"
  "nonblocking (go_gets f)"
  "nonblocking (go_modify g)"
  by (simp_all add: nonblocking_def go_run)

lemma nonblocking_bind [go_nonblock]:
  assumes "nonblocking m" and "\<And>x. nonblocking (g x)"
  shows "nonblocking (go_bind m g)"
  unfolding nonblocking_def
proof
  fix s
  obtain q s1 where m: "m s = (q, s1)" by (cases "m s")
  with assms(1) have "q \<noteq> Blocks" unfolding nonblocking_def by (metis fst_conv)
  with m assms(2) show "fst (go_bind m g s) \<noteq> Blocks"
    by (cases q) (simp_all add: go_bind_def nonblocking_def)
qed

lemma nonblocking_seq [go_nonblock]: "nonblocking m \<Longrightarrow> nonblocking n \<Longrightarrow> nonblocking (go_seq m n)"
  unfolding go_seq_def by (rule nonblocking_bind)

lemma nonblocking_if [go_nonblock]: "nonblocking m \<Longrightarrow> nonblocking n \<Longrightarrow> nonblocking (if b then m else n)"
  by simp

lemma nonblocking_option [go_nonblock]:
  "nonblocking m \<Longrightarrow> (\<And>x. nonblocking (g x)) \<Longrightarrow> nonblocking (case v of None \<Rightarrow> m | Some x \<Rightarrow> g x)"
  by (cases v) auto

lemma nonblocking_sum [go_nonblock]:
  "(\<And>e. nonblocking (h e)) \<Longrightarrow> (\<And>x. nonblocking (g x)) \<Longrightarrow>
   nonblocking (case v of Inl e \<Rightarrow> h e | Inr x \<Rightarrow> g x)"
  by (cases v) auto

lemma nonblocking_prod [go_nonblock]:
  "(\<And>x y. nonblocking (g x y)) \<Longrightarrow> nonblocking (case v of (x, y) \<Rightarrow> g x y)"
  by (cases v) auto

lemma nonblocking_for [go_nonblock]: "(\<And>x. nonblocking (g x)) \<Longrightarrow> nonblocking (go_for g xs)"
  by (induction xs) (auto intro: go_nonblock)

lemma nonblocking_defer [go_nonblock]:
  assumes "nonblocking d" and "nonblocking m"
  shows "nonblocking (go_defer d m)"
  unfolding nonblocking_def
proof
  fix s
  obtain q s1 where m: "m s = (q, s1)" by (cases "m s")
  with assms(2) have "q \<noteq> Blocks" unfolding nonblocking_def by (metis fst_conv)
  with m show "fst (go_defer d m s) \<noteq> Blocks"
    by (cases q) (simp_all add: go_defer_def nonblockingD nonblocking_seq nonblocking_prim assms(1))
qed

lemma nonblocking_wait [go_nonblock]: "nonblocking m \<Longrightarrow> nonblocking (go_wait m)"
  by (auto simp: nonblocking_def go_wait_def split: prod.split outcome.split) (metis fst_conv)

section \<open>Slices and maps\<close>

text \<open>\<open>xs[i]\<close> of a slice, for an index known not to be negative.\<close>

definition go_index :: "'a list \<Rightarrow> nat \<Rightarrow> ('s, 'a) go" where
  "go_index xs i = (if i < length xs then go_return (xs ! i) else go_panic IndexOutOfRange)"

text \<open>\<open>s[lo:hi]\<close> of a string; \<open>hi\<close> may be negative, as in \<open>len(s)-1\<close>.\<close>

definition go_slice :: "'a list \<Rightarrow> nat \<Rightarrow> int \<Rightarrow> ('s, 'a list) go" where
  "go_slice s lo hi =
     (if int lo \<le> hi \<and> hi \<le> int (length s) then go_return (drop lo (take (nat hi) s))
      else go_panic SliceOutOfRange)"

type_synonym ('k, 'v) gomap = "('k \<rightharpoonup> 'v) option"

definition gomap_get :: "('k, 'v) gomap \<Rightarrow> 'k \<Rightarrow> 'v option" where
  "gomap_get m k = (case m of None \<Rightarrow> None | Some f \<Rightarrow> f k)"

definition gomap_delete :: "'k \<Rightarrow> ('k, 'v) gomap \<Rightarrow> ('k, 'v) gomap" where
  "gomap_delete k m = map_option (\<lambda>f. f(k := None)) m"

text \<open>\<open>range m\<close> visits each key of the map once, in an order the language does not fix: any
  enumeration of its keys.\<close>

definition range_order :: "'k list \<Rightarrow> ('k \<rightharpoonup> 'v) \<Rightarrow> bool" where
  "range_order ks m \<longleftrightarrow> distinct ks \<and> set ks = dom m"

lemma gomap_get_simps [simp]:
  "gomap_get None k = None"
  "gomap_get (Some f) k = f k"
  by (simp_all add: gomap_get_def)

lemma gomap_delete_simps [simp]:
  "gomap_delete k None = None"
  "gomap_delete k (Some f) = Some (f(k := None))"
  by (simp_all add: gomap_delete_def)

lemma go_index_run [go_run]:
  "i < length xs \<Longrightarrow> go_index xs i s = (Returns (xs ! i), s)"
  "\<not> i < length xs \<Longrightarrow> go_index xs i s = (Panics IndexOutOfRange, s)"
  by (simp_all add: go_index_def go_run)

lemma go_slice_run [go_run]:
  "int lo \<le> hi \<Longrightarrow> hi \<le> int (length xs) \<Longrightarrow>
     go_slice xs lo hi s = (Returns (drop lo (take (nat hi) xs)), s)"
  "\<not> (int lo \<le> hi \<and> hi \<le> int (length xs)) \<Longrightarrow> go_slice xs lo hi s = (Panics SliceOutOfRange, s)"
  by (auto simp: go_slice_def go_run)

lemma nonblocking_slices [go_nonblock]: "nonblocking (go_index xs i)" "nonblocking (go_slice ys lo hi)"
  by (simp_all add: go_index_def go_slice_def go_nonblock)

lemma keeps_slices [go_keeps]: "keeps f (go_index xs i)" "keeps f (go_slice ys lo hi)"
  by (simp_all add: go_index_def go_slice_def go_keeps)

end
