(* ===== verification/Go_Strings.thy ===== *)
theory Go_Strings
  imports Go_Prelude
begin

text \<open>
  The functions of the packages \<open>strings\<close>, \<open>strconv\<close> and \<open>path/filepath\<close> that the plugin
  and its tools call. A Go string is a list of bytes, here a list of \<open>char\<close>.

  The lemmas show the round trips the components rely on: a suffix that was appended is
  found and trimmed, splitting undoes joining, a decimal number that was printed is read
  back unchanged, and the words of a command line without blanks come back as they are.
\<close>

section \<open>Prefixes and suffixes\<close>

definition HasPrefix :: "string \<Rightarrow> string \<Rightarrow> bool" where
  "HasPrefix s p \<longleftrightarrow> length p \<le> length s \<and> take (length p) s = p"

definition HasSuffix :: "string \<Rightarrow> string \<Rightarrow> bool" where
  "HasSuffix s p \<longleftrightarrow> length p \<le> length s \<and> drop (length s - length p) s = p"

definition TrimPrefix :: "string \<Rightarrow> string \<Rightarrow> string" where
  "TrimPrefix s p = (if HasPrefix s p then drop (length p) s else s)"

definition TrimSuffix :: "string \<Rightarrow> string \<Rightarrow> string" where
  "TrimSuffix s p = (if HasSuffix s p then take (length s - length p) s else s)"

fun Contains :: "string \<Rightarrow> string \<Rightarrow> bool" where
  "Contains [] p = (p = [])"
| "Contains (x # xs) p = (HasPrefix (x # xs) p \<or> Contains xs p)"

lemma HasSuffix_append [simp]: "HasSuffix (s @ p) p"
  by (simp add: HasSuffix_def)

lemma TrimSuffix_append [simp]: "TrimSuffix (s @ p) p = s"
  by (simp add: TrimSuffix_def)

lemma HasSuffix_iff: "HasSuffix s p \<longleftrightarrow> (\<exists>t. s = t @ p)"
proof
  assume "HasSuffix s p"
  then have "s = take (length s - length p) s @ p"
    unfolding HasSuffix_def by (metis append_take_drop_id)
  then show "\<exists>t. s = t @ p" ..
next
  assume "\<exists>t. s = t @ p"
  then show "HasSuffix s p" by auto
qed

lemma HasPrefix_iff: "HasPrefix s p \<longleftrightarrow> (\<exists>t. s = p @ t)"
  unfolding HasPrefix_def by (metis append_eq_conv_conj append_take_drop_id le_add1 length_append)

lemma TrimPrefix_append [simp]: "TrimPrefix (p @ s) p = s"
  by (simp add: TrimPrefix_def HasPrefix_def)

section \<open>Split, Join and Fields\<close>

text \<open>\<open>strings.Split\<close> with a separator of one byte, as every call of the code has it.\<close>

fun Split :: "string \<Rightarrow> char \<Rightarrow> string list" where
  "Split [] c = [[]]"
| "Split (x # xs) c =
     (if x = c then [] # Split xs c
      else (case Split xs c of [] \<Rightarrow> [[x]] | w # ws \<Rightarrow> (x # w) # ws))"

fun Join :: "string list \<Rightarrow> string \<Rightarrow> string" where
  "Join [] sep = []"
| "Join [w] sep = w"
| "Join (w # v # ws) sep = w @ sep @ Join (v # ws) sep"

lemma Split_not_Nil [simp]: "Split s c \<noteq> []"
  by (cases s) (auto split: list.splits)

lemma Split_word: "c \<notin> set w \<Longrightarrow> Split w c = [w]"
  by (induction w) auto

lemma Split_append: "c \<notin> set w \<Longrightarrow> Split (w @ c # s) c = w # Split s c"
  by (induction w) auto

lemma Join_Split: "Join (Split s c) [c] = s"
proof (induction s)
  case Nil
  then show ?case by simp
next
  case (Cons x xs)
  obtain w ws where ws: "Split xs c = w # ws" by (cases "Split xs c") auto
  with Cons show ?case by (cases ws) auto
qed

lemma Split_parts: "w \<in> set (Split s c) \<Longrightarrow> c \<notin> set w"
  by (induction s arbitrary: w) (auto split: if_splits list.splits)

lemma last_Split: "c \<notin> set w \<Longrightarrow> last (Split (s @ c # w) c) = w"
proof (induction s)
  case Nil
  then show ?case by (simp add: Split_word)
next
  case (Cons x s)
  obtain v vs where vs: "Split (s @ c # w) c = v # vs" by (cases "Split (s @ c # w) c") auto
  moreover have "vs \<noteq> []"
  proof
    assume "vs = []"
    with vs have "v = s @ c # w" using Join_Split [of "s @ c # w" c] by simp
    with vs Split_parts [of v "s @ c # w" c] show False by simp
  qed
  ultimately show ?case using Cons by auto
qed

lemma Split_Join:
  "ws \<noteq> [] \<Longrightarrow> \<forall>w \<in> set ws. c \<notin> set w \<Longrightarrow> Split (Join ws [c]) c = ws"
  by (induction ws "[c]" rule: Join.induct) (auto simp: Split_word Split_append)

text \<open>
  \<open>strings.Fields\<close> cuts around runs of white space in the sense of \<open>unicode.IsSpace\<close>: the
  six ASCII blanks and the encodings of the other space characters in UTF-8. Each of those
  starts with a lead byte, so it is found at its own position only.
\<close>

definition utf8_spaces :: "string list" where
  "utf8_spaces =
     [[CHR 0x09], [CHR 0x0A], [CHR 0x0B], [CHR 0x0C], [CHR 0x0D], [CHR 0x20],
      [CHR 0xC2, CHR 0x85], [CHR 0xC2, CHR 0xA0], [CHR 0xE1, CHR 0x9A, CHR 0x80]]
     @ map (\<lambda>b. [CHR 0xE2, CHR 0x80, b])
         [CHR 0x80, CHR 0x81, CHR 0x82, CHR 0x83, CHR 0x84, CHR 0x85, CHR 0x86, CHR 0x87,
          CHR 0x88, CHR 0x89, CHR 0x8A, CHR 0xA8, CHR 0xA9, CHR 0xAF]
     @ [[CHR 0xE2, CHR 0x81, CHR 0x9F], [CHR 0xE3, CHR 0x80, CHR 0x80]]"

definition space_width :: "string \<Rightarrow> nat" where
  "space_width s = (case find (\<lambda>p. HasPrefix s p) utf8_spaces of None \<Rightarrow> 0 | Some p \<Rightarrow> length p)"

function fields_from :: "string \<Rightarrow> string \<Rightarrow> string list" where
  "fields_from cur [] = (if cur = [] then [] else [cur])"
| "fields_from cur (x # xs) =
     (let n = space_width (x # xs) in
      if n = 0 then fields_from (cur @ [x]) xs
      else (if cur = [] then [] else [cur]) @ fields_from [] (drop (n - 1) xs))"
  by pat_completeness auto
termination
  by (relation "measure (\<lambda>(cur, s). length s)") auto

definition Fields :: "string \<Rightarrow> string list" where
  "Fields s = fields_from [] s"

text \<open>Bytes that neither are a blank nor start the encoding of one.\<close>

definition plain_char :: "char \<Rightarrow> bool" where
  "plain_char c \<longleftrightarrow> c \<notin> {CHR 0x09, CHR 0x0A, CHR 0x0B, CHR 0x0C, CHR 0x0D, CHR 0x20,
     CHR 0xC2, CHR 0xE1, CHR 0xE2, CHR 0xE3}"

lemma space_width_plain: "plain_char x \<Longrightarrow> space_width (x # xs) = 0"
  by (simp add: plain_char_def space_width_def utf8_spaces_def HasPrefix_def)

lemma space_width_blank [simp]: "space_width (CHR '' '' # xs) = 1"
  by (simp add: space_width_def utf8_spaces_def HasPrefix_def)

lemma fields_from_plain:
  "\<forall>x \<in> set w. plain_char x \<Longrightarrow> fields_from cur (w @ s) = fields_from (cur @ w) s"
  by (induction w arbitrary: cur) (auto simp: space_width_plain)

lemma Fields_word: "w \<noteq> [] \<Longrightarrow> \<forall>x \<in> set w. plain_char x \<Longrightarrow> Fields w = [w]"
  using fields_from_plain [of w "[]" "[]"] by (simp add: Fields_def)

lemma Fields_Cons:
  assumes "w \<noteq> []" and "\<forall>x \<in> set w. plain_char x"
  shows "Fields (w @ CHR '' '' # s) = w # Fields s"
  using fields_from_plain [OF assms(2), of "[]" "CHR '' '' # s"] assms(1)
  by (simp add: Fields_def)

section \<open>Decimal numbers\<close>

definition digit_char :: "nat \<Rightarrow> char" where
  "digit_char d = char_of (48 + d)"

fun nat_digits :: "nat \<Rightarrow> string" where
  "nat_digits n = (if n < 10 then [digit_char n] else nat_digits (n div 10) @ [digit_char (n mod 10)])"

declare nat_digits.simps [simp del]

text \<open>\<open>strconv.Itoa\<close>, \<open>strconv.FormatInt(_, 10)\<close> and the verb \<open>%d\<close>.\<close>

definition Itoa :: "int \<Rightarrow> string" where
  "Itoa i = (if i < 0 then CHR ''-'' # nat_digits (nat (- i)) else nat_digits (nat i))"

datatype num_error = ErrSyntax | ErrRange

definition digit_val :: "char \<Rightarrow> nat option" where
  "digit_val c = (let d = (of_char c :: nat) in if 48 \<le> d \<and> d \<le> 57 then Some (d - 48) else None)"

text \<open>
  The loop of \<open>strconv.ParseUint(s, 10, 64)\<close>: \<open>n\<close> is the value of the digits read so far, a
  \<open>uint64\<close>; the cutoff is the least \<open>n\<close> for which \<open>10 * n\<close> overflows.
\<close>

definition max_uint64 :: nat where
  "max_uint64 = 18446744073709551615"

definition cutoff64 :: nat where
  "cutoff64 = 1844674407370955162"

fun parse_uint :: "nat \<Rightarrow> string \<Rightarrow> nat \<times> num_error option" where
  "parse_uint n [] = (n, None)"
| "parse_uint n (c # cs) =
     (case digit_val c of
        None \<Rightarrow> (0, Some ErrSyntax)
      | Some v \<Rightarrow>
          (if cutoff64 \<le> n then (max_uint64, Some ErrRange)
           else if max_uint64 < n * 10 + v then (max_uint64, Some ErrRange)
           else parse_uint (n * 10 + v) cs))"

definition ParseUint :: "string \<Rightarrow> nat \<times> num_error option" where
  "ParseUint s = (if s = [] then (0, Some ErrSyntax) else parse_uint 0 s)"

definition max_int64 :: int where
  "max_int64 = 9223372036854775807"

text \<open>\<open>strconv.ParseInt(s, 10, 64)\<close>, and \<open>strconv.Atoi\<close> on a 64-bit machine.\<close>

definition ParseInt :: "string \<Rightarrow> int \<times> num_error option" where
  "ParseInt s =
     (if s = [] then (0, Some ErrSyntax)
      else let neg = (hd s = CHR ''-'');
               t = (if hd s = CHR ''+'' \<or> neg then tl s else s);
               (un, err) = ParseUint t
        in if err = Some ErrSyntax then (0, Some ErrSyntax)
           else if \<not> neg \<and> max_int64 < int un then (max_int64, Some ErrRange)
           else if neg \<and> max_int64 + 1 < int un then (- max_int64 - 1, Some ErrRange)
           else (if neg then - int un else int un, None))"

definition Atoi :: "string \<Rightarrow> int \<times> num_error option" where
  "Atoi s = ParseInt s"

lemma of_char_digit: "d < 10 \<Longrightarrow> (of_char (digit_char d) :: nat) = 48 + d"
  by (simp add: digit_char_def)

lemma digit_val_digit [simp]: "d < 10 \<Longrightarrow> digit_val (digit_char d) = Some d"
  by (simp add: digit_val_def of_char_digit)

lemma nat_digits_not_Nil [simp]: "nat_digits n \<noteq> []"
  by (subst nat_digits.simps) simp

lemma set_nat_digits: "set (nat_digits n) \<subseteq> digit_char ` {..<10}"
proof (induction n rule: nat_digits.induct)
  case (1 n)
  then show ?case
    by (subst nat_digits.simps) (auto simp: subset_iff)
qed

lemma digit_char_neq:
  assumes "d < 10"
  shows "digit_char d \<noteq> CHR ''-''" "digit_char d \<noteq> CHR ''+''" "plain_char (digit_char d)"
proof -
  have n: "digit_char d \<noteq> c" if "(of_char c :: nat) < 48 \<or> 57 < (of_char c :: nat)" for c
    using that of_char_digit [OF assms] assms by auto
  show "digit_char d \<noteq> CHR ''-''" "digit_char d \<noteq> CHR ''+''" by (rule n, simp)+
  show "plain_char (digit_char d)"
    unfolding plain_char_def by (simp add: n)
qed

lemma parse_uint_append:
  "parse_uint n (s @ [c]) =
     (case parse_uint n s of
        (m, None) \<Rightarrow> parse_uint m [c]
      | (m, Some e) \<Rightarrow> (m, Some e))"
  by (induction n s rule: parse_uint.induct) (auto split: option.splits)

lemma parse_uint_nat_digits:
  "n \<le> max_uint64 \<Longrightarrow> parse_uint 0 (nat_digits n) = (n, None)"
proof (induction n rule: nat_digits.induct)
  case (1 n)
  show ?case
  proof (cases "n < 10")
    case True
    with 1 show ?thesis
      by (subst nat_digits.simps) (simp add: cutoff64_def)
  next
    case False
    with 1 have IH: "parse_uint 0 (nat_digits (n div 10)) = (n div 10, None)"
      by simp
    from "1.prems" have "n div 10 < cutoff64"
      by (simp add: max_uint64_def cutoff64_def)
    with False IH "1.prems" show ?thesis
      by (subst nat_digits.simps) (simp add: parse_uint_append)
  qed
qed

lemma parse_uint_bound: "n \<le> max_uint64 \<Longrightarrow> fst (parse_uint n s) \<le> max_uint64"
  by (induction n s rule: parse_uint.induct) (auto split: option.splits)

lemma ParseUint_nat_digits: "n \<le> max_uint64 \<Longrightarrow> ParseUint (nat_digits n) = (n, None)"
  by (simp add: ParseUint_def parse_uint_nat_digits)

lemma hd_nat_digits: "\<exists>d < 10. hd (nat_digits n) = digit_char d"
  using set_nat_digits [of n] hd_in_set [of "nat_digits n"] by fastforce

lemma ParseInt_Itoa:
  assumes "- max_int64 - 1 \<le> i" and "i \<le> max_int64"
  shows "ParseInt (Itoa i) = (i, None)"
proof (cases "i < 0")
  case True
  with assms have "nat (- i) \<le> max_uint64"
    by (simp add: max_int64_def max_uint64_def)
  with True assms show ?thesis
    by (simp add: ParseInt_def Itoa_def ParseUint_nat_digits max_int64_def)
next
  case False
  obtain d where d: "d < 10" "hd (nat_digits (nat i)) = digit_char d"
    using hd_nat_digits by blast
  from assms have "nat i \<le> max_uint64"
    by (simp add: max_int64_def max_uint64_def)
  with False assms d show ?thesis
    by (simp add: ParseInt_def Itoa_def ParseUint_nat_digits digit_char_neq)
qed

lemma Atoi_Itoa:
  "- max_int64 - 1 \<le> i \<Longrightarrow> i \<le> max_int64 \<Longrightarrow> Atoi (Itoa i) = (i, None)"
  unfolding Atoi_def by (rule ParseInt_Itoa)

lemma ParseInt_range: "- max_int64 - 1 \<le> fst (ParseInt s) \<and> fst (ParseInt s) \<le> max_int64"
  by (auto simp: ParseInt_def max_int64_def Let_def split: prod.splits)

lemma Itoa_not_Nil [simp]: "Itoa i \<noteq> []"
  by (simp add: Itoa_def)

lemma Itoa_chars: "c \<in> set (Itoa i) \<Longrightarrow> c = CHR ''-'' \<or> c \<in> digit_char ` {..<10}"
  using set_nat_digits by (fastforce simp: Itoa_def split: if_splits)

lemma underscore_Itoa: "CHR ''_'' \<notin> set (Itoa i)"
proof
  assume "CHR ''_'' \<in> set (Itoa i)"
  then obtain d where "d < 10" "CHR ''_'' = digit_char d" by (auto dest: Itoa_chars)
  then have "(of_char (CHR ''_'') :: nat) = 48 + d" by (simp only: of_char_digit)
  with \<open>d < 10\<close> show False by simp
qed

lemma Itoa_plain: "c \<in> set (Itoa i) \<Longrightarrow> plain_char c"
proof -
  assume "c \<in> set (Itoa i)"
  then have "c = CHR ''-'' \<or> c \<in> digit_char ` {..<10}" by (rule Itoa_chars)
  then show ?thesis
    by (auto simp: digit_char_neq) (simp add: plain_char_def)
qed

text \<open>Different numbers are printed differently, whatever their size.\<close>

definition dec_value :: "string \<Rightarrow> nat" where
  "dec_value s = foldl (\<lambda>a c. 10 * a + (of_char c - 48)) 0 s"

lemma dec_value_nat_digits: "dec_value (nat_digits n) = n"
proof (induction n rule: nat_digits.induct)
  case (1 n)
  then show ?case
    by (subst nat_digits.simps) (simp add: dec_value_def of_char_digit)
qed

lemma nat_digits_inj [simp]: "nat_digits m = nat_digits n \<longleftrightarrow> m = n"
  by (metis dec_value_nat_digits)

lemma Itoa_inj [simp]: "Itoa i = Itoa j \<longleftrightarrow> i = j"
proof -
  have neg: "CHR ''-'' # t \<noteq> nat_digits n" for t n
    using hd_nat_digits [of n] digit_char_neq(1) by (metis list.sel(1))
  show ?thesis
    by (auto simp: Itoa_def neg neg [symmetric])
qed

section \<open>ASCII\<close>

definition ascii :: "string \<Rightarrow> bool" where
  "ascii s \<longleftrightarrow> list_all (\<lambda>c. (of_char c :: nat) < 0x80) s"

lemma ascii_simps [simp]: "ascii []" "ascii (c # s) \<longleftrightarrow> (of_char c :: nat) < 0x80 \<and> ascii s"
    "ascii (s @ t) \<longleftrightarrow> ascii s \<and> ascii t"
  by (simp_all add: ascii_def)

section \<open>filepath.Dir\<close>

text \<open>\<open>filepath.Dir\<close> of an absolute path that \<open>filepath.Clean\<close> leaves unchanged: what
  stands before the last slash.\<close>

definition path_dir :: "string \<Rightarrow> string" where
  "path_dir p = Join (butlast (Split p (CHR ''/''))) ''/''"

end
