(* ===== verification/World.thy ===== *)
theory World
  imports Go_Strings
begin

text \<open>
  What the plugin calls but does not implement: the operating system, the Docker daemon,
  InfluxDB and the random number generator. Each call is a field of the record \<open>env\<close>: a
  function of its arguments and of a world \<open>'w\<close> about which nothing is known, returning the
  answer and the next world. Theorems hold for every \<open>env\<close>; where a property relies on
  documented behaviour of one of these services it says so in a hypothesis.

  The state of the process is built in layers by record extension. The first layer,
  \<open>kernel\<close>, is the world, the network namespace each OS thread is in, and the log of the
  commands that were executed. The store and the caches are added by the theories of those
  components.
\<close>

section \<open>Data of the services\<close>

record docker_state =
  ds_Running :: bool
  ds_Paused :: bool
  ds_Restarting :: bool
  ds_OOMKilled :: bool
  ds_Dead :: bool
  ds_Pid :: int

record docker_container =
  dc_Name :: string
  dc_State :: docker_state

record APIEvents =
  ev_Status :: string
  ev_ID :: string

datatype chan_recv = Received APIEvents | ChanClosed

datatype influx_value = VString string | VNumber string | VBool bool | VNull

record influx_row =
  Values :: "influx_value list list"

record influx_result =
  Series :: "influx_row list"

record influx_response =
  Results :: "influx_result list"

section \<open>The environment\<close>

type_synonym ('w, 'a) ext = "'w \<Rightarrow> 'a \<times> 'w"

record 'w env =
  os_Getpid :: int
  go_thread :: "('w, nat) ext"
  os_Statfs :: "string \<Rightarrow> ('w, error + nat) ext"
  os_Open :: "(nat \<Rightarrow> nat) \<Rightarrow> string \<Rightarrow> ('w, error + nat) ext"
  os_Close :: "string \<Rightarrow> ('w, error option) ext"
  sys_setns :: "nat \<Rightarrow> ('w, error option) ext"
  os_Readlink :: "string \<Rightarrow> ('w, error + string) ext"
  exec_Command :: "nat \<Rightarrow> string list \<Rightarrow> ('w, error option) ext"
  time_Now :: "('w, int) ext"
  rand_Intn :: "int \<Rightarrow> int \<Rightarrow> ('w, int) ext"
  docker_NewClient :: "string \<Rightarrow> ('w, error option) ext"
  docker_ListContainers :: "('w, error + string list) ext"
  docker_InspectContainer :: "string \<Rightarrow> ('w, error + docker_container) ext"
  docker_AddEventListener :: "('w, error option) ext"
  docker_RemoveEventListener :: "('w, error option) ext"
  docker_receive :: "('w, chan_recv) ext"
  httptest_listen :: "('w, bool) ext"
  influx_NewClient :: "string \<Rightarrow> ('w, error option) ext"
  influx_Query :: "string \<Rightarrow> string \<Rightarrow> ('w, error + influx_response) ext"
  sys_Unmount :: "string \<Rightarrow> ('w, error option) ext"
  os_RemoveAll :: "string \<Rightarrow> ('w, error option) ext"
  os_MkdirAll :: "string \<Rightarrow> ('w, error option) ext"
  net_Listen :: "string \<Rightarrow> ('w, error option) ext"
  local_offset :: "int \<Rightarrow> int"
  unicode_IsPrint :: "nat \<Rightarrow> bool"

text \<open>
  \<open>os_Open\<close> sees the table of the threads' namespaces, because the file
  \<open>/proc/<pid>/task/<tid>/ns/net\<close> denotes the namespace thread \<open>tid\<close> is in; a namespace is
  known by its inode. \<open>exec_Command\<close> sees the namespace of the thread that starts the
  command, which the command inherits. \<open>time_Now\<close> is in nanoseconds since the epoch;
  \<open>local_offset\<close> is the offset of the local time zone from UTC at an instant, in seconds, and
  \<open>unicode_IsPrint\<close> the table of printable characters outside ASCII.
  \<open>rand_Intn seed n\<close> is \<open>rand.Intn(n)\<close> after \<open>rand.Seed(seed)\<close>, for positive \<open>n\<close>. No field can
  fail to answer: a call that never returns is a run in which the goroutine makes no further
  step.
\<close>

section \<open>The kernel layer of the process state\<close>

datatype effect = Exec nat "string list" bool

record 'w kernel =
  world :: 'w
  thread_ns :: "nat \<Rightarrow> nat"
  trace :: "effect list"

definition call :: "('w, 'a) ext \<Rightarrow> (('w, 'z) kernel_scheme, 'a) go" where
  "call c s = (case c (world s) of (r, w) \<Rightarrow> (Returns r, s\<lparr>world := w\<rparr>))"

definition log_effect :: "effect \<Rightarrow> (('w, 'z) kernel_scheme, unit) go" where
  "log_effect e = go_modify (\<lambda>s. s\<lparr>trace := trace s @ [e]\<rparr>)"

lemma call_run [go_run]:
  "call c s = (Returns (fst (c (world s))), s\<lparr>world := snd (c (world s))\<rparr>)"
  by (simp add: call_def split: prod.split)

lemma keeps_call [go_keeps]:
  "(\<And>s w. f (s\<lparr>world := w\<rparr>) = f s) \<Longrightarrow> keeps f (call c)"
  by (simp add: keeps_def call_def split: prod.split)

lemma keeps_log_effect [go_keeps]:
  "(\<And>s e. f (s\<lparr>trace := e\<rparr>) = f s) \<Longrightarrow> keeps f (log_effect x)"
  unfolding log_effect_def by (rule keeps_modify) simp

lemma nonblocking_call [go_nonblock]: "nonblocking (call c)" "nonblocking (log_effect e)"
  by (simp_all add: nonblocking_def call_def log_effect_def go_run split: prod.split)

text \<open>An external call never panics and changes nothing but the world.\<close>

lemma call_cases:
  obtains r w where "call c s = (Returns r, s\<lparr>world := w\<rparr>)" "c (world s) = (r, w)"
  by (cases "c (world s)") (simp add: call_def)

lemma go_bind_call [go_run]:
  "go_bind (call c) f s = f (fst (c (world s))) (s\<lparr>world := snd (c (world s))\<rparr>)"
  by (simp add: go_bind_def call_def split: prod.split)

end
