(* ===== verification/NetNS.thy ===== *)
theory NetNS
  imports World
begin

text \<open>
  Running a closure in the network namespace of a container: the part of the vendored
  package \<open>github.com/containernetworking/cni/pkg/ns\<close> that \<open>tc.go\<close> calls. A namespace file
  is opened (\<open>GetNS\<close>), the OS thread of a fresh goroutine is switched to it (\<open>Set\<close>), the
  closure runs, and the deferred calls switch the thread back and close the files.

  The lemmas show that nothing but the world, the threads' namespaces and what the closure
  itself changes is touched, that the closure runs on a thread that is in the target
  namespace, and that every thread is back in its namespace afterwards when the kernel
  refuses no switch back. When every call before the closure succeeds, the closure is run.
\<close>

section \<open>Namespace objects\<close>

record netNS =
  ns_name :: string
  ns_ino :: nat
  ns_mounted :: bool
  ns_closed :: bool

definition NSFS_MAGIC :: nat where
  "NSFS_MAGIC = 0x6e736673"

definition PROCFS_MAGIC :: nat where
  "PROCFS_MAGIC = 0x9fa0"

definition getCurrentThreadNetNSPath :: "'w env \<Rightarrow> nat \<Rightarrow> string" where
  "getCurrentThreadNetNSPath E tid =
     ''/proc/'' @ Itoa (os_Getpid E) @ ''/task/'' @ Itoa (int tid) @ ''/ns/net''"

definition IsNSorErr :: "'w env \<Rightarrow> string \<Rightarrow> (('w, 'z) kernel_scheme, error option) go" where
  "IsNSorErr E nspath = go_bind (call (os_Statfs E nspath)) (\<lambda>r. go_return
     (case r of
        Inl err \<Rightarrow> Some (case err of
            NotExist _ \<Rightarrow> NSPathNotExistErr ''failed to Statfs %q: %v'' [ArgS nspath, ArgE err]
          | _ \<Rightarrow> Errorf ''failed to Statfs %q: %v'' [ArgS nspath, ArgE err])
      | Inr magic \<Rightarrow>
          (if magic = PROCFS_MAGIC then
             (if Contains nspath ''ns/'' then None
              else Some (NSPathNotNSErr ''path %q doesn't contain %q'' [ArgS nspath, ArgS ''ns/'']))
           else if magic = NSFS_MAGIC then None
           else Some (NSPathNotNSErr ''unknown FS magic on %q: %x'' [ArgS nspath, ArgD (int magic)]))))"

definition GetNS :: "'w env \<Rightarrow> string \<Rightarrow> (('w, 'z) kernel_scheme, error + netNS) go" where
  "GetNS E nspath = go_bind (IsNSorErr E nspath) (\<lambda>e. case e of
      Some err \<Rightarrow> go_return (Inl err)
    | None \<Rightarrow> go_bind (go_gets thread_ns) (\<lambda>tbl.
        go_bind (call (os_Open E tbl nspath)) (\<lambda>r. go_return (case r of
            Inl err \<Rightarrow> Inl err
          | Inr ino \<Rightarrow>
              Inr \<lparr>ns_name = nspath, ns_ino = ino, ns_mounted = False, ns_closed = False\<rparr>))))"

definition errorIfClosed :: "netNS \<Rightarrow> error option" where
  "errorIfClosed n =
     (if ns_closed n then Some (Errorf ''%q has already been closed'' [ArgS (ns_name n)]) else None)"

text \<open>\<open>Close\<close> returns the object as well, whose flags it changes.\<close>

definition Close :: "'w env \<Rightarrow> netNS \<Rightarrow> (('w, 'z) kernel_scheme, error option \<times> netNS) go" where
  "Close E n = (case errorIfClosed n of
      Some err \<Rightarrow> go_return (Some err, n)
    | None \<Rightarrow> go_bind (call (os_Close E (ns_name n))) (\<lambda>r. case r of
          Some err \<Rightarrow> go_return
            (Some (Errorf ''Failed to close %q: %v'' [ArgS (ns_name n), ArgE err]), n)
        | None \<Rightarrow>
            (if \<not> ns_mounted n then go_return (None, n\<lparr>ns_closed := True\<rparr>)
             else go_bind (call (sys_Unmount E (ns_name n))) (\<lambda>u. case u of
                 Some err \<Rightarrow> go_return
                   (Some (Errorf ''Failed to unmount namespace %s: %v'' [ArgS (ns_name n), ArgE err]),
                    n\<lparr>ns_closed := True\<rparr>)
               | None \<Rightarrow> go_bind (call (os_RemoveAll E (ns_name n))) (\<lambda>v. go_return (case v of
                     Some err \<Rightarrow>
                       (Some (Errorf ''Failed to clean up namespace %s: %v'' [ArgS (ns_name n), ArgE err]),
                        n\<lparr>ns_closed := True\<rparr>)
                   | None \<Rightarrow> (None, n\<lparr>ns_closed := True, ns_mounted := False\<rparr>)))))))"

definition Set :: "'w env \<Rightarrow> nat \<Rightarrow> netNS \<Rightarrow> (('w, 'z) kernel_scheme, error option) go" where
  "Set E tid n = (case errorIfClosed n of
      Some err \<Rightarrow> go_return (Some err)
    | None \<Rightarrow> go_bind (call (sys_setns E (ns_ino n))) (\<lambda>r. case r of
          Some err \<Rightarrow> go_return (Some (Errorf ''Error switching to ns %v: %v'' [ArgS (ns_name n), ArgE err]))
        | None \<Rightarrow> go_seq (go_modify (\<lambda>s. s\<lparr>thread_ns := (thread_ns s)(tid := ns_ino n)\<rparr>))
            (go_return None)))"

section \<open>Running a closure in a namespace\<close>

text \<open>The closure is given the thread it runs on; the argument \<open>hostNS\<close> of the source's
  closures is not used by any of them.\<close>

definition containedCall ::
  "'w env \<Rightarrow> nat \<Rightarrow> netNS \<Rightarrow> (nat \<Rightarrow> (('w, 'z) kernel_scheme, error option) go)
     \<Rightarrow> (('w, 'z) kernel_scheme, error option) go" where
  "containedCall E tid n toRun =
     go_bind (GetNS E (getCurrentThreadNetNSPath E tid)) (\<lambda>r. case r of
        Inl err \<Rightarrow> go_return (Some (Errorf ''failed to open current netns: %v'' [ArgE err]))
      | Inr threadNS \<Rightarrow> go_defer (Close E threadNS)
          (go_bind (Set E tid n) (\<lambda>e. case e of
              Some err \<Rightarrow> go_return
                (Some (Errorf ''error switching to ns %v: %v'' [ArgS (ns_name n), ArgE err]))
            | None \<Rightarrow> go_defer (Set E tid threadNS) (toRun tid))))"

definition Do ::
  "'w env \<Rightarrow> nat \<Rightarrow> netNS \<Rightarrow> (nat \<Rightarrow> (('w, 'z) kernel_scheme, error option) go)
     \<Rightarrow> (('w, 'z) kernel_scheme, error option) go" where
  "Do E tid n toRun = (case errorIfClosed n of
      Some err \<Rightarrow> go_return (Some err)
    | None \<Rightarrow> go_bind (GetNS E (getCurrentThreadNetNSPath E tid)) (\<lambda>r. case r of
          Inl err \<Rightarrow> go_return (Some (Errorf ''Failed to open current namespace: %v'' [ArgE err]))
        | Inr hostNS \<Rightarrow> go_defer (Close E hostNS)
            (go_bind (call (go_thread E)) (\<lambda>tid'.
               go_wait (containedCall E tid' n toRun)))))"

definition WithNetNSPath ::
  "'w env \<Rightarrow> nat \<Rightarrow> string \<Rightarrow> (nat \<Rightarrow> (('w, 'z) kernel_scheme, error option) go)
     \<Rightarrow> (('w, 'z) kernel_scheme, error option) go" where
  "WithNetNSPath E tid nspath toRun =
     go_bind (GetNS E nspath) (\<lambda>r. case r of
        Inl err \<Rightarrow> go_return (Some err)
      | Inr n \<Rightarrow> go_defer (Close E n) (Do E tid n toRun))"

section \<open>What the calls do to the state\<close>

lemma keeps_netns [go_keeps]:
  assumes "\<And>s w. f (s\<lparr>world := w\<rparr>) = f s"
  shows "keeps f (IsNSorErr E p)" "keeps f (GetNS E p)" "keeps f (Close E n)"
  unfolding IsNSorErr_def GetNS_def Close_def by (intro go_keeps assms)+

lemma keeps_Set [go_keeps]:
  assumes "\<And>s w. f (s\<lparr>world := w\<rparr>) = f s" and "\<And>s g. f (s\<lparr>thread_ns := g\<rparr>) = f s"
  shows "keeps f (Set E tid n)"
  unfolding Set_def by (intro go_keeps assms)

lemma keeps_WithNetNSPath [go_keeps]:
  assumes "\<And>s w. f (s\<lparr>world := w\<rparr>) = f s" and "\<And>s g. f (s\<lparr>thread_ns := g\<rparr>) = f s"
    and "\<And>t. keeps f (toRun t)"
  shows "keeps f (WithNetNSPath E tid p toRun)"
  unfolding WithNetNSPath_def Do_def containedCall_def by (intro go_keeps assms)

text \<open>Opening a namespace file always answers and changes only the world.\<close>

lemma GetNS_cases:
  obtains (err) e w where "GetNS E p s = (Returns (Inl e), s\<lparr>world := w\<rparr>)"
  | (ok) i w w' where
      "GetNS E p s = (Returns (Inr \<lparr>ns_name = p, ns_ino = i, ns_mounted = False, ns_closed = False\<rparr>),
         s\<lparr>world := w\<rparr>)"
      and "fst (os_Open E (thread_ns s) p w') = Inr i"
proof -
  obtain r w where st: "IsNSorErr E p s = (Returns r, s\<lparr>world := w\<rparr>)"
    by (cases "os_Statfs E p (world s)") (simp add: IsNSorErr_def go_run)
  obtain q w2 where op: "os_Open E (thread_ns s) p w = (q, w2)"
    by (cases "os_Open E (thread_ns s) p w")
  show thesis
  proof (cases r)
    case (Some e)
    with st show ?thesis by (intro err [of e w]) (simp add: GetNS_def go_run)
  next
    case None
    show ?thesis
    proof (cases q)
      case (Inl e)
      with None st op show ?thesis by (intro err [of e w2]) (simp add: GetNS_def go_run)
    next
      case (Inr i)
      with None st op show ?thesis
        by (intro ok [of i w2 w]) (simp_all add: GetNS_def go_run)
    qed
  qed
qed

lemma Close_cases:
  obtains r w where "Close E n s = (Returns r, s\<lparr>world := w\<rparr>)"
proof -
  have "\<exists>r w. Close E n s = (Returns r, s\<lparr>world := w\<rparr>)"
    by (auto simp: Close_def errorIfClosed_def go_run split: option.splits intro: exI [of _ "world s"])
  then show thesis using that by blast
qed

lemma Set_cases:
  assumes "\<not> ns_closed n"
  obtains (err) e w where "Set E tid n s = (Returns (Some e), s\<lparr>world := w\<rparr>)"
      and "fst (sys_setns E (ns_ino n) (world s)) \<noteq> None"
  | (ok) w where "Set E tid n s =
      (Returns None, s\<lparr>world := w, thread_ns := (thread_ns s)(tid := ns_ino n)\<rparr>)"
proof (cases "sys_setns E (ns_ino n) (world s)")
  case (Pair r w)
  with assms show thesis
    by (cases r) (auto simp: Set_def errorIfClosed_def go_run intro: err ok)
qed

lemma go_defer_Close:
  assumes "m s = (Returns x, s1)"
  shows "\<exists>w. go_defer (Close E n) m s = (Returns x, s1\<lparr>world := w\<rparr>)"
proof -
  obtain r w where "Close E n s1 = (Returns r, s1\<lparr>world := w\<rparr>)" by (rule Close_cases)
  with assms show ?thesis by (auto simp: go_run)
qed

text \<open>
  The two ways a call ends that runs a closure in the namespace with inode \<open>i\<close>, for a closure
  that neither panics nor ends the process: an error before the closure is run, with only
  the world changed; or the closure is run on some thread that was switched to \<open>i\<close>. In that
  case the thread is switched back to the namespace found in its task directory, unless the
  kernel refuses that.
\<close>

inductive ns_outcome ::
  "'w env \<Rightarrow> nat \<Rightarrow> (nat \<Rightarrow> (('w, 'z) kernel_scheme, error option) go) \<Rightarrow> ('w, 'z) kernel_scheme
     \<Rightarrow> error option outcome \<times> ('w, 'z) kernel_scheme \<Rightarrow> bool"
  for E :: "'w env" and i :: nat and toRun :: "nat \<Rightarrow> (('w, 'z) kernel_scheme, error option) go"
    and s :: "('w, 'z) kernel_scheme" where
  not_run: "s' = s\<lparr>world := w\<rparr> \<Longrightarrow> ns_outcome E i toRun s (Returns (Some e), s')"
| ran:
    "fst (os_Open E (thread_ns s) (getCurrentThreadNetNSPath E t) wo) = Inr j \<Longrightarrow>
     sa = s\<lparr>world := wa, thread_ns := (thread_ns s)(t := i)\<rparr> \<Longrightarrow>
     toRun t sa = (Returns x, sb) \<Longrightarrow>
     tbl = (thread_ns sb)(t := j) \<or> tbl = thread_ns sb \<and> (\<exists>w. fst (sys_setns E j w) \<noteq> None) \<Longrightarrow>
     s' = sb\<lparr>world := wb, thread_ns := tbl\<rparr> \<Longrightarrow>
     ns_outcome E i toRun s (Returns x, s')"

lemma ns_outcome_pre: "ns_outcome E i f (s\<lparr>world := w\<rparr>) rs \<Longrightarrow> ns_outcome E i f s rs"
proof (induction rule: ns_outcome.induct)
  case (not_run s' v e)
  then show ?case by (intro ns_outcome.not_run [where w = v]) simp
next
  case (ran t w0 j s1 w1 x s2 tbl s' w2)
  then show ?case
    by (intro ns_outcome.ran [where t = t and wo = w0 and j = j and sa = s1 and wa = w1
          and sb = s2 and tbl = tbl and wb = w2]) simp_all
qed

lemma ns_outcome_post:
  "ns_outcome E i f s rs \<Longrightarrow> ns_outcome E i f s (fst rs, (snd rs)\<lparr>world := w\<rparr>)"
proof (induction rule: ns_outcome.induct)
  case (not_run s' v e)
  then show ?case by (auto intro: ns_outcome.not_run [where w = w])
next
  case (ran t w0 j s1 w1 x s2 tbl s' w2)
  then have "s'\<lparr>world := w\<rparr> = s2\<lparr>world := w, thread_ns := tbl\<rparr>" by simp
  with ran(1-4) have "ns_outcome E i f s (Returns x, s'\<lparr>world := w\<rparr>)" by (rule ns_outcome.ran)
  then show ?case by simp
qed

lemma ns_outcome_Returns: "ns_outcome E i f s rs \<Longrightarrow> \<exists>x s'. rs = (Returns x, s')"
  by (induction rule: ns_outcome.induct) simp_all

lemma ns_outcome_defer_Close:
  assumes "ns_outcome E i f s rs" and "m s1 = rs"
  shows "ns_outcome E i f s (go_defer (Close E n) m s1)"
proof -
  obtain x s2 where m: "m s1 = (Returns x, s2)"
    using ns_outcome_Returns [OF assms(1)] assms(2) by blast
  from go_defer_Close [where m = m, OF m]
  obtain w where "go_defer (Close E n) m s1 = (Returns x, s2\<lparr>world := w\<rparr>)" ..
  moreover have "ns_outcome E i f s (Returns x, s2\<lparr>world := w\<rparr>)"
    using ns_outcome_post [OF assms(1), where w = w] m assms(2) by simp
  ultimately show ?thesis by simp
qed

lemma Set_back:
  assumes "\<not> ns_closed n"
  obtains r u tbl where "Set E t n s = (Returns r, s\<lparr>world := u, thread_ns := tbl\<rparr>)"
    and "tbl = (thread_ns s)(t := ns_ino n) \<or>
         tbl = thread_ns s \<and> (\<exists>w. fst (sys_setns E (ns_ino n) w) \<noteq> None)"
proof (cases rule: Set_cases [OF assms, of E t s])
  case (1 e w)
  then show thesis by (intro that [where r = "Some e" and u = w and tbl = "thread_ns s"]) auto
next
  case (2 w)
  then show thesis by (intro that [where r = None and u = w and tbl = "(thread_ns s)(t := ns_ino n)"]) auto
qed

lemma ns_outcome_containedCall:
  assumes ret: "\<And>t s1. \<exists>x s2. f t s1 = (Returns x, s2)" and "\<not> ns_closed n"
  shows "ns_outcome E (ns_ino n) f s (containedCall E t n f s)"
proof (cases rule: GetNS_cases [of E "getCurrentThreadNetNSPath E t" s])
  case (err e w)
  then show ?thesis
    by (simp add: containedCall_def go_bind_simps go_prim_simps ns_outcome.not_run [OF refl])
next
  case (ok j w w0)
  let ?t = "\<lparr>ns_name = getCurrentThreadNetNSPath E t, ns_ino = j, ns_mounted = False, ns_closed = False\<rparr>"
  define body where "body = go_bind (Set E t n) (\<lambda>e. case e of
              Some err \<Rightarrow> go_return
                (Some (Errorf ''error switching to ns %v: %v'' [ArgS (ns_name n), ArgE err]))
            | None \<Rightarrow> go_defer (Set E t ?t) (f t))"
  have C: "containedCall E t n f s = go_defer (Close E ?t) body (s\<lparr>world := w\<rparr>)"
    using ok by (simp add: containedCall_def body_def go_bind_simps)
  have "ns_outcome E (ns_ino n) f s (body (s\<lparr>world := w\<rparr>))"
  proof (cases rule: Set_cases [OF assms(2), of E t "s\<lparr>world := w\<rparr>"])
    case (1 e v)
    then show ?thesis
      by (simp add: body_def go_bind_simps go_prim_simps ns_outcome.not_run [OF refl])
  next
    case (2 v)
    let ?s1 = "s\<lparr>world := v, thread_ns := (thread_ns s)(t := ns_ino n)\<rparr>"
    obtain x s2 where run: "f t ?s1 = (Returns x, s2)" using ret by blast
    obtain r u tbl where swb: "Set E t ?t s2 = (Returns r, s2\<lparr>world := u, thread_ns := tbl\<rparr>)"
      and tbl: "tbl = (thread_ns s2)(t := j) \<or> tbl = thread_ns s2 \<and> (\<exists>w. fst (sys_setns E j w) \<noteq> None)"
      by (rule Set_back [of ?t E t s2]) auto
    have "body (s\<lparr>world := w\<rparr>) = (Returns x, s2\<lparr>world := u, thread_ns := tbl\<rparr>)"
      using 2 run swb by (simp add: body_def go_bind_simps go_defer_simps go_seq_simps go_prim_simps)
    moreover have "ns_outcome E (ns_ino n) f s (Returns x, s2\<lparr>world := u, thread_ns := tbl\<rparr>)"
      using ok(2) refl run tbl refl by (rule ns_outcome.ran)
    ultimately show ?thesis by simp
  qed
  then show ?thesis unfolding C by (rule ns_outcome_defer_Close) simp
qed

lemma ns_outcome_Do:
  assumes ret: "\<And>t s1. \<exists>x s2. f t s1 = (Returns x, s2)" and "\<not> ns_closed n"
  shows "ns_outcome E (ns_ino n) f s (Do E tid n f s)"
proof (cases rule: GetNS_cases [of E "getCurrentThreadNetNSPath E tid" s])
  case (err e w)
  with assms(2) show ?thesis
    by (simp add: Do_def errorIfClosed_def go_bind_simps go_prim_simps ns_outcome.not_run [OF refl])
next
  case (ok j w w0)
  define h where "h = \<lparr>ns_name = getCurrentThreadNetNSPath E tid, ns_ino = j, ns_mounted = False, ns_closed = False\<rparr>"
  define body where "body = go_bind (call (go_thread E)) (\<lambda>t. go_wait (containedCall E t n f))"
  obtain t v where th: "go_thread E w = (t, v)" by (cases "go_thread E w")
  have inner: "ns_outcome E (ns_ino n) f s (containedCall E t n f (s\<lparr>world := v\<rparr>))"
    by (rule ns_outcome_pre [OF ns_outcome_containedCall [OF assms]])
  then obtain x s2 where c: "containedCall E t n f (s\<lparr>world := v\<rparr>) = (Returns x, s2)"
    using ns_outcome_Returns by blast
  with th have "body (s\<lparr>world := w\<rparr>) = containedCall E t n f (s\<lparr>world := v\<rparr>)"
    by (simp add: body_def go_bind_call go_wait_simps)
  with inner have "ns_outcome E (ns_ino n) f s (go_defer (Close E h) body (s\<lparr>world := w\<rparr>))"
    by (rule ns_outcome_defer_Close)
  with ok assms(2) show ?thesis
    by (simp add: Do_def errorIfClosed_def go_bind_simps body_def h_def)
qed

text \<open>
  A call of \<open>WithNetNSPath\<close> either fails to open the path, or it ends in one of the two ways
  above for the namespace it opened.
\<close>

lemma WithNetNSPath_outcome:
  assumes ret: "\<And>t s1. \<exists>x s2. f t s1 = (Returns x, s2)"
  obtains (not_open) e w where "WithNetNSPath E tid p f s = (Returns (Some e), s\<lparr>world := w\<rparr>)"
  | (opened) i w0 where "fst (os_Open E (thread_ns s) p w0) = Inr i"
      and "ns_outcome E i f s (WithNetNSPath E tid p f s)"
proof (cases rule: GetNS_cases [of E p s])
  case (err e w)
  then show thesis
    by (intro not_open [of e w]) (simp add: WithNetNSPath_def go_bind_simps go_prim_simps)
next
  case (ok i w w0)
  let ?n = "\<lparr>ns_name = p, ns_ino = i, ns_mounted = False, ns_closed = False\<rparr>"
  have "ns_outcome E (ns_ino ?n) f s (Do E tid ?n f (s\<lparr>world := w\<rparr>))"
    by (rule ns_outcome_pre [OF ns_outcome_Do [OF ret]]) simp
  then have "ns_outcome E (ns_ino ?n) f s (go_defer (Close E ?n) (Do E tid ?n f) (s\<lparr>world := w\<rparr>))"
    by (rule ns_outcome_defer_Close) simp
  with ok show thesis
    by (intro opened [OF ok(2)]) (simp add: WithNetNSPath_def go_bind_simps)
qed

text \<open>Every thread is back in its namespace: what \<open>/proc\<close> shows for a thread is the namespace
  it is in, and the kernel lets a thread return to a namespace some thread was in.\<close>

lemma ns_outcome_restores:
  assumes "ns_outcome E i f s (r, s')"
    and proc: "\<And>tbl t w j. fst (os_Open E tbl (getCurrentThreadNetNSPath E t) w) = Inr j \<Longrightarrow> j = tbl t"
    and swb: "\<And>t w. fst (sys_setns E (thread_ns s t) w) = None"
    and clos: "\<And>t. keeps thread_ns (f t)"
  shows "thread_ns s' = thread_ns s"
  using assms(1)
proof (cases rule: ns_outcome.cases)
  case (not_run w e)
  then show ?thesis by simp
next
  case (ran t w0 j s1 w1 x s2 tbl w2)
  from ran(2) proc have j: "j = thread_ns s t" by blast
  from ran clos have "thread_ns s2 = (thread_ns s)(t := i)"
    by (metis keepsD kernel.select_convs(2) kernel.surjective kernel.update_convs(2))
  with ran j swb show ?thesis by auto
qed

section \<open>Calls that must run the closure\<close>

text \<open>Everything a call does before it runs the closure works: the files of the namespaces involved can be opened,
  are files of the \<open>nsfs\<close>, and the kernel lets threads switch.\<close>

definition opens :: "'w env \<Rightarrow> string \<Rightarrow> bool" where
  "opens E p \<longleftrightarrow> (\<forall>w. fst (os_Statfs E p w) = Inr NSFS_MAGIC) \<and> (\<forall>tbl w. \<exists>i. fst (os_Open E tbl p w) = Inr i)"

definition ns_works :: "'w env \<Rightarrow> nat \<Rightarrow> string \<Rightarrow> bool" where
  "ns_works E tid p \<longleftrightarrow> opens E p \<and> opens E (getCurrentThreadNetNSPath E tid)
     \<and> (\<forall>w. opens E (getCurrentThreadNetNSPath E (fst (go_thread E w)))) \<and> (\<forall>i w. fst (sys_setns E i w) = None)"

lemma GetNS_opens:
  assumes "opens E p"
  obtains i w where "GetNS E p s = (Returns (Inr \<lparr>ns_name = p, ns_ino = i, ns_mounted = False, ns_closed = False\<rparr>), s\<lparr>world := w\<rparr>)"
proof -
  obtain w where st: "os_Statfs E p (world s) = (Inr NSFS_MAGIC, w)"
    using assms unfolding opens_def by (metis prod.collapse)
  obtain i v where op: "os_Open E (thread_ns s) p w = (Inr i, v)"
    using assms unfolding opens_def by (metis prod.collapse)
  from st op show thesis
    by (intro that [of i v]) (simp add: GetNS_def IsNSorErr_def NSFS_MAGIC_def PROCFS_MAGIC_def go_run)
qed

text \<open>A call that runs the closure: it is given a thread in the namespace \<open>i\<close>, and the call returns what it returns.\<close>

definition runs_in :: "nat \<Rightarrow> (nat \<Rightarrow> (('w, 'z) kernel_scheme, error option) go) \<Rightarrow> ('w, 'z) kernel_scheme
    \<Rightarrow> error option outcome \<times> ('w, 'z) kernel_scheme \<Rightarrow> bool" where
  "runs_in i f s rs \<longleftrightarrow> (\<exists>t v x sb w tbl. f t (s\<lparr>world := v, thread_ns := (thread_ns s)(t := i)\<rparr>) = (Returns x, sb)
     \<and> rs = (Returns x, sb\<lparr>world := w, thread_ns := tbl\<rparr>))"

lemma runs_in_pre: "runs_in i f (s\<lparr>world := w\<rparr>) rs \<Longrightarrow> runs_in i f s rs"
  by (simp add: runs_in_def)

lemma runs_in_defer_Close:
  assumes "runs_in i f s (m s1)"
  shows "runs_in i f s (go_defer (Close E n) m s1)"
proof -
  from assms obtain t v x sb w tbl where
    run: "f t (s\<lparr>world := v, thread_ns := (thread_ns s)(t := i)\<rparr>) = (Returns x, sb)" and
    m: "m s1 = (Returns x, sb\<lparr>world := w, thread_ns := tbl\<rparr>)" unfolding runs_in_def by blast
  from go_defer_Close [where m = m, OF m, of E n]
  obtain u where "go_defer (Close E n) m s1 = (Returns x, sb\<lparr>world := w, thread_ns := tbl, world := u\<rparr>)" ..
  then have "go_defer (Close E n) m s1 = (Returns x, sb\<lparr>world := u, thread_ns := tbl\<rparr>)" by simp
  with run show ?thesis unfolding runs_in_def by blast
qed

lemma containedCall_runs:
  assumes ret: "\<And>t s1. \<exists>x s2. f t s1 = (Returns x, s2)" and "\<not> ns_closed n"
    and "opens E (getCurrentThreadNetNSPath E t)" and "\<And>i w. fst (sys_setns E i w) = None"
  shows "runs_in (ns_ino n) f s (containedCall E t n f s)"
proof -
  obtain j w where G: "GetNS E (getCurrentThreadNetNSPath E t) s =
      (Returns (Inr \<lparr>ns_name = getCurrentThreadNetNSPath E t, ns_ino = j, ns_mounted = False, ns_closed = False\<rparr>), s\<lparr>world := w\<rparr>)"
    by (rule GetNS_opens [OF assms(3)])
  define h where "h = \<lparr>ns_name = getCurrentThreadNetNSPath E t, ns_ino = j, ns_mounted = False, ns_closed = False\<rparr>"
  define body where "body = go_bind (Set E t n) (\<lambda>e. case e of
              Some err \<Rightarrow> go_return
                (Some (Errorf ''error switching to ns %v: %v'' [ArgS (ns_name n), ArgE err]))
            | None \<Rightarrow> go_defer (Set E t h) (f t))"
  have C: "containedCall E t n f s = go_defer (Close E h) body (s\<lparr>world := w\<rparr>)"
    using G [folded h_def] by (simp add: containedCall_def body_def go_bind_simps)
  obtain v where S: "Set E t n (s\<lparr>world := w\<rparr>) = (Returns None, s\<lparr>world := v, thread_ns := (thread_ns s)(t := ns_ino n)\<rparr>)"
    using assms(4) by (cases rule: Set_cases [OF assms(2), of E t "s\<lparr>world := w\<rparr>"]) auto
  let ?s1 = "s\<lparr>world := v, thread_ns := (thread_ns s)(t := ns_ino n)\<rparr>"
  obtain x s2 where run: "f t ?s1 = (Returns x, s2)" using ret by blast
  obtain r u tbl where swb: "Set E t h s2 = (Returns r, s2\<lparr>world := u, thread_ns := tbl\<rparr>)"
    by (rule Set_back [of h E t s2]) (auto simp: h_def)
  have "body (s\<lparr>world := w\<rparr>) = (Returns x, s2\<lparr>world := u, thread_ns := tbl\<rparr>)"
    using S run swb by (simp add: body_def go_bind_simps go_defer_simps go_seq_simps go_prim_simps)
  with run have "runs_in (ns_ino n) f s (body (s\<lparr>world := w\<rparr>))" unfolding runs_in_def by blast
  then show ?thesis unfolding C by (rule runs_in_defer_Close)
qed

text \<open>When everything works, the closure is run.\<close>

lemma WithNetNSPath_runs:
  assumes ret: "\<And>t s1. \<exists>x s2. f t s1 = (Returns x, s2)" and "ns_works E tid p"
  shows "\<exists>i. runs_in i f s (WithNetNSPath E tid p f s)"
proof -
  from assms(2) have works: "opens E p" "opens E (getCurrentThreadNetNSPath E tid)"
    "\<And>w. opens E (getCurrentThreadNetNSPath E (fst (go_thread E w)))" "\<And>i w. fst (sys_setns E i w) = None"
    by (simp_all add: ns_works_def)
  obtain i w where G: "GetNS E p s = (Returns (Inr \<lparr>ns_name = p, ns_ino = i, ns_mounted = False, ns_closed = False\<rparr>), s\<lparr>world := w\<rparr>)"
    by (rule GetNS_opens [OF works(1)])
  define n where "n = \<lparr>ns_name = p, ns_ino = i, ns_mounted = False, ns_closed = False\<rparr>"
  obtain j v where H: "GetNS E (getCurrentThreadNetNSPath E tid) (s\<lparr>world := w\<rparr>) =
      (Returns (Inr \<lparr>ns_name = getCurrentThreadNetNSPath E tid, ns_ino = j, ns_mounted = False, ns_closed = False\<rparr>), s\<lparr>world := v\<rparr>)"
    using GetNS_opens [OF works(2), of "s\<lparr>world := w\<rparr>"] by auto
  define h where "h = \<lparr>ns_name = getCurrentThreadNetNSPath E tid, ns_ino = j, ns_mounted = False, ns_closed = False\<rparr>"
  obtain t u where th: "go_thread E v = (t, u)" by (cases "go_thread E v")
  define body where "body = go_bind (call (go_thread E)) (\<lambda>t. go_wait (containedCall E t n f))"
  have "opens E (getCurrentThreadNetNSPath E t)" using works(3) [of v] th by simp
  from containedCall_runs [where f = f and n = n and s = "s\<lparr>world := u\<rparr>", OF ret _ this works(4)]
  have inner: "runs_in i f s (containedCall E t n f (s\<lparr>world := u\<rparr>))"
    by (auto simp: n_def intro: runs_in_pre)
  then obtain x sc where "containedCall E t n f (s\<lparr>world := u\<rparr>) = (Returns x, sc)" unfolding runs_in_def by blast
  with th have "body (s\<lparr>world := v\<rparr>) = containedCall E t n f (s\<lparr>world := u\<rparr>)"
    by (simp add: body_def go_bind_call go_wait_simps)
  with inner have "runs_in i f s (go_defer (Close E h) body (s\<lparr>world := v\<rparr>))"
    by (simp add: runs_in_defer_Close)
  with H have "runs_in i f s (Do E tid n f (s\<lparr>world := w\<rparr>))"
    by (simp add: Do_def errorIfClosed_def go_bind_simps body_def h_def n_def)
  then have "runs_in i f s (go_defer (Close E n) (Do E tid n f) (s\<lparr>world := w\<rparr>))"
    by (rule runs_in_defer_Close)
  with G show ?thesis by (intro exI [of _ i]) (simp add: WithNetNSPath_def go_bind_simps n_def)
qed

end
