(* ===== verification/Store.thy ===== *)
theory Store
  imports World
begin

text \<open>
  The container store (\<open>store.go\<close>): a map from container IDs to containers behind a mutex,
  shared by the Docker client, which writes it, and the reporter, which reads it.

  The second layer of the process state, \<open>Store\<close>, adds the mutex and the map. The mutex of
  package \<open>sync\<close> is not reentrant: locking it while the same goroutine holds it blocks
  forever. The locale \<open>container_store\<close> is what the two clients rely on; it is interpreted on
  the operations below.
\<close>

section \<open>Data and operations\<close>

datatype State = Created | Running | Stopped | Destroyed

record Container =
  State :: State
  PID :: int

record 'w Store = "'w kernel" +
  lock :: bool
  containers :: "string \<rightharpoonup> Container"

definition zero_container :: Container where
  "zero_container = \<lparr>State = Created, PID = 0\<rparr>"

definition mutex_Lock :: "(('w, 'z) Store_scheme, unit) go" where
  "mutex_Lock = go_bind (go_gets lock) (\<lambda>b.
     if b then go_block else go_modify (\<lambda>s. s\<lparr>lock := True\<rparr>))"

definition mutex_Unlock :: "(('w, 'z) Store_scheme, unit) go" where
  "mutex_Unlock = go_modify (\<lambda>s. s\<lparr>lock := False\<rparr>)"

text \<open>\<open>s.lock.Lock(); defer s.lock.Unlock()\<close> at the head of a method.\<close>

definition locked :: "(('w, 'z) Store_scheme, 'a) go \<Rightarrow> (('w, 'z) Store_scheme, 'a) go" where
  "locked m = go_seq mutex_Lock (go_defer mutex_Unlock m)"

definition NewStore :: "(('w, 'z) Store_scheme, unit) go" where
  "NewStore = go_modify (\<lambda>s. s\<lparr>lock := False, containers := Map.empty\<rparr>)"

definition Store_Container :: "string \<Rightarrow> (('w, 'z) Store_scheme, Container \<times> bool) go" where
  "Store_Container containerID = locked (go_gets (\<lambda>s.
     case containers s containerID of
       None \<Rightarrow> (zero_container, False)
     | Some container \<Rightarrow> (container, True)))"

definition SetContainer :: "string \<Rightarrow> Container \<Rightarrow> (('w, 'z) Store_scheme, unit) go" where
  "SetContainer containerID container = locked (go_modify (\<lambda>s.
     s\<lparr>containers := (containers s)(containerID \<mapsto> container)\<rparr>))"

definition DeleteContainer :: "string \<Rightarrow> (('w, 'z) Store_scheme, unit) go" where
  "DeleteContainer containerID = locked (go_modify (\<lambda>s.
     s\<lparr>containers := (containers s)(containerID := None)\<rparr>))"

text \<open>\<open>ForEach\<close> iterates over the map in an order \<open>ids\<close> of its keys that the runtime chooses;
  an entry that is gone when its turn comes is skipped, as the language has it.\<close>

definition ForEach ::
  "string list \<Rightarrow> (string \<Rightarrow> Container \<Rightarrow> (('w, 'z) Store_scheme, unit) go) \<Rightarrow> (('w, 'z) Store_scheme, unit) go" where
  "ForEach ids callback = locked (go_for (\<lambda>containerID.
     go_bind (go_gets (\<lambda>s. containers s containerID)) (\<lambda>c. case c of
        None \<Rightarrow> go_return ()
      | Some container \<Rightarrow> callback containerID container)) ids)"

section \<open>The interface of the store\<close>

text \<open>
  What a client sees: \<open>view\<close>, the map, and \<open>ready\<close>, that no goroutine holds the mutex, so
  that a call comes back. The derived lemmas are about sequences of updates.
\<close>

locale container_store =
  fixes view :: "'s \<Rightarrow> string \<rightharpoonup> Container"
    and ready :: "'s \<Rightarrow> bool"
    and get :: "string \<Rightarrow> ('s, Container \<times> bool) go"
    and put :: "string \<Rightarrow> Container \<Rightarrow> ('s, unit) go"
    and del :: "string \<Rightarrow> ('s, unit) go"
  assumes get_spec: "ready s \<Longrightarrow> get k s =
      (Returns (case view s k of None \<Rightarrow> (zero_container, False) | Some c \<Rightarrow> (c, True)), s)"
    and put_spec: "ready s \<Longrightarrow>
      \<exists>s'. put k c s = (Returns (), s') \<and> view s' = (view s)(k \<mapsto> c) \<and> ready s'"
    and del_spec: "ready s \<Longrightarrow>
      \<exists>s'. del k s = (Returns (), s') \<and> view s' = (view s)(k := None) \<and> ready s'"
begin

definition upd :: "string \<Rightarrow> Container option \<Rightarrow> ('s, unit) go" where
  "upd k v = (case v of None \<Rightarrow> del k | Some c \<Rightarrow> put k c)"

lemma upd_spec:
  "ready s \<Longrightarrow> \<exists>s'. upd k v s = (Returns (), s') \<and> view s' = (view s)(k := v) \<and> ready s'"
  by (cases v) (simp_all add: upd_def put_spec del_spec)

lemma get_after_put:
  assumes "ready s" and "put k c s = (r, s')"
  shows "r = Returns ()" and "get k s' = (Returns (c, True), s')"
    and "k' \<noteq> k \<Longrightarrow> fst (get k' s') = fst (get k' s)"
  using put_spec [OF assms(1), of k c] assms by (auto simp: get_spec)

lemma get_after_del:
  assumes "ready s" and "del k s = (r, s')"
  shows "r = Returns ()" and "get k s' = (Returns (zero_container, False), s')"
    and "k' \<noteq> k \<Longrightarrow> fst (get k' s') = fst (get k' s)"
  using del_spec [OF assms(1), of k] assms by (auto simp: get_spec)

lemma updates_spec:
  "ready s \<Longrightarrow> \<exists>s'. go_for (\<lambda>(k, v). upd k v) us s = (Returns (), s') \<and>
     view s' = fold (\<lambda>(k, v) m. m(k := v)) us (view s) \<and> ready s'"
proof (induction us arbitrary: s)
  case Nil
  then show ?case by (simp add: go_run)
next
  case (Cons u us)
  obtain k v where u: "u = (k, v)" by (cases u)
  obtain s1 where s1: "upd k v s = (Returns (), s1)" "view s1 = (view s)(k := v)" "ready s1"
    using upd_spec [OF Cons.prems] by blast
  with Cons.IH [OF s1(3)] u show ?case by (auto simp: go_run)
qed

end

section \<open>Running the operations\<close>

lemma lock_False_idem [simp]: "\<not> lock s \<Longrightarrow> s\<lparr>lock := False\<rparr> = s"
  by (cases s) simp

lemma locked_run:
  assumes "\<not> lock s"
  shows "locked m s = go_defer mutex_Unlock m (s\<lparr>lock := True\<rparr>)"
  using assms by (simp add: locked_def mutex_Lock_def go_run)

lemma locked_held: "lock s \<Longrightarrow> locked m s = (Blocks, s)"
  by (simp add: locked_def mutex_Lock_def go_run)

lemma Store_Container_run [go_run]:
  "\<not> lock s \<Longrightarrow> Store_Container k s =
     (Returns (case containers s k of None \<Rightarrow> (zero_container, False) | Some c \<Rightarrow> (c, True)), s)"
  by (simp add: Store_Container_def locked_run mutex_Unlock_def go_run)

lemma SetContainer_run [go_run]:
  "\<not> lock s \<Longrightarrow> SetContainer k c s = (Returns (), s\<lparr>containers := (containers s)(k \<mapsto> c)\<rparr>)"
  by (cases s) (simp add: SetContainer_def locked_run mutex_Unlock_def go_run)

lemma DeleteContainer_run [go_run]:
  "\<not> lock s \<Longrightarrow> DeleteContainer k s = (Returns (), s\<lparr>containers := (containers s)(k := None)\<rparr>)"
  by (cases s) (simp add: DeleteContainer_def locked_run mutex_Unlock_def go_run)

interpretation sto: container_store
  "containers :: ('w, 'z) Store_scheme \<Rightarrow> string \<rightharpoonup> Container" "\<lambda>s. \<not> lock s"
  Store_Container SetContainer DeleteContainer
  by unfold_locales (simp_all add: go_run)

lemma keeps_locked:
  assumes "\<And>s b. f (s\<lparr>lock := b\<rparr>) = f s" and "keeps f m"
  shows "keeps f (locked m)"
  unfolding locked_def mutex_Lock_def mutex_Unlock_def by (intro go_keeps assms)

lemma keeps_store [go_keeps]:
  assumes "\<And>s b. f (s\<lparr>lock := b\<rparr>) = f s"
  shows "keeps f (Store_Container k)"
    and "(\<And>s c. f (s\<lparr>containers := c\<rparr>) = f s) \<Longrightarrow> keeps f (SetContainer k c)"
    and "(\<And>s c. f (s\<lparr>containers := c\<rparr>) = f s) \<Longrightarrow> keeps f (DeleteContainer k)"
    and "(\<And>k c. keeps f (callback k c)) \<Longrightarrow> keeps f (ForEach ids callback)"
  unfolding Store_Container_def SetContainer_def DeleteContainer_def ForEach_def
  by (intro keeps_locked go_keeps assms; simp)+

text \<open>A critical section gives the mutex back when its body returns or panics, and leaves
  it as it found it when the body does not touch it.\<close>

lemma locked_unlocks:
  assumes "\<not> lock s" and "locked m s = (r, s')" and "\<forall>n. r \<noteq> Exits n" and "r \<noteq> Blocks"
  shows "\<not> lock s'"
  using assms
  by (cases "m (s\<lparr>lock := True\<rparr>)"; cases "fst (m (s\<lparr>lock := True\<rparr>))")
    (auto simp: locked_run go_run mutex_Unlock_def)

text \<open>The entries \<open>ForEach\<close> hands to its callback: the map does not change under it, because
  the mutex is held and no callback of this program writes the store.\<close>

definition entries :: "string list \<Rightarrow> (string \<rightharpoonup> Container) \<Rightarrow> (string \<times> Container) list" where
  "entries ids m = List.map_filter (\<lambda>k. map_option (Pair k) (m k)) ids"

lemma entries_simps [simp]:
  "entries [] m = []"
  "entries (k # ks) m = (case m k of None \<Rightarrow> entries ks m | Some c \<Rightarrow> (k, c) # entries ks m)"
  by (simp_all add: entries_def List.map_filter_def split: option.split)

lemma set_entries: "set (entries ids m) = {(k, c). k \<in> set ids \<and> m k = Some c}"
  by (induction ids) (auto split: option.splits)

lemma distinct_entries: "distinct ids \<Longrightarrow> distinct (map fst (entries ids m))"
  by (induction ids) (auto simp: set_entries split: option.splits)

lemma range_order_entries:
  "range_order ids m \<Longrightarrow> set (entries ids m) = {(k, c). m k = Some c} \<and> distinct (map fst (entries ids m))"
  by (auto simp: range_order_def set_entries distinct_entries)

lemma go_for_entries:
  assumes "\<And>k c. keeps containers (callback k c)"
  shows "containers s = m \<Longrightarrow>
    go_for (\<lambda>k. go_bind (go_gets (\<lambda>s. containers s k)) (\<lambda>c. case c of
        None \<Rightarrow> go_return () | Some c \<Rightarrow> callback k c)) ids s =
    go_for (\<lambda>(k, c). callback k c) (entries ids m) s"
proof (induction ids arbitrary: s)
  case Nil
  then show ?case by simp
next
  case (Cons k ks)
  show ?case
  proof (cases "m k")
    case None
    with Cons show ?thesis by (simp add: go_run)
  next
    case (Some c)
    obtain r s1 where run: "callback k c s = (r, s1)" by (cases "callback k c s")
    with assms have "containers s1 = containers s" by (rule keepsD)
    with Cons have "containers s1 = m" by simp
    with Cons.IH [OF this] Some run Cons.prems show ?thesis
      by (cases r) (simp_all add: go_run)
  qed
qed

lemma ForEach_run:
  assumes "\<not> lock s" and "\<And>k c. keeps containers (callback k c)"
  shows "ForEach ids callback s =
    go_defer mutex_Unlock (go_for (\<lambda>(k, c). callback k c) (entries ids (containers s))) (s\<lparr>lock := True\<rparr>)"
proof -
  have "containers (s\<lparr>lock := True\<rparr>) = containers s" by simp
  from go_for_entries [OF assms(2) this, where ids = ids] show ?thesis
    by (simp add: ForEach_def locked_run [OF assms(1)] go_defer_def)
qed

section \<open>Properties\<close>

text \<open>
  The store is a map. With the mutex free, \<open>SetContainer\<close> and \<open>DeleteContainer\<close> return,
  a later \<open>Container\<close> finds exactly what was stored last under the ID and nothing after a
  deletion, other IDs are unaffected, and the mutex is free again.
\<close>

lemma store_reads_last_write:
  assumes "\<not> lock s"
  shows "\<exists>s1 s2. SetContainer k c s = (Returns (), s1)
    \<and> DeleteContainer k s = (Returns (), s2)
    \<and> Store_Container k s1 = (Returns (c, True), s1)
    \<and> Store_Container k s2 = (Returns (zero_container, False), s2)
    \<and> (\<forall>k'. k' \<noteq> k \<longrightarrow> fst (Store_Container k' s1) = fst (Store_Container k' s)
         \<and> fst (Store_Container k' s2) = fst (Store_Container k' s))
    \<and> \<not> lock s1 \<and> \<not> lock s2"
proof -
  obtain s1 where 1: "SetContainer k c s = (Returns (), s1)" "\<not> lock s1"
    using sto.put_spec [OF assms, of k c] by blast
  obtain s2 where 2: "DeleteContainer k s = (Returns (), s2)" "\<not> lock s2"
    using sto.del_spec [OF assms, of k] by blast
  note put = sto.get_after_put [OF assms 1(1)]
  note del = sto.get_after_del [OF assms 2(1)]
  from 1 2 put(2,3) del(2,3) show ?thesis by blast
qed

definition demo_store :: "unit Store" where
  "demo_store = \<lparr>world = (), thread_ns = (\<lambda>_. 0), trace = [], lock = False,
     containers = [''c1'' \<mapsto> \<lparr>State = Running, PID = 42\<rparr>]\<rparr>"

lemma store_reads_last_write_witness:
  "\<exists>s1 s2. SetContainer ''c2'' \<lparr>State = Stopped, PID = 7\<rparr> demo_store = (Returns (), s1)
    \<and> DeleteContainer ''c2'' demo_store = (Returns (), s2)
    \<and> Store_Container ''c2'' s1 = (Returns (\<lparr>State = Stopped, PID = 7\<rparr>, True), s1)
    \<and> Store_Container ''c2'' s2 = (Returns (zero_container, False), s2)"
proof -
  have "\<not> lock demo_store" by (simp add: demo_store_def)
  from store_reads_last_write [OF this, of "''c2''" "\<lparr>State = Stopped, PID = 7\<rparr>"]
  show ?thesis by blast
qed

text \<open>
  \<open>ForEach\<close> gives the mutex back. Started with the mutex free, it holds the mutex while
  the callback runs and releases it when the callback returns for every entry and also when
  the callback panics; a callback that itself calls the store blocks forever.
\<close>

lemma ForEach_mutex:
  assumes "\<not> lock s"
  shows "(\<forall>r s'. ForEach ids callback s = (r, s') \<and> ((\<exists>x. r = Returns x) \<or> (\<exists>p. r = Panics p)) \<longrightarrow> \<not> lock s')
    \<and> (containers s k = Some c \<longrightarrow> fst (ForEach (k # ids) SetContainer s) = Blocks)"
proof (intro conjI allI impI)
  fix r s'
  assume a: "ForEach ids callback s = (r, s') \<and> ((\<exists>x. r = Returns x) \<or> (\<exists>p. r = Panics p))"
  then have "ForEach ids callback s = (r, s')" ..
  from locked_unlocks [OF assms this [unfolded ForEach_def]] a show "\<not> lock s'" by auto
next
  assume "containers s k = Some c"
  then show "fst (ForEach (k # ids) SetContainer s) = Blocks"
    by (simp add: ForEach_def locked_run [OF assms] SetContainer_def locked_held go_run)
qed

lemma ForEach_mutex_witness:
  "fst (ForEach [''c1''] SetContainer demo_store) = Blocks
   \<and> fst (ForEach [''c1''] (\<lambda>_ _. go_panic NilDeref) demo_store) = Panics NilDeref
   \<and> \<not> lock (snd (ForEach [''c1''] (\<lambda>_ _. go_panic NilDeref) demo_store))"
proof -
  have free: "\<not> lock demo_store" by (simp add: demo_store_def)
  have c1: "containers demo_store ''c1'' = Some \<lparr>State = Running, PID = 42\<rparr>"
    by (simp add: demo_store_def)
  have run: "ForEach [''c1''] (\<lambda>_ _. go_panic NilDeref) demo_store =
      (Panics NilDeref, demo_store)"
    using c1 free by (simp add: ForEach_def locked_run mutex_Unlock_def go_run)
  from ForEach_mutex [OF free, of "[''c1'']" "\<lambda>_ _. go_panic NilDeref" "''c1''"] run c1
    ForEach_mutex [OF free, of "[]" "\<lambda>_ _. go_panic NilDeref" "''c1''"]
  show ?thesis by simp
qed

end
