(* ===== verification/Demo_World.thy ===== *)
theory Demo_World
  imports World
begin

text \<open>
  Concrete environments for the witnesses: a machine whose calls all succeed, with a Docker
  daemon given by its list of containers and its answers to inspections. The world has no
  state of its own.
\<close>

definition demo_env :: "string list \<Rightarrow> (string \<Rightarrow> error + docker_container) \<Rightarrow> unit env" where
  "demo_env ids inspect =
     \<lparr>os_Getpid = 100,
      go_thread = (\<lambda>w. (3, w)),
      os_Statfs = (\<lambda>p w. (Inr 0x6e736673, w)),
      os_Open = (\<lambda>tbl p w.
        (if p = ''/proc/100/task/1/ns/net'' then Inr (tbl 1)
         else if p = ''/proc/100/task/3/ns/net'' then Inr (tbl 3)
         else if p = ''/proc/42/ns/net'' then Inr 7
         else Inl (NotExist p), w)),
      os_Close = (\<lambda>p w. (None, w)),
      sys_setns = (\<lambda>i w. (None, w)),
      os_Readlink = (\<lambda>p w.
        (if p = ''/proc/42/ns/net'' then Inr ''net:[4026531956]'' else Inl (NotExist p), w)),
      exec_Command = (\<lambda>n cmd w. (None, w)),
      time_Now = (\<lambda>w. (1500000000000000000, w)),
      rand_Intn = (\<lambda>seed n w. (n div 2, w)),
      docker_NewClient = (\<lambda>p w. (None, w)),
      docker_ListContainers = (\<lambda>w. (Inr ids, w)),
      docker_InspectContainer = (\<lambda>k w. (inspect k, w)),
      docker_AddEventListener = (\<lambda>w. (None, w)),
      docker_RemoveEventListener = (\<lambda>w. (None, w)),
      docker_receive = (\<lambda>w. (ChanClosed, w)),
      httptest_listen = (\<lambda>w. (True, w)),
      influx_NewClient = (\<lambda>u w. (None, w)),
      influx_Query = (\<lambda>d c w. (Inl (ExtErr ''connection refused''), w)),
      sys_Unmount = (\<lambda>p w. (None, w)),
      os_RemoveAll = (\<lambda>p w. (None, w)),
      os_MkdirAll = (\<lambda>p w. (None, w)),
      net_Listen = (\<lambda>p w. (None, w)),
      local_offset = (\<lambda>t. 0),
      unicode_IsPrint = (\<lambda>r. False)\<rparr>"

lemma demo_env_simps [simp]:
  "os_Getpid (demo_env ids D) = 100"
  "go_thread (demo_env ids D) w = (3, w)"
  "os_Statfs (demo_env ids D) p w = (Inr 0x6e736673, w)"
  "os_Open (demo_env ids D) tbl p w =
     (if p = ''/proc/100/task/1/ns/net'' then Inr (tbl 1)
      else if p = ''/proc/100/task/3/ns/net'' then Inr (tbl 3)
      else if p = ''/proc/42/ns/net'' then Inr 7
      else Inl (NotExist p), w)"
  "os_Close (demo_env ids D) p w = (None, w)"
  "sys_setns (demo_env ids D) i w = (None, w)"
  "os_Readlink (demo_env ids D) p w =
     (if p = ''/proc/42/ns/net'' then Inr ''net:[4026531956]'' else Inl (NotExist p), w)"
  "exec_Command (demo_env ids D) n cmd w = (None, w)"
  "time_Now (demo_env ids D) w = (1500000000000000000, w)"
  "rand_Intn (demo_env ids D) seed m w = (m div 2, w)"
  "docker_NewClient (demo_env ids D) p w = (None, w)"
  "docker_ListContainers (demo_env ids D) w = (Inr ids, w)"
  "docker_InspectContainer (demo_env ids D) k w = (D k, w)"
  "docker_AddEventListener (demo_env ids D) w = (None, w)"
  "docker_RemoveEventListener (demo_env ids D) w = (None, w)"
  "docker_receive (demo_env ids D) w = (ChanClosed, w)"
  "httptest_listen (demo_env ids D) w = (True, w)"
  "influx_NewClient (demo_env ids D) u w = (None, w)"
  "influx_Query (demo_env ids D) d c w = (Inl (ExtErr ''connection refused''), w)"
  "os_RemoveAll (demo_env ids D) p w = (None, w)"
  "os_MkdirAll (demo_env ids D) p w = (None, w)"
  "net_Listen (demo_env ids D) p w = (None, w)"
  "local_offset (demo_env ids D) t = 0"
  by (simp_all add: demo_env_def)

definition demo_state :: "bool \<Rightarrow> bool \<Rightarrow> int \<Rightarrow> docker_state" where
  "demo_state running paused pid =
     \<lparr>ds_Running = running, ds_Paused = paused, ds_Restarting = False, ds_OOMKilled = False,
      ds_Dead = False, ds_Pid = pid\<rparr>"

text \<open>Three containers: one running, one paused, one that has exited; every other ID is
  unknown to the daemon.\<close>

definition demo_inspect :: "string \<Rightarrow> error + docker_container" where
  "demo_inspect k =
     (if k = ''c1'' then Inr \<lparr>dc_Name = ''/k8s_user_user-4684-ktrt4_default_uid_0'',
        dc_State = demo_state True False 42\<rparr>
      else if k = ''c2'' then Inr \<lparr>dc_Name = ''/web'', dc_State = demo_state True True 43\<rparr>
      else if k = ''c3'' then Inr \<lparr>dc_Name = ''/old'', dc_State = demo_state False False 0\<rparr>
      else Inl (NoSuchContainer k))"

end
