(* ===== verification/Docker.thy ===== *)
theory Docker
  imports Store Demo_World
begin

text \<open>
  The Docker client (\<open>docker.go\<close>): a goroutine that subscribes to the daemon's events, reads
  the list of containers once, and then keeps the store up to date event by event; when the
  event channel is closed it unsubscribes, sleeps for a second and starts over.

  A Go call that returns a pointer and an error is a pair of options. The endless loop of
  \<open>Start\<close> is a machine with one step per call to the daemon. The properties are about single
  events, about sequences of events (a refinement of the life cycle of a container), about
  the initial synchronisation, and about what the store holds in every state.
\<close>

section \<open>Operations\<close>

definition getContainer ::
  "'w env \<Rightarrow> string \<Rightarrow> (('w, 'z) kernel_scheme, docker_container option \<times> error option) go" where
  "getContainer E containerID =
     go_bind (call (docker_InspectContainer E containerID)) (\<lambda>r. go_return (case r of
        Inl err \<Rightarrow> (case err of NoSuchContainer _ \<Rightarrow> (None, None) | _ \<Rightarrow> (None, Some err))
      | Inr dockerContainer \<Rightarrow> (Some dockerContainer, None)))"

definition getContainerState ::
  "'w env \<Rightarrow> string \<Rightarrow> (('w, 'z) kernel_scheme, docker_state option \<times> error option) go" where
  "getContainerState E containerID =
     go_bind (getContainer E containerID) (\<lambda>(dockerContainer, err). go_return
       (case dockerContainer of None \<Rightarrow> (None, err) | Some c \<Rightarrow> (Some (dc_State c), None)))"

definition getContainerPID ::
  "'w env \<Rightarrow> string \<Rightarrow> (('w, 'z) kernel_scheme, int \<times> error option) go" where
  "getContainerPID E containerID =
     go_bind (getContainerState E containerID) (\<lambda>(containerState, err). go_return
       (case containerState of None \<Rightarrow> (0, err) | Some st \<Rightarrow> (ds_Pid st, None)))"

definition updateContainer :: "string \<Rightarrow> State \<Rightarrow> int \<Rightarrow> (('w, 'z) Store_scheme, unit) go" where
  "updateContainer containerID state pid =
     (if state = Destroyed then DeleteContainer containerID
      else SetContainer containerID \<lparr>State = state, PID = pid\<rparr>)"

text \<open>The \<open>switch\<close> of \<open>handleEvent\<close>; \<open>None\<close> is its \<open>default\<close>.\<close>

definition event_state :: "string \<Rightarrow> State option" where
  "event_state status =
     (if status = ''create'' then Some Created
      else if status = ''destroy'' then Some Destroyed
      else if status = ''start'' \<or> status = ''unpause'' then Some Running
      else if status = ''die'' \<or> status = ''pause'' then Some Stopped
      else None)"

definition handleEvent :: "'w env \<Rightarrow> APIEvents \<Rightarrow> (('w, 'z) Store_scheme, unit) go" where
  "handleEvent E event = (case event_state (ev_Status event) of
      None \<Rightarrow> go_return ()
    | Some state \<Rightarrow> go_bind (getContainerPID E (ev_ID event)) (\<lambda>(pid, err). case err of
          Some _ \<Rightarrow> go_return ()
        | None \<Rightarrow> updateContainer (ev_ID event) state pid))"

text \<open>The \<open>switch\<close> of \<open>getContainers\<close>.\<close>

definition inspected_state :: "docker_state \<Rightarrow> State" where
  "inspected_state st =
     (if ds_Dead st \<or> ds_Paused st \<or> ds_Restarting st \<or> ds_OOMKilled st then Stopped
      else if ds_Running st then Running
      else Destroyed)"

text \<open>The body of its loop: an error is logged and the container skipped; a container that is
  gone gives neither an error nor a state, and reading the nil pointer's fields panics.\<close>

definition sync_container :: "'w env \<Rightarrow> string \<Rightarrow> (('w, 'z) Store_scheme, unit) go" where
  "sync_container E containerID =
     go_bind (getContainerState E containerID) (\<lambda>(containerState, err). case err of
        Some _ \<Rightarrow> go_return ()
      | None \<Rightarrow> (case containerState of
            None \<Rightarrow> go_panic NilDeref
          | Some st \<Rightarrow> updateContainer containerID (inspected_state st) (ds_Pid st)))"

definition getContainers :: "'w env \<Rightarrow> (('w, 'z) Store_scheme, error option) go" where
  "getContainers E = go_bind (call (docker_ListContainers E)) (\<lambda>r. case r of
      Inl err \<Rightarrow> go_return (Some err)
    | Inr ids \<Rightarrow> go_seq (go_for (sync_container E) ids) (go_return None))"

definition NewDockerClient :: "'w env \<Rightarrow> (('w, 'z) kernel_scheme, error option) go" where
  "NewDockerClient E =
     go_bind (call (docker_NewClient E ''unix:///var/run/docker.sock'')) (\<lambda>r. go_return
       (case r of None \<Rightarrow> None
        | Some err \<Rightarrow> Some (Errorf ''failed to connect to docker daemon: %v'' [ArgE err])))"

text \<open>
  The loop of \<open>Start\<close> as a machine. \<open>Subscribe\<close> is the call of \<open>AddEventListener\<close>, \<open>Sync\<close> that
  of \<open>getContainers\<close>, \<open>Listen\<close> one turn of the inner loop, \<open>Unsubscribe\<close> the deferred call and
  \<open>Sleeping\<close> the pause before the next turn of the outer loop.
\<close>

datatype dc_pc = Subscribe | Sync | Listen | Unsubscribe | Sleeping

fun Start_step :: "'w env \<Rightarrow> dc_pc \<Rightarrow> (('w, 'z) Store_scheme, dc_pc) go" where
  "Start_step E Subscribe = go_bind (call (docker_AddEventListener E)) (\<lambda>e. go_return
     (case e of Some _ \<Rightarrow> Sleeping | None \<Rightarrow> Sync))"
| "Start_step E Sync = go_bind (getContainers E) (\<lambda>e. go_return
     (case e of Some _ \<Rightarrow> Unsubscribe | None \<Rightarrow> Listen))"
| "Start_step E Listen = go_bind (call (docker_receive E)) (\<lambda>m. case m of
     ChanClosed \<Rightarrow> go_return Unsubscribe
   | Received event \<Rightarrow> go_seq (handleEvent E event) (go_return Listen))"
| "Start_step E Unsubscribe = go_bind (call (docker_RemoveEventListener E)) (\<lambda>_. go_return Sleeping)"
| "Start_step E Sleeping = go_return Subscribe"

section \<open>Running the operations\<close>

lemma keeps_inspect [go_keeps]:
  assumes "\<And>s w. f (s\<lparr>world := w\<rparr>) = f s"
  shows "keeps f (getContainer E k)" "keeps f (getContainerState E k)" "keeps f (getContainerPID E k)"
    "keeps f (NewDockerClient E)"
  unfolding getContainerPID_def getContainerState_def getContainer_def NewDockerClient_def
  by (intro go_keeps assms)+

lemma updateContainer_upd:
  "updateContainer k st pid =
     sto.upd k (if st = Destroyed then None else Some \<lparr>State = st, PID = pid\<rparr>)"
  by (simp add: updateContainer_def sto.upd_def)

lemma updateContainer_run [go_run]:
  "\<not> lock s \<Longrightarrow> updateContainer k st pid s =
     (Returns (), s\<lparr>containers := (containers s)
        (k := if st = Destroyed then None else Some \<lparr>State = st, PID = pid\<rparr>)\<rparr>)"
  by (simp add: updateContainer_def go_run)

text \<open>What one inspection of a container tells the client: \<open>Inl\<close> an error that is logged,
  \<open>Inr None\<close> that the container is gone, \<open>Inr (Some st)\<close> its state.\<close>

definition inspection :: "'w env \<Rightarrow> string \<Rightarrow> 'w \<Rightarrow> error + docker_state option" where
  "inspection E k w = (case fst (docker_InspectContainer E k w) of
      Inl err \<Rightarrow> (case err of NoSuchContainer _ \<Rightarrow> Inr None | _ \<Rightarrow> Inl err)
    | Inr c \<Rightarrow> Inr (Some (dc_State c)))"

lemma getContainerState_run [go_run]:
  "getContainerState E k s =
     (Returns (case inspection E k (world s) of Inl err \<Rightarrow> (None, Some err) | Inr st \<Rightarrow> (st, None)),
      s\<lparr>world := snd (docker_InspectContainer E k (world s))\<rparr>)"
  by (simp add: getContainerState_def getContainer_def inspection_def go_run
      split: sum.split error.split)

lemma getContainerPID_run [go_run]:
  "getContainerPID E k s =
     (Returns (case inspection E k (world s) of
         Inl err \<Rightarrow> (0, Some err)
       | Inr st \<Rightarrow> (case st of None \<Rightarrow> 0 | Some st \<Rightarrow> ds_Pid st, None)),
      s\<lparr>world := snd (docker_InspectContainer E k (world s))\<rparr>)"
  by (simp add: getContainerPID_def go_run split: sum.split option.split)

lemma handleEvent_run:
  assumes "\<not> lock s"
  shows "handleEvent E ev s = (Returns (),
    (case event_state (ev_Status ev) of
       None \<Rightarrow> s
     | Some st \<Rightarrow>
         (let s' = s\<lparr>world := snd (docker_InspectContainer E (ev_ID ev) (world s))\<rparr> in
          case inspection E (ev_ID ev) (world s) of
            Inl err \<Rightarrow> s'
          | Inr d \<Rightarrow> s'\<lparr>containers := (containers s)(ev_ID ev :=
                if st = Destroyed then None
                else Some \<lparr>State = st, PID = (case d of None \<Rightarrow> 0 | Some x \<Rightarrow> ds_Pid x)\<rparr>)\<rparr>)))"
  using assms by (simp add: handleEvent_def go_run Let_def split: option.split sum.split)

lemma sync_container_run:
  assumes "\<not> lock s"
  shows "sync_container E k s =
    (let s' = s\<lparr>world := snd (docker_InspectContainer E k (world s))\<rparr> in
     case inspection E k (world s) of
       Inl err \<Rightarrow> (Returns (), s')
     | Inr None \<Rightarrow> (Panics NilDeref, s')
     | Inr (Some st) \<Rightarrow> (Returns (), s'\<lparr>containers := (containers s)(k :=
          if inspected_state st = Destroyed then None
          else Some \<lparr>State = inspected_state st, PID = ds_Pid st\<rparr>)\<rparr>))"
  using assms by (simp add: sync_container_def go_run Let_def split: option.split sum.split)

lemma keeps_docker [go_keeps]:
  assumes "\<And>s w. f (s\<lparr>world := w\<rparr>) = f s" and "\<And>s b. f (s\<lparr>lock := b\<rparr>) = f s"
    and "\<And>s c. f (s\<lparr>containers := c\<rparr>) = f s"
  shows "keeps f (updateContainer k st pid)" "keeps f (handleEvent E ev)" "keeps f (sync_container E k)"
    "keeps f (getContainers E)"
  unfolding updateContainer_def handleEvent_def sync_container_def getContainers_def
  by (intro go_keeps assms)+

lemma keeps_Start_step [go_keeps]:
  assumes "\<And>s w. f (s\<lparr>world := w\<rparr>) = f s" and "\<And>s b. f (s\<lparr>lock := b\<rparr>) = f s"
    and "\<And>s c. f (s\<lparr>containers := c\<rparr>) = f s"
  shows "keeps f (Start_step E pc)"
proof (cases pc)
  case Listen
  have "keeps f (case m of ChanClosed \<Rightarrow> go_return Unsubscribe
      | Received ev \<Rightarrow> go_seq (handleEvent E ev) (go_return Listen))" for m
    by (cases m) (simp_all add: go_keeps assms)
  with Listen show ?thesis by (auto intro: go_keeps assms)
qed (auto intro: go_keeps assms)

section \<open>What the store holds\<close>

text \<open>In every state between two calls the mutex is free, the store holds finitely many
  containers, and none of them is in the state \<open>Destroyed\<close>: such a container is deleted
  instead.\<close>

definition store_ok :: "('w, 'z) Store_scheme \<Rightarrow> bool" where
  "store_ok s \<longleftrightarrow> \<not> lock s \<and> finite (dom (containers s)) \<and> (\<forall>k c. containers s k = Some c \<longrightarrow> State c \<noteq> Destroyed)"

lemma store_ok_free [simp]: "store_ok s \<Longrightarrow> \<not> lock s"
  by (simp add: store_ok_def)

lemma store_ok_world [simp]: "store_ok (s\<lparr>world := w\<rparr>) = store_ok s"
  by (simp add: store_ok_def)

text \<open>A call that keeps the invariant and returns or panics with the given panics only.\<close>

fun ends_with :: "(go_panic \<Rightarrow> bool) \<Rightarrow> 'a outcome \<Rightarrow> bool" where
  "ends_with P (Returns x) = True"
| "ends_with P (Panics p) = P p"
| "ends_with P (Exits n) = False"
| "ends_with P Blocks = False"

definition store_safe :: "(go_panic \<Rightarrow> bool) \<Rightarrow> (('w, 'z) Store_scheme, 'a) go \<Rightarrow> bool" where
  "store_safe P m \<longleftrightarrow> (\<forall>s. store_ok s \<longrightarrow> store_ok (snd (m s)) \<and> ends_with P (fst (m s)))"

lemma store_safe_bind:
  fixes m :: "(('w, 'z) Store_scheme, 'a) go"
  assumes "store_safe P m" and "\<And>x. store_safe P (g x)"
  shows "store_safe P (go_bind m g)"
  unfolding store_safe_def
proof (intro allI impI)
  fix s :: "('w, 'z) Store_scheme"
  assume ok: "store_ok s"
  obtain q s1 where m: "m s = (q, s1)" by (cases "m s")
  with assms(1) ok have "store_ok s1 \<and> ends_with P q"
    unfolding store_safe_def by (metis fst_conv snd_conv)
  with m assms(2) show "store_ok (snd (go_bind m g s)) \<and> ends_with P (fst (go_bind m g s))"
    by (cases q) (simp_all add: go_bind_def store_safe_def)
qed

lemma store_safeD:
  "store_safe P m \<Longrightarrow> store_ok s \<Longrightarrow> store_ok (snd (m s)) \<and> ends_with P (fst (m s))"
  by (simp add: store_safe_def)

lemma store_safe_return: "store_safe P (go_return x)"
  by (auto simp: store_safe_def go_run)

lemma store_safe_call: "store_safe P (call c)"
  by (auto simp: store_safe_def go_run)

lemma store_safe_seq: "store_safe P m \<Longrightarrow> store_safe P n \<Longrightarrow> store_safe P (go_seq m n)"
  unfolding go_seq_def by (rule store_safe_bind)

lemma store_safe_for: "(\<And>x. store_safe P (g x)) \<Longrightarrow> store_safe P (go_for g xs)"
  by (induction xs) (simp_all add: store_safe_return store_safe_seq)

lemma store_safe_handleEvent: "store_safe P (handleEvent E ev)"
  by (auto simp: store_safe_def handleEvent_run Let_def store_ok_def split: option.splits sum.splits)

lemma store_safe_sync_container: "store_safe (\<lambda>p. p = NilDeref) (sync_container E k)"
  by (auto simp: store_safe_def sync_container_run Let_def store_ok_def split: option.splits sum.splits)

lemma store_safe_getContainers: "store_safe (\<lambda>p. p = NilDeref) (getContainers E)"
proof -
  have "store_safe (\<lambda>p. p = NilDeref) (case r of Inl err \<Rightarrow> go_return (Some err)
    | Inr ids \<Rightarrow> go_seq (go_for (sync_container E) ids) (go_return None))" for r
    by (cases r)
      (simp_all add: store_safe_return store_safe_seq store_safe_for store_safe_sync_container)
  then show ?thesis
    unfolding getContainers_def by (intro store_safe_bind store_safe_call)
qed

lemma store_safe_Start_step: "store_safe (\<lambda>p. pc = Sync \<and> p = NilDeref) (Start_step E pc)"
proof (cases pc)
  case Sync
  then show ?thesis
    using store_safe_getContainers [of E] by (auto intro: store_safe_bind store_safe_return)
next
  case Listen
  have "store_safe P (case m of ChanClosed \<Rightarrow> go_return Unsubscribe
      | Received ev \<Rightarrow> go_seq (handleEvent E ev) (go_return Listen))" for m P
    by (cases m) (simp_all add: store_safe_return store_safe_seq store_safe_handleEvent)
  with Listen show ?thesis by (auto intro: store_safe_bind store_safe_call)
qed (auto intro: store_safe_bind store_safe_call store_safe_return)

section \<open>Sequences of events\<close>

definition store_states :: "('w, 'z) Store_scheme \<Rightarrow> string \<rightharpoonup> State" where
  "store_states s = (\<lambda>k. map_option State (containers s k))"

text \<open>What each event says of its container, as the documentation of Docker has it: a container is made by
  \<open>create\<close>, its processes run after \<open>start\<close> and \<open>unpause\<close> until \<open>pause\<close> or \<open>die\<close>, and it is no more after
  \<open>destroy\<close> (the outer option: other events say nothing). This table is the specification; the code has its
  own \<open>switch\<close>, \<open>event_state\<close>.\<close>

definition announced :: "string \<rightharpoonup> State option" where
  "announced = map_of
     [(''create'', Some Created),
      (''start'', Some Running),
      (''unpause'', Some Running),
      (''pause'', Some Stopped),
      (''die'', Some Stopped),
      (''destroy'', None)]"

definition lifecycle :: "APIEvents \<Rightarrow> (string \<rightharpoonup> State) \<Rightarrow> (string \<rightharpoonup> State)" where
  "lifecycle ev m = (case announced (ev_Status ev) of None \<Rightarrow> m | Some st \<Rightarrow> m(ev_ID ev := st))"

text \<open>The \<open>switch\<close> implements the table; \<open>Destroyed\<close> is the code's word for a container that is no more.\<close>

lemma announced_event_state:
  "announced status = map_option (\<lambda>st. if st = Destroyed then None else Some st) (event_state status)"
  by (simp add: announced_def event_state_def)

lemma handleEvent_lifecycle:
  assumes "\<not> lock s"
    and "\<And>k w err. fst (docker_InspectContainer E k w) = Inl err \<Longrightarrow> \<exists>x. err = NoSuchContainer x"
  shows "\<exists>s'. handleEvent E ev s = (Returns (), s') \<and> \<not> lock s'
    \<and> store_states s' = lifecycle ev (store_states s)"
proof -
  have "\<exists>d. inspection E (ev_ID ev) (world s) = Inr d"
    using assms(2) [of "ev_ID ev" "world s"]
    by (auto simp: inspection_def split: sum.splits error.splits)
  with assms(1) show ?thesis
    by (auto simp: handleEvent_run lifecycle_def announced_event_state store_states_def Let_def split: option.splits)
qed

lemma handleEvents_lifecycle:
  assumes "\<And>k w err. fst (docker_InspectContainer E k w) = Inl err \<Longrightarrow> \<exists>x. err = NoSuchContainer x"
  shows "\<not> lock s \<Longrightarrow> \<exists>s'. go_for (handleEvent E) evs s = (Returns (), s') \<and> \<not> lock s'
    \<and> store_states s' = fold lifecycle evs (store_states s)"
proof (induction evs arbitrary: s)
  case Nil
  then show ?case by (simp add: go_run)
next
  case (Cons ev evs)
  obtain s1 where s1: "handleEvent E ev s = (Returns (), s1)" "\<not> lock s1"
      "store_states s1 = lifecycle ev (store_states s)"
    using handleEvent_lifecycle [where E = E and ev = ev, OF Cons.prems] assms by blast
  with Cons.IH [OF s1(2)] show ?case by (auto simp: go_run)
qed

text \<open>Only the last event of the table counts for a container.\<close>

definition relevant :: "string \<Rightarrow> APIEvents \<Rightarrow> bool" where
  "relevant k ev \<longleftrightarrow> ev_ID ev = k \<and> ev_Status ev \<in> dom announced"

definition state_after :: "APIEvents list \<Rightarrow> string \<Rightarrow> State option \<Rightarrow> State option" where
  "state_after evs k before =
     (case rev (filter (relevant k) evs) of
        [] \<Rightarrow> before
      | ev # _ \<Rightarrow> the (announced (ev_Status ev)))"

lemma fold_lifecycle: "fold lifecycle evs m k = state_after evs k (m k)"
proof (induction evs rule: rev_induct)
  case Nil
  then show ?case by (simp add: state_after_def)
next
  case (snoc ev evs)
  then show ?case
    by (auto simp: lifecycle_def state_after_def relevant_def dom_def split: option.splits)
qed

section \<open>The initial synchronisation\<close>

text \<open>What the store should hold for a container the daemon described: it is out of service when any of four
  flags of the daemon says so, whether or not its processes exist; else it runs, or is no more of interest.\<close>

definition out_of_service :: "docker_state \<Rightarrow> bool" where
  "out_of_service st \<longleftrightarrow> True \<in> {ds_Dead st, ds_Paused st, ds_Restarting st, ds_OOMKilled st}"

definition mirror :: "docker_container \<Rightarrow> Container option" where
  "mirror c = (let st = dc_State c in
     if out_of_service st then Some \<lparr>State = Stopped, PID = ds_Pid st\<rparr>
     else if ds_Running st then Some \<lparr>State = Running, PID = ds_Pid st\<rparr>
     else None)"

lemma mirror_inspected_state:
  "mirror c = (let st = inspected_state (dc_State c) in
     if st = Destroyed then None else Some \<lparr>State = st, PID = ds_Pid (dc_State c)\<rparr>)"
  by (auto simp: mirror_def out_of_service_def inspected_state_def Let_def)

text \<open>A daemon whose answers to inspections do not change: \<open>D\<close> gives them.\<close>

definition steady :: "'w env \<Rightarrow> (string \<Rightarrow> error + docker_container) \<Rightarrow> bool" where
  "steady E D \<longleftrightarrow> (\<forall>k w. fst (docker_InspectContainer E k w) = D k)"

definition gone :: "error + docker_container \<Rightarrow> bool" where
  "gone a \<longleftrightarrow> (\<exists>x. a = Inl (NoSuchContainer x))"

lemma inspection_steady:
  "steady E D \<Longrightarrow> inspection E k w = (case D k of
      Inl err \<Rightarrow> (case err of NoSuchContainer _ \<Rightarrow> Inr None | _ \<Rightarrow> Inl err)
    | Inr c \<Rightarrow> Inr (Some (dc_State c)))"
  by (simp add: steady_def inspection_def)

lemma sync_container_steady:
  assumes "steady E D" and "\<not> lock s" and "\<not> gone (D k)"
  shows "\<exists>s'. sync_container E k s = (Returns (), s') \<and> \<not> lock s'
    \<and> containers s' = (case D k of Inl _ \<Rightarrow> containers s | Inr c \<Rightarrow> (containers s)(k := mirror c))"
  using assms
  by (auto simp: sync_container_run inspection_steady mirror_inspected_state gone_def Let_def
      split: sum.splits error.splits)

lemma sync_container_gone:
  "steady E D \<Longrightarrow> \<not> lock s \<Longrightarrow> gone (D k) \<Longrightarrow> fst (sync_container E k s) = Panics NilDeref"
  by (auto simp: sync_container_run inspection_steady gone_def Let_def)

lemma sync_loop_steady:
  assumes "steady E D"
  shows "\<not> lock s \<Longrightarrow> \<forall>k \<in> set ids. \<not> gone (D k) \<Longrightarrow>
    \<exists>s'. go_for (sync_container E) ids s = (Returns (), s') \<and> \<not> lock s' \<and>
      (\<forall>k. containers s' k =
        (if k \<in> set ids then (case D k of Inl _ \<Rightarrow> containers s k | Inr c \<Rightarrow> mirror c)
         else containers s k))"
proof (induction ids arbitrary: s)
  case Nil
  then show ?case by (simp add: go_run)
next
  case (Cons i ids)
  obtain s1 where s1: "sync_container E i s = (Returns (), s1)" "\<not> lock s1"
      "containers s1 = (case D i of Inl _ \<Rightarrow> containers s | Inr c \<Rightarrow> (containers s)(i := mirror c))"
    using sync_container_steady [OF assms Cons.prems(1), of i] Cons.prems(2) by auto
  obtain s2 where s2: "go_for (sync_container E) ids s1 = (Returns (), s2)" "\<not> lock s2"
      "\<forall>k. containers s2 k = (if k \<in> set ids then (case D k of Inl _ \<Rightarrow> containers s1 k | Inr c \<Rightarrow> mirror c)
         else containers s1 k)"
    using Cons.IH [OF s1(2)] Cons.prems(2) by auto
  from s1(1) s2(1) have "go_for (sync_container E) (i # ids) s = (Returns (), s2)"
    by (simp add: go_run)
  with s2(2,3) s1(3) show ?case
    by (intro exI [of _ s2]) (auto split: sum.splits)
qed

lemma sync_loop_crash:
  assumes "steady E D"
  shows "\<not> lock s \<Longrightarrow> (\<exists>k \<in> set ids. gone (D k)) \<Longrightarrow>
    fst (go_for (sync_container E) ids s) = Panics NilDeref"
proof (induction ids arbitrary: s)
  case Nil
  then show ?case by simp
next
  case (Cons i ids)
  show ?case
  proof (cases "gone (D i)")
    case True
    from sync_container_gone [OF assms Cons.prems(1) True]
    obtain s1 where "sync_container E i s = (Panics NilDeref, s1)" by (metis prod.collapse)
    then show ?thesis by (simp add: go_run)
  next
    case False
    from sync_container_steady [OF assms Cons.prems(1) False]
    obtain s1 where "sync_container E i s = (Returns (), s1)" "\<not> lock s1" by blast
    with Cons.IH [of s1] Cons.prems(2) False show ?thesis by (simp add: go_run)
  qed
qed

section \<open>Properties\<close>

definition demo_empty :: "unit Store" where
  "demo_empty = \<lparr>world = (), thread_ns = (\<lambda>_. 1), trace = [], lock = False, containers = Map.empty\<rparr>"

lemma steady_demo: "steady (demo_env ids D) D"
  by (simp add: steady_def demo_env_def)

text \<open>
  Every step of the Docker client's loop keeps the store well-formed (the mutex free, no
  container stored as \<open>Destroyed\<close>), never blocks and never ends the process; it can panic only
  while it reads the container list, and then by the nil pointer of a container that is gone.
\<close>

lemma docker_step_safe:
  assumes "store_ok s"
  shows "store_ok (snd (Start_step E pc s))
    \<and> ends_with (\<lambda>p. pc = Sync \<and> p = NilDeref) (fst (Start_step E pc s))"
  using store_safe_Start_step assms by (rule store_safeD)

lemma docker_step_safe_witness:
  "store_ok (snd (Start_step (demo_env [''c1'', ''c2''] demo_inspect) Sync demo_empty))
   \<and> ends_with (\<lambda>p. Sync = Sync \<and> p = NilDeref)
       (fst (Start_step (demo_env [''c1'', ''c2''] demo_inspect) Sync demo_empty))"
proof -
  have "store_ok demo_empty" by (simp add: store_ok_def demo_empty_def)
  then show ?thesis by (rule docker_step_safe)
qed

text \<open>
  C7: the events refine the life cycle. Handling any sequence of events always returns, and
  afterwards the state stored for a container is the one that its last event of the table
  \<open>announced\<close> stands for: created after \<open>create\<close>, running after \<open>start\<close> and \<open>unpause\<close>, stopped
  after \<open>pause\<close> and \<open>die\<close>, and nothing after \<open>destroy\<close>; without such an event it is the one
  before. This holds as long as inspecting a container fails only with \<open>NoSuchContainer\<close>.
\<close>

theorem events_follow_lifecycle:
  assumes "\<not> lock s"
    and "\<forall>k w err. fst (docker_InspectContainer E k w) = Inl err \<longrightarrow> (\<exists>x. err = NoSuchContainer x)"
  shows "\<exists>s'. go_for (handleEvent E) evs s = (Returns (), s') \<and> \<not> lock s'
    \<and> (\<forall>k. store_states s' k = state_after evs k (store_states s k))"
proof -
  obtain s' where "go_for (handleEvent E) evs s = (Returns (), s')" "\<not> lock s'"
      "store_states s' = fold lifecycle evs (store_states s)"
    using handleEvents_lifecycle [where E = E and evs = evs, OF _ assms(1)] assms(2) by blast
  then show ?thesis by (simp add: fold_lifecycle)
qed

definition demo_events :: "APIEvents list" where
  "demo_events = map (\<lambda>(st, k). \<lparr>ev_Status = st, ev_ID = k\<rparr>)
     [(''create'', ''c1''), (''start'', ''c1''), (''start'', ''c9''), (''exec_create'', ''c1''), (''create'', ''c2''),
      (''die'', ''c3''), (''pause'', ''c4''), (''pause'', ''c5''), (''unpause'', ''c5''), (''destroy'', ''c9'')]"

theorem events_follow_lifecycle_witness:
  "\<exists>s'. go_for (handleEvent (demo_env [] demo_inspect)) demo_events demo_empty = (Returns (), s')
    \<and> map (store_states s') [''c1'', ''c2'', ''c3'', ''c4'', ''c5'', ''c9''] =
        [Some Running, Some Created, Some Stopped, Some Stopped, Some Running, None]"
proof -
  have 1: "\<not> lock demo_empty" by (simp add: demo_empty_def)
  have 2: "\<forall>k w err. fst (docker_InspectContainer (demo_env [] demo_inspect) k w) = Inl err
      \<longrightarrow> (\<exists>x. err = NoSuchContainer x)"
    by (simp add: demo_env_def demo_inspect_def)
  have 3: "map (\<lambda>k. state_after demo_events k (b k)) [''c1'', ''c2'', ''c3'', ''c4'', ''c5'', ''c9''] =
      [Some Running, Some Created, Some Stopped, Some Stopped, Some Running, None]" for b
    by (simp add: state_after_def demo_events_def relevant_def announced_def)
  from events_follow_lifecycle [OF 1 2, of demo_events] 3 show ?thesis by auto
qed

text \<open>
  C18: the initial synchronisation mirrors the daemon. If the daemon's answers do not change
  during the call and no listed container has disappeared, \<open>getContainers\<close> succeeds; then every
  listed container that could be inspected is stored with its PID, as stopped if the daemon
  reports it dead, paused, restarting or killed for want of memory, as running if it reports none
  of these and that it runs, and is deleted otherwise; and every other entry of the store is as
  it was, including entries of containers the daemon no longer lists.
\<close>

theorem sync_mirrors_daemon:
  assumes "\<not> lock s" and "steady E D" and "fst (docker_ListContainers E (world s)) = Inr ids"
    and "\<forall>k \<in> set ids. \<not> gone (D k)"
  shows "\<exists>s'. getContainers E s = (Returns None, s') \<and> \<not> lock s' \<and>
    (\<forall>k. containers s' k =
      (if k \<in> set ids then (case D k of Inl _ \<Rightarrow> containers s k | Inr c \<Rightarrow> mirror c)
       else containers s k))"
proof -
  let ?s = "s\<lparr>world := snd (docker_ListContainers E (world s))\<rparr>"
  obtain s' where "go_for (sync_container E) ids ?s = (Returns (), s')" "\<not> lock s'"
    "\<forall>k. containers s' k = (if k \<in> set ids then (case D k of Inl _ \<Rightarrow> containers ?s k | Inr c \<Rightarrow> mirror c)
       else containers ?s k)"
    using sync_loop_steady [OF assms(2), of ?s ids] assms(1,4) by auto
  with assms(3) show ?thesis
    by (intro exI [of _ s']) (auto simp: getContainers_def go_run split: sum.splits)
qed

text \<open>One container for each flag of the daemon, all with processes, one that just runs, and one that does not.\<close>

definition demo_flags :: "string \<Rightarrow> error + docker_container" where
  "demo_flags k = (let st = demo_state True False 42 in Inr \<lparr>dc_Name = k, dc_State =
     (if k = ''dead'' then st\<lparr>ds_Dead := True\<rparr>
      else if k = ''paused'' then st\<lparr>ds_Paused := True\<rparr>
      else if k = ''restarting'' then st\<lparr>ds_Restarting := True\<rparr>
      else if k = ''killed'' then st\<lparr>ds_OOMKilled := True\<rparr>
      else if k = ''running'' then st
      else demo_state False False 0)\<rparr>)"

theorem sync_mirrors_daemon_witness:
  "\<exists>s'. getContainers (demo_env [''dead'', ''paused'', ''restarting'', ''killed'', ''running'', ''c1''] demo_flags) demo_store =
      (Returns None, s')
    \<and> map (containers s') [''dead'', ''paused'', ''restarting'', ''killed''] = replicate 4 (Some \<lparr>State = Stopped, PID = 42\<rparr>)
    \<and> containers s' ''running'' = Some \<lparr>State = Running, PID = 42\<rparr> \<and> containers s' ''c1'' = None
    \<and> containers s' ''c2'' = containers demo_store ''c2''"
proof -
  let ?ids = "[''dead'', ''paused'', ''restarting'', ''killed'', ''running'', ''c1'']"
  have 1: "\<not> lock demo_store" by (simp add: demo_store_def)
  have 2: "fst (docker_ListContainers (demo_env ?ids demo_flags) (world demo_store)) = Inr ?ids"
    by (simp add: demo_env_def)
  have 3: "\<forall>k \<in> set ?ids. \<not> gone (demo_flags k)" by (simp add: demo_flags_def gone_def)
  from sync_mirrors_daemon [OF 1 steady_demo 2 3] show ?thesis
    by (auto simp: demo_flags_def mirror_def out_of_service_def demo_state_def numeral_eq_Suc)
qed

text \<open>
  C31: a container that disappears between the listing and its inspection crashes the client.
  With steady answers, \<open>getContainers\<close> panics by a nil pointer exactly when some listed
  container is gone; nothing recovers that panic, so the process ends.
\<close>

theorem sync_crash_iff_gone:
  assumes "\<not> lock s" and "steady E D" and "fst (docker_ListContainers E (world s)) = Inr ids"
  shows "fst (getContainers E s) = Panics NilDeref \<longleftrightarrow> (\<exists>k \<in> set ids. gone (D k))"
proof -
  let ?s = "s\<lparr>world := snd (docker_ListContainers E (world s))\<rparr>"
  have free: "\<not> lock ?s" using assms(1) by simp
  show ?thesis
  proof (cases "\<exists>k \<in> set ids. gone (D k)")
    case True
    from sync_loop_crash [OF assms(2) free True]
    obtain s' where "go_for (sync_container E) ids ?s = (Panics NilDeref, s')" by (metis prod.collapse)
    with True assms(3) show ?thesis by (simp add: getContainers_def go_run)
  next
    case False
    then have "\<forall>k \<in> set ids. \<not> gone (D k)" by blast
    from sync_loop_steady [OF assms(2) free this] obtain s'
      where "go_for (sync_container E) ids ?s = (Returns (), s')" by blast
    with False assms(3) show ?thesis by (simp add: getContainers_def go_run)
  qed
qed

theorem sync_crash_iff_gone_witness:
  "fst (getContainers (demo_env [''c1'', ''c9''] demo_inspect) demo_store) = Panics NilDeref"
proof -
  let ?E = "demo_env [''c1'', ''c9''] demo_inspect"
  have 1: "\<not> lock demo_store" by (simp add: demo_store_def)
  have 2: "fst (docker_ListContainers ?E (world demo_store)) = Inr [''c1'', ''c9'']"
    by (simp add: demo_env_def)
  have "gone (demo_inspect ''c9'')" by (simp add: demo_inspect_def gone_def)
  with sync_crash_iff_gone [OF 1 steady_demo 2] show ?thesis by auto
qed

text \<open>
  An event whose container cannot be inspected is lost. If the inspection fails with any
  error but \<open>NoSuchContainer\<close>, handling the event changes nothing in the store, whatever its
  status; a \<open>destroy\<close> event dropped like that leaves the container stored.
\<close>

lemma event_lost_on_inspect_error:
  assumes "\<not> lock s" and "fst (docker_InspectContainer E (ev_ID ev) (world s)) = Inl err"
    and "\<forall>x. err \<noteq> NoSuchContainer x"
  shows "\<exists>s'. handleEvent E ev s = (Returns (), s') \<and> containers s' = containers s"
proof -
  from assms(2,3) have "inspection E (ev_ID ev) (world s) = Inl err"
    by (cases err) (simp_all add: inspection_def)
  with assms(1) show ?thesis
    by (simp add: handleEvent_run Let_def split: option.splits)
qed

lemma event_lost_on_inspect_error_witness:
  "\<exists>s'. handleEvent (demo_env [] (\<lambda>k. Inl (ExtErr ''timeout''))) \<lparr>ev_Status = ''destroy'', ev_ID = ''c1''\<rparr>
      demo_store = (Returns (), s') \<and> containers s' ''c1'' = Some \<lparr>State = Running, PID = 42\<rparr>"
proof -
  let ?ev = "\<lparr>ev_Status = ''destroy'', ev_ID = ''c1''\<rparr>"
  have 1: "\<not> lock demo_store" and 2: "fst (docker_InspectContainer (demo_env [] (\<lambda>k. Inl (ExtErr ''timeout'')))
      (ev_ID ?ev) (world demo_store)) = Inl (ExtErr ''timeout'')"
    by (simp_all add: demo_store_def demo_env_def)
  have 3: "\<forall>x. ExtErr ''timeout'' \<noteq> NoSuchContainer x" by simp
  from event_lost_on_inspect_error [OF 1 2 3] show ?thesis by (auto simp: demo_store_def)
qed

end
