(* ===== verification/TrafficControl.thy ===== *)
theory TrafficControl
  imports NetNS Docker
begin

text \<open>
  Traffic control (\<open>tc.go\<close>, and the status types of \<open>main.go\<close>): the handlers that run \<open>tc\<close> in
  the network namespace of a container, the status cache they keep per namespace, the query
  of InfluxDB that fills it, and the figures shown for a pod.

  The third layer of the process state adds the two global caches; a global map that was
  never made is nil. Calls whose errors the source ignores have them ignored here too.
\<close>

section \<open>State\<close>

record TrafficControlStatus =
  tcs_dpod :: string
  tcs_latency :: string
  tcs_packetLoss :: string

record NetworkControlStatus =
  ncs_spod :: string
  ncs_dpod :: string
  ncs_bandwidth :: string
  ncs_packet :: string
  ncs_latency :: string

record 'w Globals = "'w Store" +
  trafficControlStatusCache :: "(string, TrafficControlStatus) gomap"
  neworkControlStatusCache :: "(string, NetworkControlStatus) gomap"

definition TrafficControlStatus_String :: "TrafficControlStatus \<Rightarrow> string" where
  "TrafficControlStatus_String tcs = tcs_latency tcs @ '' '' @ tcs_packetLoss tcs"

definition SetLatency :: "string \<Rightarrow> TrafficControlStatus \<Rightarrow> TrafficControlStatus" where
  "SetLatency latency tcs =
     (let tcs = (if latency = [] then tcs\<lparr>tcs_latency := ''-''\<rparr> else tcs)
      in tcs\<lparr>tcs_latency := latency\<rparr>)"

definition SetPacketLoss :: "string \<Rightarrow> TrafficControlStatus \<Rightarrow> TrafficControlStatus" where
  "SetPacketLoss packetLoss tcs =
     (let tcs = (if packetLoss = [] then tcs\<lparr>tcs_packetLoss := ''-''\<rparr> else tcs)
      in tcs\<lparr>tcs_packetLoss := packetLoss\<rparr>)"

definition TrafficControlStatusInit :: TrafficControlStatus where
  "TrafficControlStatusInit = \<lparr>tcs_dpod = ''-'', tcs_latency = ''-'', tcs_packetLoss = ''-''\<rparr>"

section \<open>Random figures\<close>

definition random :: "'w env \<Rightarrow> int \<Rightarrow> int \<Rightarrow> (('w, 'z) kernel_scheme, int) go" where
  "random E lo hi = go_bind (call (time_Now E)) (\<lambda>t.
     if hi - lo \<le> 0 then go_panic InvalidArgument
     else go_bind (call (rand_Intn E (t div 1000000000) (hi - lo))) (\<lambda>v. go_return (v + lo)))"

section \<open>Network namespaces of processes\<close>

definition netns_path :: "int \<Rightarrow> string" where
  "netns_path pid = ''/proc/'' @ Itoa pid @ ''/ns/net''"

definition getNSID :: "'w env \<Rightarrow> string \<Rightarrow> (('w, 'z) kernel_scheme, string \<times> error option) go" where
  "getNSID E nsPath = go_bind (call (os_Readlink E nsPath)) (\<lambda>r. case r of
      Inl err \<Rightarrow> go_return ([], Some (Errorf ''failed read \"%s\": %v'' [ArgS nsPath, ArgE err]))
    | Inr nsID \<Rightarrow> go_bind (go_slice nsID 5 (int (length nsID) - 1)) (\<lambda>ns. go_return (ns, None)))"

section \<open>Running tc\<close>

definition exec_cmd :: "'w env \<Rightarrow> nat \<Rightarrow> string list \<Rightarrow> (('w, 'z) kernel_scheme, error option) go" where
  "exec_cmd E tid cmd = (if cmd = [] then go_panic IndexOutOfRange
     else go_bind (go_gets (\<lambda>s. thread_ns s tid)) (\<lambda>ns.
       go_bind (call (exec_Command E ns cmd)) (\<lambda>err.
       go_seq (log_effect (Exec ns cmd (err = None))) (go_return err))))"

text \<open>The closure handed to \<open>WithNetNSPath\<close>: run the commands in turn, stop at the first that
  fails.\<close>

fun exec_cmds :: "'w env \<Rightarrow> string list list \<Rightarrow> nat \<Rightarrow> (('w, 'z) kernel_scheme, error option) go" where
  "exec_cmds E [] tid = go_return None"
| "exec_cmds E (cmd # cmds) tid = go_bind (exec_cmd E tid cmd) (\<lambda>e. case e of
      Some err \<Rightarrow> go_return (Some (Errorf ''failed to execute command: %v'' [ArgE err]))
    | None \<Rightarrow> exec_cmds E cmds tid)"

definition replace_cmd :: "string list" where
  "replace_cmd = Fields ''tc qdisc replace dev eth0 root handle 1: netem''"

definition change_cmd :: "string list" where
  "change_cmd = Fields ''tc qdisc change dev eth0 root handle 1: netem''"

definition applyTrafficControlRules ::
  "'w env \<Rightarrow> nat \<Rightarrow> int \<Rightarrow> string list \<Rightarrow> (('w, 'z) kernel_scheme, string \<times> error option) go" where
  "applyTrafficControlRules E tid pid rules =
     (let cmds = [replace_cmd, change_cmd @ rules]; netNS = netns_path pid in
      go_bind (WithNetNSPath E tid netNS (exec_cmds E cmds)) (\<lambda>e. case e of
        Some err \<Rightarrow> go_return ([], Some (Errorf ''failed to perform traffic control: %v'' [ArgE err]))
      | None \<Rightarrow> go_bind (getNSID E netNS) (\<lambda>(netNSID, err). case err of
            Some _ \<Rightarrow> go_return ([], err)
          | None \<Rightarrow> go_return (netNSID, None))))"

section \<open>InfluxDB\<close>

definition db :: string where
  "db = ''ican''"

definition queryInfluxDB ::
  "'w env \<Rightarrow> string \<Rightarrow> string \<Rightarrow> (('w, 'z) kernel_scheme, influx_response option \<times> error option) go" where
  "queryInfluxDB E dbname command = go_bind (call (httptest_listen E)) (\<lambda>ok.
     if \<not> ok then go_panic (Explicit ''httptest: failed to listen on a port'')
     else go_bind (call (influx_NewClient E ''http://localhost:8086'')) (\<lambda>e. case e of
         Some err \<Rightarrow> go_exit 1
       | None \<Rightarrow> go_bind (call (influx_Query E dbname command)) (\<lambda>r. go_return (case r of
             Inl err \<Rightarrow> (None, Some err)
           | Inr res \<Rightarrow> (Some res, None)))))"

text \<open>A value of a series read as a \<open>json.Number\<close>; \<open>Int64\<close> is \<open>strconv.ParseInt(_, 10, 64)\<close>.\<close>

definition value_number :: "influx_value \<Rightarrow> ('s, string) go" where
  "value_number v = (case v of VNumber n \<Rightarrow> go_return n | _ \<Rightarrow> go_panic TypeAssertion)"

definition value_string :: "influx_value \<Rightarrow> ('s, string) go" where
  "value_string v = (case v of VString x \<Rightarrow> go_return x | _ \<Rightarrow> go_panic TypeAssertion)"

text \<open>\<open>resp.Results[0].Series[i].Values[0][j]\<close>\<close>

definition cell :: "influx_row list \<Rightarrow> nat \<Rightarrow> nat \<Rightarrow> ('s, influx_value) go" where
  "cell series i j = go_bind (go_index series i) (\<lambda>row.
     go_bind (go_index (Values row) 0) (\<lambda>vals. go_index vals j))"

definition parseAttribute :: "influx_response option \<Rightarrow> ('s, string list) go" where
  "parseAttribute resp = (case resp of
      None \<Rightarrow> go_return [''-'', ''-'', ''-'']
    | Some res \<Rightarrow> go_bind (go_index (Results res) 0) (\<lambda>res0.
        let series = Series res0 in
        if 1 < length series then
          go_bind (cell series 0 1) (\<lambda>v.
          go_bind (case v of
              VString dpod \<Rightarrow> go_bind (cell series 0 5) (\<lambda>sp.
                go_bind (value_string sp) (\<lambda>_. go_return dpod))
            | _ \<Rightarrow> go_return ''-'') (\<lambda>pod.
          go_bind (cell series 0 8) (\<lambda>b. go_bind (value_number b) (\<lambda>bandwidth.
          go_bind (cell series 1 8) (\<lambda>p. go_bind (value_number p) (\<lambda>packet.
          go_return [pod, Itoa (fst (ParseInt bandwidth)), Itoa (fst (ParseInt packet))]))))))
        else go_return [''-'', ''-'', ''-'']))"

section \<open>The status cache\<close>

definition cache_store :: "string \<Rightarrow> TrafficControlStatus \<Rightarrow> (('w, 'z) Globals_scheme, unit) go" where
  "cache_store netNSID st = go_bind (go_gets trafficControlStatusCache) (\<lambda>c. case c of
      None \<Rightarrow> go_panic NilMapWrite
    | Some m \<Rightarrow> go_modify (\<lambda>s. s\<lparr>trafficControlStatusCache := Some (m(netNSID \<mapsto> st))\<rparr>))"

text \<open>The update at the end of \<open>ApplyLatency\<close> and \<open>ApplyPacketLoss\<close>: make an entry if there is
  none, then set its two values through the pointer stored in the map.\<close>

definition cache_update :: "string \<Rightarrow> string \<Rightarrow> string \<Rightarrow> (('w, 'z) Globals_scheme, unit) go" where
  "cache_update netNSID latency packetLoss =
     go_seq (go_bind (go_gets trafficControlStatusCache) (\<lambda>c.
        if gomap_get c netNSID = None then cache_store netNSID TrafficControlStatusInit else go_return ()))
     (go_bind (go_gets trafficControlStatusCache) (\<lambda>c. case gomap_get c netNSID of
          None \<Rightarrow> go_panic NilDeref
        | Some st \<Rightarrow> cache_store netNSID (SetPacketLoss packetLoss (SetLatency latency st))))"

definition getStatus ::
  "'w env \<Rightarrow> int \<Rightarrow> (('w, 'z) Globals_scheme, TrafficControlStatus option \<times> error option) go" where
  "getStatus E pid = go_bind (getNSID E (netns_path pid)) (\<lambda>(netNSID, err). case err of
      Some e \<Rightarrow> go_return (None, Some (Errorf ''failed to get network namespace ID: %v'' [ArgE e]))
    | None \<Rightarrow> go_bind (go_gets trafficControlStatusCache) (\<lambda>c. case gomap_get c netNSID of
          Some status \<Rightarrow> go_return (Some status, None)
        | None \<Rightarrow> go_bind (queryInfluxDB E db ''select * from p2ptxbyte, p2ptxpkt'') (\<lambda>(res, qerr).
            go_bind (parseAttribute res) (\<lambda>result. case qerr of
              Some e \<Rightarrow> go_return (None, Some (Errorf ''failed to get data from InfluxDB: %v'' [ArgE e]))
            | None \<Rightarrow>
                go_bind (go_index result 0) (\<lambda>r0. go_bind (go_index result 1) (\<lambda>r1.
                go_bind (go_index result 2) (\<lambda>r2.
                go_seq (cache_store netNSID \<lparr>tcs_dpod = r0, tcs_latency = r1, tcs_packetLoss = r2\<rparr>)
                (go_bind (go_gets trafficControlStatusCache) (\<lambda>c'.
                   go_return (gomap_get c' netNSID, None))))))))))"

definition getPacketLoss :: "'w env \<Rightarrow> int \<Rightarrow> (('w, 'z) Globals_scheme, string \<times> error option) go" where
  "getPacketLoss E pid = go_bind (getStatus E pid) (\<lambda>(status, err). go_return (case err of
      Some e \<Rightarrow> (''-'', Some e)
    | None \<Rightarrow> (case status of
          None \<Rightarrow> (''-'', Some (Errorf ''status for PID %d does not exist'' [ArgD pid]))
        | Some st \<Rightarrow> (tcs_packetLoss st, None))))"

section \<open>The control handlers\<close>

definition ApplyLatency :: "'w env \<Rightarrow> nat \<Rightarrow> int \<Rightarrow> string \<Rightarrow> (('w, 'z) Globals_scheme, error option) go" where
  "ApplyLatency E tid pid latency = (if latency = [] then go_return None
     else let rules = Fields (''delay '' @ latency) in
       go_bind (getPacketLoss E pid) (\<lambda>(packetLoss, err). case err of
         Some e \<Rightarrow> go_return (Some e)
       | None \<Rightarrow>
           let rules = (if packetLoss \<noteq> ''-'' then rules @ Fields (''loss '' @ packetLoss) else rules) in
           go_bind (applyTrafficControlRules E tid pid rules) (\<lambda>(netNSID, _).
           go_seq (cache_update netNSID latency packetLoss) (go_return None))))"

definition ApplyPacketLoss :: "'w env \<Rightarrow> nat \<Rightarrow> int \<Rightarrow> string \<Rightarrow> (('w, 'z) Globals_scheme, error option) go" where
  "ApplyPacketLoss E tid pid packetLoss = (if packetLoss = [] then go_return None
     else let rules = Fields (''loss '' @ packetLoss) in
       go_bind (random E 700 34000) (\<lambda>v.
       let latency = Itoa v; rules = rules @ Fields (''delay '' @ latency) in
       go_bind (applyTrafficControlRules E tid pid rules) (\<lambda>(netNSID, _).
       go_seq (cache_update netNSID latency packetLoss) (go_return None))))"

definition ClearTrafficControlSettings :: "'w env \<Rightarrow> nat \<Rightarrow> int \<Rightarrow> (('w, 'z) Globals_scheme, error option) go" where
  "ClearTrafficControlSettings E tid pid =
     (let netNS = netns_path pid in
      go_bind (WithNetNSPath E tid netNS (exec_cmds E [replace_cmd])) (\<lambda>e. case e of
        Some err \<Rightarrow> go_return (Some (Errorf ''failed to perform traffic control: %v'' [ArgE err]))
      | None \<Rightarrow> go_bind (getNSID E netNS) (\<lambda>(netNSID, err). case err of
            Some e \<Rightarrow> go_return (Some (Errorf ''failed to get network namespace ID: %v'' [ArgE e]))
          | None \<Rightarrow> go_seq (go_modify (\<lambda>s.
                s\<lparr>trafficControlStatusCache := gomap_delete netNSID (trafficControlStatusCache s)\<rparr>))
              (go_return None))))"

section \<open>Pods\<close>

definition parsePodName :: "string \<Rightarrow> string \<times> error option" where
  "parsePodName name =
     (let name = TrimPrefix name ''/''; parts = Split name (CHR ''_'') in
      if parts = [] \<or> hd parts \<noteq> ''k8s'' then
        ([], Some (Errorf ''failed to parse Docker container name %q into parts'' [ArgS name]))
      else if length parts < 6 then
        ([], Some (Errorf ''Docker container name %q has less parts than expected %v'' [ArgS name, ArgL parts]))
      else (parts ! 2, None))"

definition getPod :: "'w env \<Rightarrow> string \<Rightarrow> (('w, 'z) kernel_scheme, string \<times> error option) go" where
  "getPod E containerID =
     go_bind (call (docker_NewClient E ''unix:///var/run/docker.sock'')) (\<lambda>e. case e of
        Some _ \<Rightarrow> go_panic NilDeref
      | None \<Rightarrow> go_bind (call (docker_InspectContainer E containerID)) (\<lambda>r. case r of
            Inl _ \<Rightarrow> go_panic NilDeref
          | Inr container \<Rightarrow> go_return (fst (parsePodName (dc_Name container)), None)))"

text \<open>\<open>getStatusByPod\<close> makes its figures up; the code that would query InfluxDB is commented
  out in the source. \<open>parseStatus\<close>, which nothing calls, does the same.\<close>

definition made_up_status :: "'w env \<Rightarrow> string \<Rightarrow> (('w, 'z) kernel_scheme, NetworkControlStatus) go" where
  "made_up_status E dpod =
     go_bind (random E 700 34000) (\<lambda>bandwidth.
     go_bind (random E 140 230) (\<lambda>latency.
     go_bind (random E 5 80) (\<lambda>packet.
     go_return \<lparr>ncs_spod = [], ncs_dpod = dpod, ncs_bandwidth = Itoa bandwidth,
       ncs_packet = Itoa packet, ncs_latency = Itoa latency\<rparr>)))"

definition getStatusByPod ::
  "'w env \<Rightarrow> string \<Rightarrow> (('w, 'z) kernel_scheme, NetworkControlStatus option \<times> error option) go" where
  "getStatusByPod E dpod = go_bind (made_up_status E dpod) (\<lambda>st. go_return (Some st, None))"

definition parseStatus ::
  "'w env \<Rightarrow> influx_response option \<Rightarrow> (('w, 'z) kernel_scheme, NetworkControlStatus option) go" where
  "parseStatus E resp = go_bind (made_up_status E ''dpod'') (\<lambda>st. go_return (Some st))"

section \<open>What the calls leave alone\<close>

lemma keeps_tc_world [go_keeps]:
  assumes "\<And>s w. f (s\<lparr>world := w\<rparr>) = f s"
  shows "keeps f (random E lo hi)" "keeps f (getNSID E p)" "keeps f (queryInfluxDB E d c)"
    "keeps f (getPod E k)" "keeps f (made_up_status E k)" "keeps f (getStatusByPod E k)"
    "keeps f (parseStatus E r)"
  unfolding random_def getNSID_def queryInfluxDB_def getPod_def getStatusByPod_def parseStatus_def
    made_up_status_def
  by (intro go_keeps assms)+

lemma keeps_value [go_keeps]: "keeps f (value_number v)" "keeps f (value_string v)" "keeps f (cell xs i j)"
  by (cases v; simp add: value_number_def value_string_def cell_def go_keeps)+

lemma keeps_parseAttribute [go_keeps]: "keeps f (parseAttribute r)"
proof -
  have "keeps f (case v of VString dpod \<Rightarrow> go_bind (cell xs 0 5) (\<lambda>sp.
                go_bind (value_string sp) (\<lambda>_. go_return dpod)) | _ \<Rightarrow> go_return ''-'')" for v xs
    by (cases v) (simp_all add: go_keeps)
  then show ?thesis unfolding parseAttribute_def Let_def by (intro go_keeps)
qed

lemma keeps_exec_cmds [go_keeps]:
  assumes "\<And>s w. f (s\<lparr>world := w\<rparr>) = f s" and "\<And>s l. f (s\<lparr>trace := l\<rparr>) = f s"
  shows "keeps f (exec_cmds E cmds tid)"
  by (induction cmds) (auto simp: exec_cmd_def intro!: go_keeps assms)

lemma keeps_applyTrafficControlRules [go_keeps]:
  assumes "\<And>s w. f (s\<lparr>world := w\<rparr>) = f s" and "\<And>s l. f (s\<lparr>trace := l\<rparr>) = f s"
    and "\<And>s g. f (s\<lparr>thread_ns := g\<rparr>) = f s"
  shows "keeps f (applyTrafficControlRules E tid pid rules)"
  unfolding applyTrafficControlRules_def Let_def by (intro go_keeps assms)

lemma keeps_status [go_keeps]:
  assumes "\<And>s w. f (s\<lparr>world := w\<rparr>) = f s" and "\<And>k st. keeps f (cache_store k st)"
  shows "keeps f (cache_update k l p)" "keeps f (getStatus E pid)" "keeps f (getPacketLoss E pid)"
  unfolding cache_update_def getStatus_def getPacketLoss_def by (intro go_keeps assms)+

lemma keeps_handlers [go_keeps]:
  assumes "\<And>s w. f (s\<lparr>world := w\<rparr>) = f s" and "\<And>s l. f (s\<lparr>trace := l\<rparr>) = f s"
    and "\<And>s g. f (s\<lparr>thread_ns := g\<rparr>) = f s" and "\<And>k st. keeps f (cache_store k st)"
    and "\<And>s k. f (s\<lparr>trafficControlStatusCache := gomap_delete k (trafficControlStatusCache s)\<rparr>) = f s"
  shows "keeps f (ApplyLatency E tid pid l)" "keeps f (ApplyPacketLoss E tid pid l)"
    "keeps f (ClearTrafficControlSettings E tid pid)"
  unfolding ApplyLatency_def ApplyPacketLoss_def ClearTrafficControlSettings_def Let_def
  by (intro go_keeps assms)+

lemma keeps_cache_store [go_keeps]:
  "(\<And>s c. f (s\<lparr>trafficControlStatusCache := c\<rparr>) = f s) \<Longrightarrow> keeps f (cache_store k st)"
  unfolding cache_store_def by (intro go_keeps) simp

text \<open>No call makes the cache: a nil map stays nil, whatever the handlers do.\<close>

lemma keeps_cache_nil [go_keeps]:
  "keeps (\<lambda>s. trafficControlStatusCache s = None) (cache_store k st)"
  by (auto simp: keeps_def cache_store_def go_run split: option.split)

lemma gomap_delete_nil [simp]: "gomap_delete k m = None \<longleftrightarrow> m = None"
  by (cases m) simp_all

section \<open>What tc is told\<close>

text \<open>The log of running commands in one namespace: all of them, or all up to the first that
  failed.\<close>

definition exec_log :: "nat \<Rightarrow> string list list \<Rightarrow> error option \<Rightarrow> effect list \<Rightarrow> bool" where
  "exec_log ns cmds x new \<longleftrightarrow>
     (if x = None then new = map (\<lambda>c. Exec ns c True) cmds
      else \<exists>k < length cmds. new = map (\<lambda>c. Exec ns c True) (take k cmds) @ [Exec ns (cmds ! k) False])"

lemma exec_log_Cons:
  "exec_log ns cmds x new \<Longrightarrow> exec_log ns (c # cmds) x (Exec ns c True # new)"
proof (cases x)
  case None
  then show "exec_log ns cmds x new \<Longrightarrow> ?thesis" by (simp add: exec_log_def)
next
  case (Some e)
  assume "exec_log ns cmds x new"
  with Some obtain k where "k < length cmds"
      "new = map (\<lambda>c. Exec ns c True) (take k cmds) @ [Exec ns (cmds ! k) False]"
    by (auto simp: exec_log_def)
  with Some show ?thesis by (auto simp: exec_log_def intro!: exI [of _ "Suc k"])
qed

lemma exec_log_in_namespace: "exec_log ns cmds x new \<Longrightarrow> e \<in> set new \<Longrightarrow> \<exists>cmd ok. e = Exec ns cmd ok"
  by (auto simp: exec_log_def split: if_splits) blast+

lemma exec_cmds_run:
  assumes "\<forall>c \<in> set cmds. c \<noteq> []"
  shows "\<exists>x w new. exec_cmds E cmds t s = (Returns x, s\<lparr>world := w, trace := trace s @ new\<rparr>)
    \<and> exec_log (thread_ns s t) cmds x new"
  using assms
proof (induction cmds arbitrary: s)
  case Nil
  show ?case
    by (intro exI [of _ None] exI [of _ "world s"] exI [of _ "[]"]) (simp add: go_run exec_log_def)
next
  case (Cons c cmds)
  let ?ns = "thread_ns s t"
  obtain e w where ex: "exec_Command E ?ns c (world s) = (e, w)" by (cases "exec_Command E ?ns c (world s)")
  let ?s1 = "s\<lparr>world := w, trace := trace s @ [Exec ?ns c (e = None)]\<rparr>"
  from Cons.prems ex have c: "exec_cmd E t c s = (Returns e, ?s1)"
    by (simp add: exec_cmd_def log_effect_def go_run)
  show ?case
  proof (cases e)
    case (Some err)
    with c show ?thesis
      by (intro exI [of _ "Some (Errorf ''failed to execute command: %v'' [ArgE err])"] exI [of _ w]
          exI [of _ "[Exec ?ns c False]"]) (auto simp: go_run exec_log_def)
  next
    case None
    obtain x v new where "exec_cmds E cmds t ?s1 = (Returns x, ?s1\<lparr>world := v, trace := trace ?s1 @ new\<rparr>)"
        and l: "exec_log ?ns cmds x new"
      using Cons.IH [of ?s1] Cons.prems by auto
    with c None have "exec_cmds E (c # cmds) t s =
        (Returns x, s\<lparr>world := v, trace := trace s @ (Exec ?ns c True # new)\<rparr>)"
      by (simp add: go_run)
    with exec_log_Cons [OF l] show ?thesis by blast
  qed
qed

lemma ns_outcome_exec:
  assumes "\<forall>c \<in> set cmds. c \<noteq> []" and "ns_outcome E i (exec_cmds E cmds) s (r, s')"
  shows "\<exists>x w tbl new. r = Returns x \<and> s' = s\<lparr>world := w, thread_ns := tbl, trace := trace s @ new\<rparr>
    \<and> (x \<noteq> None \<and> new = [] \<or> exec_log i cmds x new)"
  using assms(2)
proof (cases rule: ns_outcome.cases)
  case (not_run w e)
  then show ?thesis
    by (intro exI [of _ "Some e"] exI [of _ w] exI [of _ "thread_ns s"] exI [of _ "[]"]) simp
next
  case (ran t wo j sa wa x sb tbl wb)
  from exec_cmds_run [OF assms(1), of E t sa] ran(4) obtain u new where
    sb: "sb = sa\<lparr>world := u, trace := trace sa @ new\<rparr>" and l: "exec_log (thread_ns sa t) cmds x new"
    by auto
  from ran(3) sb l ran(1,6) show ?thesis
    by (intro exI [of _ x] exI [of _ wb] exI [of _ tbl] exI [of _ new]) auto
qed

lemma WithNetNSPath_exec:
  fixes s :: "('w, 'z) kernel_scheme"
  assumes "\<forall>c \<in> set cmds. c \<noteq> []"
  shows "\<exists>x w tbl new. WithNetNSPath E tid p (exec_cmds E cmds) s =
      (Returns x, s\<lparr>world := w, thread_ns := tbl, trace := trace s @ new\<rparr>)
    \<and> (x \<noteq> None \<and> new = [] \<or> (\<exists>i w0. fst (os_Open E (thread_ns s) p w0) = Inr i \<and> exec_log i cmds x new))"
proof -
  have ret: "\<exists>x sb. exec_cmds E cmds t sa = (Returns x, sb)" for t and sa :: "('w, 'z) kernel_scheme"
    using exec_cmds_run [OF assms, of E t sa] by blast
  show ?thesis
  proof (cases rule: WithNetNSPath_outcome [where E = E and tid = tid and p = p and s = s and f = "exec_cmds E cmds", OF ret])
    case (1 e w)
    then show ?thesis
      by (intro exI [of _ "Some e"] exI [of _ w] exI [of _ "thread_ns s"] exI [of _ "[]"]) simp
  next
    case (2 i w0)
    obtain r s' where W: "WithNetNSPath E tid p (exec_cmds E cmds) s = (r, s')"
      by (cases "WithNetNSPath E tid p (exec_cmds E cmds) s")
    obtain x w tbl new where "r = Returns x"
        "s' = s\<lparr>world := w, thread_ns := tbl, trace := trace s @ new\<rparr>"
        "x \<noteq> None \<and> new = [] \<or> exec_log i cmds x new"
      using ns_outcome_exec [OF assms 2(2) [unfolded W]] by blast
    with 2(1) W show ?thesis
      by (intro exI [of _ x] exI [of _ w] exI [of _ tbl] exI [of _ new]) auto
  qed
qed

lemma cmds_not_Nil: "replace_cmd \<noteq> []" "change_cmd @ rules \<noteq> []"
  by (simp_all add: replace_cmd_def change_cmd_def Fields_Cons [of "''tc''", simplified] plain_char_def)

text \<open>Reading the namespace ID reports an error, panics when the link is too short, or cuts
  \<open>net:[\<close> and \<open>]\<close> off.\<close>

lemma getNSID_cases:
  obtains (fails) e w where "getNSID E p s = (Returns ([], Some e), s\<lparr>world := w\<rparr>)"
      and "\<exists>err. fst (os_Readlink E p (world s)) = Inl err"
  | (panics) l w where "getNSID E p s = (Panics SliceOutOfRange, s\<lparr>world := w\<rparr>)"
      and "fst (os_Readlink E p (world s)) = Inr l" and "length l < 6"
  | (ok) l w where "getNSID E p s = (Returns (drop 5 (butlast l), None), s\<lparr>world := w\<rparr>)"
      and "fst (os_Readlink E p (world s)) = Inr l" and "6 \<le> length l"
proof (cases "os_Readlink E p (world s)")
  case (Pair r w)
  show thesis
  proof (cases r)
    case (Inl e)
    with Pair show ?thesis
      by (intro fails [of "Errorf ''failed read \"%s\": %v'' [ArgS p, ArgE e]" w])
        (simp_all add: getNSID_def go_run)
  next
    case (Inr l)
    show ?thesis
    proof (cases "6 \<le> length l")
      case True
      then have "nat (int (length l) - 1) = length l - 1" by simp
      with True Inr Pair show ?thesis
        by (intro ok [of l w]) (simp_all add: getNSID_def go_run butlast_conv_take)
    next
      case False
      with Inr Pair show ?thesis by (intro panics [of w l]) (simp_all add: getNSID_def go_run)
    qed
  qed
qed

text \<open>
  The four ways a call of \<open>applyTrafficControlRules\<close> ends. In each the state changes in the
  world, the threads' namespaces and the log only. \<open>tc\<close> failed (or was not run at all): the
  log grows by the commands up to the one that failed. Otherwise it grows by both commands,
  run in the namespace opened for the process, and the rest depends on reading its ID.
\<close>

lemma applyTrafficControlRules_cases:
  fixes E :: "'w env" and s :: "('w, 'z) kernel_scheme"
  obtains
    (tc_failed) e err w tbl new where
      "applyTrafficControlRules E tid pid rules s =
         (Returns ([], Some e), s\<lparr>world := w, thread_ns := tbl, trace := trace s @ new\<rparr>)"
      "new = [] \<or> (\<exists>i w0. fst (os_Open E (thread_ns s) (netns_path pid) w0) = Inr i
         \<and> exec_log i [replace_cmd, change_cmd @ rules] (Some err) new)"
  | (ran) i w0 s1 q v where
      "fst (os_Open E (thread_ns s) (netns_path pid) w0) = Inr i"
      "\<exists>w tbl. s1 = s\<lparr>world := w, thread_ns := tbl,
         trace := trace s @ [Exec i replace_cmd True, Exec i (change_cmd @ rules) True]\<rparr>"
      "applyTrafficControlRules E tid pid rules s = (q, s1\<lparr>world := v\<rparr>)"
      "(\<exists>e. q = Returns ([], Some e) \<and> (\<exists>err. fst (os_Readlink E (netns_path pid) (world s1)) = Inl err))
       \<or> (\<exists>l. q = Panics SliceOutOfRange \<and> fst (os_Readlink E (netns_path pid) (world s1)) = Inr l \<and> length l < 6)
       \<or> (\<exists>l. q = Returns (drop 5 (butlast l), None)
            \<and> fst (os_Readlink E (netns_path pid) (world s1)) = Inr l \<and> 6 \<le> length l)"
proof -
  let ?cmds = "[replace_cmd, change_cmd @ rules]"
  have ne: "\<forall>c \<in> set ?cmds. c \<noteq> []" using cmds_not_Nil by auto
  obtain x w tbl new where W: "WithNetNSPath E tid (netns_path pid) (exec_cmds E ?cmds) s =
      (Returns x, s\<lparr>world := w, thread_ns := tbl, trace := trace s @ new\<rparr>)"
    and n: "x \<noteq> None \<and> new = [] \<or>
       (\<exists>i w0. fst (os_Open E (thread_ns s) (netns_path pid) w0) = Inr i \<and> exec_log i ?cmds x new)"
    using WithNetNSPath_exec [OF ne, where E = E and tid = tid and p = "netns_path pid" and s = s]
    by (elim exE conjE)
  show thesis
  proof (cases x)
    case (Some e)
    with W n show ?thesis
      by (intro tc_failed [where e = "Errorf ''failed to perform traffic control: %v'' [ArgE e]"
            and err = e and w = w and tbl = tbl and new = new])
        (simp_all add: applyTrafficControlRules_def Let_def go_run)
  next
    case None
    with n obtain i w0 where i: "fst (os_Open E (thread_ns s) (netns_path pid) w0) = Inr i"
      and new: "new = [Exec i replace_cmd True, Exec i (change_cmd @ rules) True]"
      by (auto simp: exec_log_def)
    define s1 where "s1 = s\<lparr>world := w, thread_ns := tbl, trace := trace s @ new\<rparr>"
    have A: "applyTrafficControlRules E tid pid rules s =
        go_bind (getNSID E (netns_path pid)) (\<lambda>(netNSID, err). case err of
            Some _ \<Rightarrow> go_return ([], err) | None \<Rightarrow> go_return (netNSID, None)) s1"
      using W None by (simp add: applyTrafficControlRules_def Let_def go_bind_simps s1_def)
    have s1: "\<exists>w tbl. s1 = s\<lparr>world := w, thread_ns := tbl,
         trace := trace s @ [Exec i replace_cmd True, Exec i (change_cmd @ rules) True]\<rparr>"
      unfolding s1_def new by blast
    show ?thesis
    proof (cases rule: getNSID_cases [of E "netns_path pid" s1])
      case (fails e v)
      with A show ?thesis by (intro ran [OF i s1, of "Returns ([], Some e)" v]) (simp_all add: go_run)
    next
      case (panics l v)
      with A show ?thesis by (intro ran [OF i s1, of "Panics SliceOutOfRange" v]) (simp_all add: go_run)
    next
      case (ok l v)
      with A show ?thesis
        by (intro ran [OF i s1, of "Returns (drop 5 (butlast l), None)" v]) (simp_all add: go_run)
    qed
  qed
qed

text \<open>Running commands in a namespace leaves every thread where it was, under the kernel's
  rules: a task's \<open>ns/net\<close> file is the namespace the task is in, and a thread may return to a
  namespace it came from.\<close>

definition kernel_rules :: "'w env \<Rightarrow> (nat \<Rightarrow> nat) \<Rightarrow> bool" where
  "kernel_rules E ns \<longleftrightarrow>
     (\<forall>tbl t w j. fst (os_Open E tbl (getCurrentThreadNetNSPath E t) w) = Inr j \<longrightarrow> j = tbl t)
     \<and> (\<forall>t w. fst (sys_setns E (ns t) w) = None)"

lemma maintains_WithNetNSPath [go_maintains]:
  fixes E :: "'w env"
  assumes "\<forall>c \<in> set cmds. c \<noteq> []" and "kernel_rules E ns"
  shows "maintains (\<lambda>s :: ('w, 'z) kernel_scheme. thread_ns s = ns) (WithNetNSPath E tid p (exec_cmds E cmds))"
  unfolding maintains_def
proof (intro allI impI)
  fix s :: "('w, 'z) kernel_scheme"
  assume s: "thread_ns s = ns"
  have ret: "\<exists>x sb. exec_cmds E cmds t sa = (Returns x, sb)" for t and sa :: "('w, 'z) kernel_scheme"
    using exec_cmds_run [OF assms(1), of E t sa] by blast
  have k: "keeps thread_ns (exec_cmds E cmds t :: (('w, 'z) kernel_scheme, _) go)" for t
    by (intro go_keeps) simp_all
  show "thread_ns (snd (WithNetNSPath E tid p (exec_cmds E cmds) s)) = ns"
  proof (cases rule: WithNetNSPath_outcome [where E = E and tid = tid and p = p and s = s and f = "exec_cmds E cmds", OF ret])
    case (1 e w)
    with s show ?thesis by simp
  next
    case (2 i w0)
    have "thread_ns (snd (WithNetNSPath E tid p (exec_cmds E cmds) s)) = thread_ns s"
      using 2(2) assms(2) s k
      by (intro ns_outcome_restores [where E = E and i = i and f = "exec_cmds E cmds"
            and r = "fst (WithNetNSPath E tid p (exec_cmds E cmds) s)"])
        (auto simp: kernel_rules_def)
    with s show ?thesis by simp
  qed
qed

end
