(* ===== verification/TrafficControl_Props.thy ===== *)
theory TrafficControl_Props
  imports TrafficControl
begin

text \<open>
  Properties of traffic control: which commands are run and where, what the handlers do to the
  cache and what they report, the parsing of pod names and of InfluxDB's answers, and the
  ranges of the figures that are made up.
\<close>

section \<open>The demonstration process\<close>

definition demo_globals :: "(string, TrafficControlStatus) gomap \<Rightarrow> unit Globals" where
  "demo_globals c = \<lparr>world = (), thread_ns = (\<lambda>_. 1), trace = [], lock = False,
     containers = [''c1'' \<mapsto> \<lparr>State = Running, PID = 42\<rparr>],
     trafficControlStatusCache = c, neworkControlStatusCache = Some Map.empty\<rparr>"

abbreviation demo_E :: "unit env" where
  "demo_E \<equiv> demo_env [''c1''] demo_inspect"

lemma demo_numbers: "Itoa 42 = ''42''" "Itoa 100 = ''100''" "Itoa 1 = ''1''" "Itoa 3 = ''3''"
  by code_simp+

lemma demo_paths:
  "netns_path 42 = ''/proc/42/ns/net''"
  "getCurrentThreadNetNSPath (demo_env ids D) t = ''/proc/100/task/'' @ Itoa (int t) @ ''/ns/net''"
  by (simp_all add: netns_path_def getCurrentThreadNetNSPath_def demo_numbers)

lemma demo_proc:
  "\<forall>tbl t w j. fst (os_Open (demo_env ids D) tbl (getCurrentThreadNetNSPath (demo_env ids D) t) w) = Inr j
     \<longrightarrow> j = tbl t"
proof (intro allI impI)
  fix tbl :: "nat \<Rightarrow> nat" and t w j
  let ?p = "getCurrentThreadNetNSPath (demo_env ids D) t"
  have 1: "t = 1" if "?p = ''/proc/100/task/1/ns/net''"
  proof -
    from that have "Itoa (int t) @ ''/ns/net'' = Itoa 1 @ ''/ns/net''" by (simp add: demo_paths demo_numbers)
    then show ?thesis by simp
  qed
  have 3: "t = 3" if "?p = ''/proc/100/task/3/ns/net''"
  proof -
    from that have "Itoa (int t) @ ''/ns/net'' = Itoa 3 @ ''/ns/net''" by (simp add: demo_paths demo_numbers)
    then show ?thesis by simp
  qed
  have 42: "?p \<noteq> ''/proc/42/ns/net''" by (simp add: demo_paths)
  assume "fst (os_Open (demo_env ids D) tbl ?p w) = Inr j"
  with 1 3 42 show "j = tbl t" by (auto split: if_splits)
qed

lemmas demo_run = WithNetNSPath_def Do_def containedCall_def GetNS_def
  IsNSorErr_def Set_def Close_def errorIfClosed_def exec_cmd_def log_effect_def getNSID_def
  demo_paths demo_numbers demo_globals_def NSFS_MAGIC_def PROCFS_MAGIC_def Let_def go_run cmds_not_Nil

section \<open>Commands and namespaces\<close>

text \<open>
  C12: \<open>tc\<close> runs in the container's namespace only. Applying rules to a process logs commands
  only in the namespace opened at \<open>/proc/<pid>/ns/net\<close>; without an error both commands, the
  one that installs the queueing discipline and then the one with the rules, have been run
  there and succeeded; and nothing but the world, the threads' namespaces and the log changes.
\<close>

theorem rules_applied_in_namespace:
  "\<exists>r w tbl new. applyTrafficControlRules E tid pid rules s =
       (r, s\<lparr>world := w, thread_ns := tbl, trace := trace s @ new\<rparr>)
    \<and> (\<forall>e \<in> set new. \<exists>i w0 cmd ok. e = Exec i cmd ok
         \<and> fst (os_Open E (thread_ns s) (netns_path pid) w0) = Inr i)
    \<and> (\<forall>k. r = Returns (k, None) \<longrightarrow>
         (\<exists>i. new = [Exec i replace_cmd True, Exec i (change_cmd @ rules) True]))"
proof (cases rule: applyTrafficControlRules_cases [of E tid pid rules s])
  case (tc_failed e err w tbl new)
  from tc_failed(2) have "\<forall>e \<in> set new. \<exists>i w0 cmd ok. e = Exec i cmd ok
         \<and> fst (os_Open E (thread_ns s) (netns_path pid) w0) = Inr i"
    by (metis exec_log_in_namespace empty_iff list.set(1))
  with tc_failed(1) show ?thesis
    by (intro exI [of _ "Returns ([], Some e)"] exI [of _ w] exI [of _ tbl] exI [of _ new]) simp
next
  case (ran i w0 s1 q v)
  then obtain w tbl where "s1 = s\<lparr>world := w, thread_ns := tbl,
       trace := trace s @ [Exec i replace_cmd True, Exec i (change_cmd @ rules) True]\<rparr>" by blast
  with ran(1,3) show ?thesis
    by (intro exI [of _ q] exI [of _ v] exI [of _ tbl]
        exI [of _ "[Exec i replace_cmd True, Exec i (change_cmd @ rules) True]"]) auto
qed

theorem rules_applied_in_namespace_witness:
  "\<exists>i. trace (snd (applyTrafficControlRules demo_E 1 42 [''delay'', ''1000ms''] (demo_globals None))) =
     [Exec i replace_cmd True, Exec i (change_cmd @ [''delay'', ''1000ms'']) True]"
proof -
  have run: "fst (applyTrafficControlRules demo_E 1 42 [''delay'', ''1000ms''] (demo_globals None)) =
      Returns (''4026531956'', None)"
    by (simp add: applyTrafficControlRules_def demo_run)
  show ?thesis
    using rules_applied_in_namespace [of demo_E 1 42 "[''delay'', ''1000ms'']" "demo_globals None"] run
    by (auto simp: demo_globals_def)
qed

lemma maintains_ns: "keeps thread_ns m \<Longrightarrow> maintains (\<lambda>s. thread_ns s = ns) m"
  by (simp add: keeps_def maintains_def)

lemma maintains_applyTrafficControlRules:
  "kernel_rules E ns \<Longrightarrow> maintains (\<lambda>s. thread_ns s = ns) (applyTrafficControlRules E tid pid rules)"
  unfolding applyTrafficControlRules_def Let_def
  by (intro go_maintains maintains_ns) (use cmds_not_Nil in \<open>auto intro!: go_keeps\<close>)

lemma maintains_handlers:
  assumes "kernel_rules E ns"
  shows "maintains (\<lambda>s. thread_ns s = ns) (ApplyLatency E tid pid l)"
    "maintains (\<lambda>s. thread_ns s = ns) (ApplyPacketLoss E tid pid l)"
    "maintains (\<lambda>s. thread_ns s = ns) (ClearTrafficControlSettings E tid pid)"
proof -
  have cache: "keeps thread_ns (cache_update k a b)" "keeps thread_ns (getPacketLoss E pid)" for k a b
    by (intro go_keeps; simp)+
  have rnd: "keeps thread_ns (random E a b)" for a b by (intro go_keeps) simp
  note apply_rules = maintains_applyTrafficControlRules [OF assms]
  show "maintains (\<lambda>s. thread_ns s = ns) (ApplyLatency E tid pid l)"
    unfolding ApplyLatency_def Let_def
    by (intro go_maintains apply_rules maintains_ns cache)
  show "maintains (\<lambda>s. thread_ns s = ns) (ApplyPacketLoss E tid pid l)"
    unfolding ApplyPacketLoss_def Let_def
    by (intro go_maintains apply_rules maintains_ns cache rnd)
  show "maintains (\<lambda>s. thread_ns s = ns) (ClearTrafficControlSettings E tid pid)"
    unfolding ClearTrafficControlSettings_def Let_def
    by (intro go_maintains assms maintains_ns) (use cmds_not_Nil in \<open>auto intro!: go_keeps\<close>)
qed

text \<open>
  C26: the handlers leave every OS thread in the namespace it was in, provided a task's
  \<open>ns/net\<close> file shows the namespace of that task and the kernel lets a thread return to a
  namespace that some thread of the process is in.
\<close>

theorem handlers_restore_namespaces:
  assumes "kernel_rules E (thread_ns s)"
  shows "thread_ns (snd (ApplyLatency E tid pid l s)) = thread_ns s
    \<and> thread_ns (snd (ApplyPacketLoss E tid pid l s)) = thread_ns s
    \<and> thread_ns (snd (ClearTrafficControlSettings E tid pid s)) = thread_ns s"
  using maintains_handlers [OF assms] unfolding maintains_def by blast

theorem handlers_restore_namespaces_witness:
  "thread_ns (snd (ApplyPacketLoss demo_E 1 42 ''10%'' (demo_globals (Some Map.empty)))) = (\<lambda>_. 1)"
proof -
  have "kernel_rules demo_E (thread_ns (demo_globals (Some Map.empty)))"
    using demo_proc by (simp add: kernel_rules_def)
  from handlers_restore_namespaces [OF this, of 1 42 "''10%''"] show ?thesis
    by (simp add: demo_globals_def)
qed

section \<open>The cache that is never made\<close>

text \<open>\<open>main\<close> makes \<open>neworkControlStatusCache\<close> but not \<open>trafficControlStatusCache\<close>. The rules
  below follow a call from a state in which that map is nil.\<close>

definition cache_nil :: "('w, 'z) Globals_scheme \<Rightarrow> bool" where
  "cache_nil s \<longleftrightarrow> trafficControlStatusCache s = None"

lemma keeps_cache_nil_state [go_keeps]: "keeps cache_nil (cache_store k st)"
  using keeps_cache_nil by (simp add: keeps_def cache_nil_def)

lemma nil_bind:
  "keeps cache_nil m \<Longrightarrow> (\<And>x. returns_with cache_nil (g x) Q) \<Longrightarrow> returns_with cache_nil (go_bind m g) Q"
  by (rule returns_with_bind [where R = "\<lambda>_. cache_nil"])
    (auto simp: returns_with_def dest: keepsD)

lemma nil_bind_gets:
  "returns_with cache_nil (g None) Q \<Longrightarrow>
   returns_with cache_nil (go_bind (go_gets trafficControlStatusCache) g) Q"
  by (simp add: returns_with_def cache_nil_def go_run)

lemma cache_store_nil: "cache_nil s \<Longrightarrow> cache_store k st s = (Panics NilMapWrite, s)"
  by (simp add: cache_nil_def cache_store_def go_run)

lemma cache_update_nil: "cache_nil s \<Longrightarrow> cache_update k l p s = (Panics NilMapWrite, s)"
  by (simp add: cache_update_def cache_store_nil go_run) (simp add: cache_nil_def cache_store_nil)

lemma nil_seq_writes:
  "returns_with cache_nil (go_seq (cache_store k st) n) Q"
  "returns_with cache_nil (go_seq (cache_update k l p) n) Q"
  by (simp_all add: returns_with_def cache_store_nil cache_update_nil go_run)

lemma nil_option:
  "(v = None \<Longrightarrow> returns_with P m Q) \<Longrightarrow> (\<And>x. v = Some x \<Longrightarrow> returns_with P (g x) Q) \<Longrightarrow>
   returns_with P (case v of None \<Rightarrow> m | Some x \<Rightarrow> g x) Q"
  by (cases v) auto

lemma nil_prod: "(\<And>x y. returns_with P (g x y) Q) \<Longrightarrow> returns_with P (case v of (x, y) \<Rightarrow> g x y) Q"
  by (cases v) auto

lemmas nil_rules = nil_bind_gets nil_bind nil_seq_writes nil_prod

lemma nil_kept:
  "keeps cache_nil (queryInfluxDB E d c)" "keeps cache_nil (getNSID E p)"
  "keeps cache_nil (applyTrafficControlRules E tid pid rules)" "keeps cache_nil (random E a b)"
  by (intro go_keeps; simp add: cache_nil_def)+

lemma handlers_keep_nil:
  "keeps cache_nil (ApplyLatency E tid pid l)" "keeps cache_nil (ApplyPacketLoss E tid pid l)"
  "keeps cache_nil (ClearTrafficControlSettings E tid pid)"
  by (intro keeps_handlers keeps_cache_nil_state; simp add: cache_nil_def)+

lemma getStatus_nil: "returns_with cache_nil (getStatus E pid) (\<lambda>r _. snd r \<noteq> None)"
  unfolding getStatus_def
  by (intro nil_rules nil_option nil_kept go_keeps) (simp_all add: returns_with_return)

lemma getPacketLoss_nil: "returns_with cache_nil (getPacketLoss E pid) (\<lambda>r _. snd r \<noteq> None)"
  unfolding getPacketLoss_def
  by (rule returns_with_bind [OF getStatus_nil])
    (auto simp: returns_with_def go_run split: option.splits)

lemma ApplyPacketLoss_nil: "l \<noteq> [] \<Longrightarrow> returns_with cache_nil (ApplyPacketLoss E tid pid l) (\<lambda>_ _. False)"
  unfolding ApplyPacketLoss_def Let_def by simp (intro nil_rules nil_kept)

lemma ApplyLatency_nil: "l \<noteq> [] \<Longrightarrow> returns_with cache_nil (ApplyLatency E tid pid l) (\<lambda>r _. r \<noteq> None)"
  unfolding ApplyLatency_def Let_def
  by simp (rule returns_with_bind [OF getPacketLoss_nil],
    auto simp: returns_with_def go_run split: option.splits)

text \<open>
  Without the cache the controls do not work. From a state in which the cache is nil, a
  latency control never reports success and runs no command; a packet loss control never
  returns at all; and the cache is still nil afterwards.
\<close>

lemma controls_fail_without_cache:
  fixes E :: "'w env" and s :: "('w, 'z) Globals_scheme"
  assumes "trafficControlStatusCache s = None" and "l \<noteq> []"
  shows "(\<forall>s'. ApplyLatency E tid pid l s \<noteq> (Returns None, s'))
    \<and> trace (snd (ApplyLatency E tid pid l s)) = trace s
    \<and> (\<forall>r s'. ApplyPacketLoss E tid pid l s \<noteq> (Returns r, s'))
    \<and> trafficControlStatusCache (snd (ApplyLatency E tid pid l s)) = None
    \<and> trafficControlStatusCache (snd (ApplyPacketLoss E tid pid l s)) = None"
proof -
  have nil: "cache_nil s" using assms(1) by (simp add: cache_nil_def)
  obtain q s1 where g: "getPacketLoss E pid s = (q, s1)" by (cases "getPacketLoss E pid s")
  have k: "keeps trace (getPacketLoss E pid :: (('w, 'z) Globals_scheme, _) go)" by (intro go_keeps; simp)
  have t: "trace s1 = trace s" by (rule keepsD [where f = trace, OF k g])
  have err: "snd r \<noteq> None" if "q = Returns r" for r
    using returns_withD [OF getPacketLoss_nil nil] g that by blast
  have "ApplyLatency E tid pid l s = ((case q of Returns r \<Rightarrow> Returns (snd r) | Panics p \<Rightarrow> Panics p
      | Exits n \<Rightarrow> Exits n | Blocks \<Rightarrow> Blocks), s1)"
    using g err assms(2) by (cases q) (auto simp: ApplyLatency_def Let_def go_run)
  moreover have "ApplyPacketLoss E tid pid l s \<noteq> (Returns r, s')" for r s'
    using returns_withD [OF ApplyPacketLoss_nil [OF assms(2)] nil] by blast
  moreover have "cache_nil (snd (ApplyLatency E tid pid l s))" "cache_nil (snd (ApplyPacketLoss E tid pid l s))"
    using nil by (simp_all add: handlers_keep_nil [THEN keeps_snd])
  ultimately show ?thesis using t err by (auto simp: cache_nil_def split: outcome.splits)
qed

lemma controls_fail_without_cache_witness:
  "(\<forall>s'. ApplyLatency demo_E 1 42 ''2000ms'' (demo_globals None) \<noteq> (Returns None, s'))
   \<and> (\<forall>r s'. ApplyPacketLoss demo_E 1 42 ''2000ms'' (demo_globals None) \<noteq> (Returns r, s'))"
proof -
  have "trafficControlStatusCache (demo_globals None) = None" by (simp add: demo_globals_def)
  from controls_fail_without_cache [OF this, of "''2000ms''"] show ?thesis by blast
qed

end
