(* ===== verification/Handlers.thy ===== *)
theory Handlers
  imports TrafficControl_Props
begin

text \<open>
  The control handlers when the status cache exists: which command lines are run in which namespace,
  or for what reason they are not, what the handlers remember, and what they report.
\<close>

section \<open>Writing the cache\<close>

text \<open>The entry that \<open>ApplyLatency\<close> and \<open>ApplyPacketLoss\<close> leave under a namespace.\<close>

definition remembered ::
  "(string \<rightharpoonup> TrafficControlStatus) \<Rightarrow> string \<Rightarrow> string \<Rightarrow> string \<Rightarrow> string \<rightharpoonup> TrafficControlStatus" where
  "remembered m k latency loss = m(k \<mapsto>
     (case m k of None \<Rightarrow> TrafficControlStatusInit | Some st \<Rightarrow> st)
       \<lparr>tcs_latency := latency, tcs_packetLoss := loss\<rparr>)"

lemma cache_update_live:
  "trafficControlStatusCache s = Some m \<Longrightarrow>
   cache_update k l p s = (Returns (), s\<lparr>trafficControlStatusCache := Some (remembered m k l p)\<rparr>)"
  by (cases s)
    (simp add: cache_update_def cache_store_def remembered_def SetLatency_def SetPacketLoss_def go_run
      split: option.split)

lemma exec_log_fails: "exec_log ns cmds (Some e) new \<Longrightarrow> \<exists>cmd. last new = Exec ns cmd False"
  by (auto simp: exec_log_def)

section \<open>What tc is made to do\<close>

text \<open>The command lines, word by word, and the log when both have run in the namespace \<open>i\<close>.\<close>

definition tc_words :: "string \<Rightarrow> string list" where
  "tc_words action = [''tc'', ''qdisc'', action, ''dev'', ''eth0'', ''root'', ''handle'', ''1:'', ''netem'']"

definition tc_ran :: "nat \<Rightarrow> string list \<Rightarrow> effect list" where
  "tc_ran i rules = [Exec i (tc_words ''replace'') True, Exec i (tc_words ''change'' @ rules) True]"

lemma tc_commands: "replace_cmd = tc_words ''replace''" "change_cmd = tc_words ''change''"
  by code_simp+

text \<open>The namespace that the file of the process shows to the threads \<open>tbl\<close>.\<close>

definition container_ns :: "'w env \<Rightarrow> (nat \<Rightarrow> nat) \<Rightarrow> int \<Rightarrow> nat \<Rightarrow> bool" where
  "container_ns E tbl pid i \<longleftrightarrow> (\<exists>w. fst (os_Open E tbl (netns_path pid) w) = Inr i)"

definition cmd_fails :: "'w env \<Rightarrow> nat \<Rightarrow> string list \<Rightarrow> bool" where
  "cmd_fails E i cmd \<longleftrightarrow> (\<exists>w. fst (exec_Command E i cmd w) \<noteq> None)"

text \<open>The log when the rules were not applied, with the reason: the namespace cannot be entered, or one of the
  commands, which were run there one after the other, has failed.\<close>

definition tc_fails :: "'w env \<Rightarrow> nat \<Rightarrow> (nat \<Rightarrow> nat) \<Rightarrow> int \<Rightarrow> string list \<Rightarrow> effect list \<Rightarrow> bool" where
  "tc_fails E tid tbl pid rules new \<longleftrightarrow>
     (let a = tc_words ''replace''; b = tc_words ''change'' @ rules in
      new = [] \<and> \<not> ns_works E tid (netns_path pid)
    \<or> (\<exists>i. container_ns E tbl pid i \<and>
         (new = [Exec i a False] \<and> cmd_fails E i a \<or> new = [Exec i a True, Exec i b False] \<and> cmd_fails E i b)))"

lemma tc_ran_cmds: "tc_ran i rules = [Exec i replace_cmd True, Exec i (change_cmd @ rules) True]"
  by (simp add: tc_ran_def tc_commands)

lemma tc_fails_cmds: "tc_fails E tid tbl pid rules new \<longleftrightarrow>
    new = [] \<and> \<not> ns_works E tid (netns_path pid)
  \<or> (\<exists>i. container_ns E tbl pid i \<and>
       (new = [Exec i replace_cmd False] \<and> cmd_fails E i replace_cmd
      \<or> new = [Exec i replace_cmd True, Exec i (change_cmd @ rules) False] \<and> cmd_fails E i (change_cmd @ rules)))"
  by (simp add: tc_fails_def tc_commands Let_def)

lemma tc_fails_not_ran: "tc_fails E tid tbl pid rules new \<Longrightarrow> new \<noteq> tc_ran i rules"
  by (auto simp: tc_fails_cmds tc_ran_cmds)

lemma exec_two:
  assumes "a \<noteq> []" and "b \<noteq> []"
  shows "\<exists>x w new. exec_cmds E [a, b] t s = (Returns x, s\<lparr>world := w, trace := trace s @ new\<rparr>)
    \<and> (x = None \<and> new = [Exec (thread_ns s t) a True, Exec (thread_ns s t) b True]
     \<or> x \<noteq> None \<and> new = [Exec (thread_ns s t) a False] \<and> cmd_fails E (thread_ns s t) a
     \<or> x \<noteq> None \<and> new = [Exec (thread_ns s t) a True, Exec (thread_ns s t) b False] \<and> cmd_fails E (thread_ns s t) b)"
proof -
  let ?i = "thread_ns s t"
  obtain e w where a: "exec_Command E ?i a (world s) = (e, w)" by (cases "exec_Command E ?i a (world s)")
  obtain e' w' where b: "exec_Command E ?i b w = (e', w')" by (cases "exec_Command E ?i b w")
  from a b have fails: "e \<noteq> None \<Longrightarrow> cmd_fails E ?i a" "e' \<noteq> None \<Longrightarrow> cmd_fails E ?i b"
    unfolding cmd_fails_def by (metis fst_conv)+
  show ?thesis
  proof (cases e)
    case (Some err)
    with assms a fails(1) show ?thesis
      by (intro exI [of _ "Some (Errorf ''failed to execute command: %v'' [ArgE err])"] exI [of _ w]
          exI [of _ "[Exec ?i a False]"]) (simp add: exec_cmd_def log_effect_def go_run)
  next
    case None
    let ?x = "map_option (\<lambda>err. Errorf ''failed to execute command: %v'' [ArgE err]) e'"
    from None assms a b have "exec_cmds E [a, b] t s =
        (Returns ?x, s\<lparr>world := w', trace := trace s @ [Exec ?i a True, Exec ?i b (e' = None)]\<rparr>)"
      by (cases e') (simp_all add: exec_cmd_def log_effect_def go_run)
    with fails(2) show ?thesis
      by (intro exI [of _ ?x] exI [of _ w'] exI [of _ "[Exec ?i a True, Exec ?i b (e' = None)]"]) (cases e'; simp)
  qed
qed

text \<open>When the namespace can be entered, the first of the commands is run.\<close>

lemma ns_works_logs:
  fixes s :: "('w, 'z) kernel_scheme"
  assumes "ns_works E tid p" and "a \<noteq> []" and "b \<noteq> []" and "WithNetNSPath E tid p (exec_cmds E [a, b]) s = (r, s')"
  shows "trace s' \<noteq> trace s"
proof -
  have ret: "\<exists>x sb. exec_cmds E [a, b] t sa = (Returns x, sb)" for t and sa :: "('w, 'z) kernel_scheme"
    using exec_two [OF assms(2,3), of E t sa] by blast
  from WithNetNSPath_runs [where f = "exec_cmds E [a, b]" and s = s, OF ret assms(1)] assms(4)
  obtain i t v x sb w tbl where
    run: "exec_cmds E [a, b] t (s\<lparr>world := v, thread_ns := (thread_ns s)(t := i)\<rparr>) = (Returns x, sb)" and
    s': "s' = sb\<lparr>world := w, thread_ns := tbl\<rparr>" unfolding runs_in_def by auto
  from exec_two [OF assms(2,3), of E t "s\<lparr>world := v, thread_ns := (thread_ns s)(t := i)\<rparr>"] run
  have "\<exists>new. new \<noteq> [] \<and> trace sb = trace s @ new" by auto
  with s' show ?thesis by auto
qed

text \<open>Every call of \<open>WithNetNSPath\<close> with the two commands applies the rules or fails for a reason.\<close>

lemma WithNetNSPath_tc:
  fixes s :: "('w, 'z) kernel_scheme"
  shows "\<exists>x w tbl new. WithNetNSPath E tid (netns_path pid) (exec_cmds E [replace_cmd, change_cmd @ rules]) s =
      (Returns x, s\<lparr>world := w, thread_ns := tbl, trace := trace s @ new\<rparr>)
    \<and> (x = None \<and> (\<exists>i. container_ns E (thread_ns s) pid i \<and> new = tc_ran i rules)
       \<or> x \<noteq> None \<and> tc_fails E tid (thread_ns s) pid rules new)"
proof -
  let ?f = "exec_cmds E [replace_cmd, change_cmd @ rules]" and ?p = "netns_path pid"
  have ret: "\<exists>x sb. ?f t sa = (Returns x, sb)" for t and sa :: "('w, 'z) kernel_scheme"
    using exec_two [OF cmds_not_Nil, of E rules t sa] by blast
  have nothing_run: ?thesis if W: "WithNetNSPath E tid ?p ?f s = (Returns (Some e), s\<lparr>world := w\<rparr>)" for e w
  proof -
    have "\<not> ns_works E tid ?p" using ns_works_logs [OF _ cmds_not_Nil W] by auto
    then have "tc_fails E tid (thread_ns s) pid rules []" by (simp add: tc_fails_cmds)
    with W show ?thesis
      by (intro exI [of _ "Some e"] exI [of _ w] exI [of _ "thread_ns s"] exI [of _ "[]"]) simp
  qed
  show ?thesis
  proof (cases rule: WithNetNSPath_outcome [where E = E and tid = tid and p = ?p and s = s and f = ?f, OF ret])
    case (1 e w)
    then show ?thesis by (rule nothing_run)
  next
    case (2 i w0)
    have i: "container_ns E (thread_ns s) pid i" using 2(1) unfolding container_ns_def by blast
    from 2(2) show ?thesis
    proof (cases rule: ns_outcome.cases)
      case (not_run s' w e)
      then have "WithNetNSPath E tid ?p ?f s = (Returns (Some e), s\<lparr>world := w\<rparr>)" by simp
      then show ?thesis by (rule nothing_run)
    next
      case (ran t wo j sa wa x sb tbl s' wb)
      from exec_two [OF cmds_not_Nil, of E rules t sa] ran(4) obtain u new where
        sb: "sb = sa\<lparr>world := u, trace := trace sa @ new\<rparr>" and
        new: "x = None \<and> new = [Exec i replace_cmd True, Exec i (change_cmd @ rules) True]
          \<or> x \<noteq> None \<and> new = [Exec i replace_cmd False] \<and> cmd_fails E i replace_cmd
          \<or> x \<noteq> None \<and> new = [Exec i replace_cmd True, Exec i (change_cmd @ rules) False] \<and> cmd_fails E i (change_cmd @ rules)"
        using ran(3) by auto
      from new i have "x = None \<and> (\<exists>i. container_ns E (thread_ns s) pid i \<and> new = tc_ran i rules)
          \<or> x \<noteq> None \<and> tc_fails E tid (thread_ns s) pid rules new"
        unfolding tc_ran_cmds tc_fails_cmds by blast
      with ran sb show ?thesis
        by (intro exI [of _ x] exI [of _ wb] exI [of _ tbl] exI [of _ new]) simp
    qed
  qed
qed

lemma applyTrafficControlRules_log:
  fixes E :: "'a env" and s :: "('a, 'b) kernel_scheme"
  assumes "applyTrafficControlRules E tid pid rules s = (q, s')" and "trace s' = trace s @ new"
  shows "(\<exists>i. container_ns E (thread_ns s) pid i \<and> new = tc_ran i rules) \<or> tc_fails E tid (thread_ns s) pid rules new"
proof -
  from WithNetNSPath_tc [of E tid pid rules s] obtain x w tbl log where
    W: "WithNetNSPath E tid (netns_path pid) (exec_cmds E [replace_cmd, change_cmd @ rules]) s =
      (Returns x, s\<lparr>world := w, thread_ns := tbl, trace := trace s @ log\<rparr>)" and
    log: "(\<exists>i. container_ns E (thread_ns s) pid i \<and> log = tc_ran i rules) \<or> tc_fails E tid (thread_ns s) pid rules log"
    by blast
  define rest :: "(('a, 'b) kernel_scheme, string \<times> error option) go" where
    "rest = (case x of
        Some err \<Rightarrow> go_return ([], Some (Errorf ''failed to perform traffic control: %v'' [ArgE err]))
      | None \<Rightarrow> go_bind (getNSID E (netns_path pid)) (\<lambda>(netNSID, err). case err of
            Some _ \<Rightarrow> go_return ([], err) | None \<Rightarrow> go_return (netNSID, None)))"
  have "keeps trace rest" unfolding rest_def by (intro go_keeps) simp
  moreover from assms(1) W have "rest (s\<lparr>world := w, thread_ns := tbl, trace := trace s @ log\<rparr>) = (q, s')"
    by (simp add: applyTrafficControlRules_def rest_def Let_def go_bind_simps)
  ultimately have "trace s' = trace s @ log" by (auto dest: keepsD)
  with assms(2) log show ?thesis by simp
qed

text \<open>Rules applied and then remembered, as both handlers end.\<close>

lemma apply_and_remember:
  fixes E :: "'w env" and s :: "('w, 'z) Globals_scheme"
  assumes m: "trafficControlStatusCache s = Some m"
    and run: "go_bind (applyTrafficControlRules E tid pid rules) (\<lambda>(netNSID, _).
        go_seq (cache_update netNSID l p) (go_return None)) s = (r, s')"
  obtains
    (failed) new where "r = Returns (None :: error option)" "trace s' = trace s @ new"
      "tc_fails E tid (thread_ns s) pid rules new"
      "trafficControlStatusCache s' = Some (remembered m [] l p)"
  | (no_id) i where "r = Returns (None :: error option)"
      "trace s' = trace s @ tc_ran i rules" "container_ns E (thread_ns s) pid i"
      "\<exists>w err. fst (os_Readlink E (netns_path pid) w) = Inl err"
      "trafficControlStatusCache s' = Some (remembered m [] l p)"
  | (short_id) i where "r = Panics SliceOutOfRange"
      "trace s' = trace s @ tc_ran i rules" "container_ns E (thread_ns s) pid i"
      "\<exists>w link. fst (os_Readlink E (netns_path pid) w) = Inr link \<and> length link < 6"
      "trafficControlStatusCache s' = Some m"
  | (applied) i link where "r = Returns (None :: error option)"
      "trace s' = trace s @ tc_ran i rules" "container_ns E (thread_ns s) pid i"
      "\<exists>w. fst (os_Readlink E (netns_path pid) w) = Inr link \<and> 6 \<le> length link"
      "trafficControlStatusCache s' = Some (remembered m (drop 5 (butlast link)) l p)"
proof (cases rule: applyTrafficControlRules_cases [of E tid pid rules s])
  case (tc_failed e err w tbl new)
  have "new \<noteq> tc_ran i rules" for i
    using tc_failed(2) by (auto simp: tc_ran_cmds dest: exec_log_fails)
  with applyTrafficControlRules_log [OF tc_failed(1)] have "tc_fails E tid (thread_ns s) pid rules new" by auto
  then show thesis
    using tc_failed(1) run by (intro failed [of new]) (auto simp: go_run cache_update_live [where m = m] m)
next
  case (ran i w0 s1 q v)
  obtain w tbl where s1: "s1 = s\<lparr>world := w, thread_ns := tbl, trace := trace s @ tc_ran i rules\<rparr>"
    using ran(2) unfolding tc_ran_cmds by blast
  have i: "container_ns E (thread_ns s) pid i" using ran(1) unfolding container_ns_def by blast
  have c: "trafficControlStatusCache (s1\<lparr>world := v\<rparr>) = Some m" by (simp add: s1 m)
  note run' = run [unfolded go_bind_eval ran(3)]
  from ran(4) show thesis
  proof (elim disjE exE conjE)
    fix e err
    assume "q = Returns ([], Some e)" "fst (os_Readlink E (netns_path pid) (world s1)) = Inl err"
    with run' c i show thesis
      by (intro no_id [of i]) (auto simp: go_run cache_update_live [where m = m] m s1)
  next
    fix link
    assume "q = Panics SliceOutOfRange" "fst (os_Readlink E (netns_path pid) (world s1)) = Inr link"
      "length link < 6"
    with run' c i show thesis by (intro short_id [of i]) (auto simp: s1)
  next
    fix link
    assume "q = Returns (drop 5 (butlast link), None)"
      "fst (os_Readlink E (netns_path pid) (world s1)) = Inr link" "6 \<le> length link"
    with run' c i show thesis
      by (intro applied [of i link]) (auto simp: go_run cache_update_live [where m = m] m s1)
  qed
qed

section \<open>The handlers\<close>

definition latency_rules :: "string \<Rightarrow> string \<Rightarrow> string list" where
  "latency_rules latency loss = Fields (''delay '' @ latency) @
     (if loss = ''-'' then [] else Fields (''loss '' @ loss))"

definition link_is :: "'w env \<Rightarrow> int \<Rightarrow> string \<Rightarrow> bool" where
  "link_is E pid k \<longleftrightarrow> (\<forall>w. fst (os_Readlink E (netns_path pid) w) = Inr (''net:['' @ k @ '']''))"

lemma getNSID_link:
  "link_is E pid k \<Longrightarrow> \<exists>w. getNSID E (netns_path pid) s = (Returns (k, None), s\<lparr>world := w\<rparr>)"
  by (cases rule: getNSID_cases [of E "netns_path pid" s]) (auto simp: link_is_def butlast_append)

lemma getPacketLoss_cached:
  fixes s :: "('w, 'z) Globals_scheme"
  assumes "link_is E pid k" and "trafficControlStatusCache s = Some m" and "m k = Some st"
  shows "\<exists>w. getPacketLoss E pid s = (Returns (tcs_packetLoss st, None), s\<lparr>world := w\<rparr>)"
proof -
  obtain w where "getNSID E (netns_path pid) s = (Returns (k, None), s\<lparr>world := w\<rparr>)"
    using getNSID_link [OF assms(1), of s] by blast
  with assms(2,3) show ?thesis
    by (intro exI [of _ w]) (simp add: getPacketLoss_def getStatus_def go_run)
qed

text \<open>
  C13: a latency control on a container whose status is cached. Either \<open>tc\<close> is run twice in the
  container's namespace, first to install the queueing discipline and then to set the delay and
  the cached packet loss, both commands succeed, and the entry of that namespace keeps its pod and
  its packet loss and has the new latency. Or the rules were not applied, for one of two reasons:
  \<open>tc\<close> was run there and a command failed, or the namespace could not be entered; then the entry
  of the container is left as it was and the settings are remembered under the empty namespace ID
  instead. The control reports success in every case.
\<close>

theorem latency_control:
  fixes E :: "'w env" and s :: "('w, 'z) Globals_scheme"
  assumes link: "link_is E pid k" and c: "trafficControlStatusCache s = Some m" "m k = Some st"
    and "latency \<noteq> []"
  shows "\<exists>s' new. ApplyLatency E tid pid latency s = (Returns None, s') \<and> trace s' = trace s @ new
    \<and> ((\<exists>i. container_ns E (thread_ns s) pid i \<and> new = tc_ran i (latency_rules latency (tcs_packetLoss st)))
         \<and> trafficControlStatusCache s' = Some (m(k \<mapsto> st\<lparr>tcs_latency := latency\<rparr>))
       \<or> tc_fails E tid (thread_ns s) pid (latency_rules latency (tcs_packetLoss st)) new
         \<and> trafficControlStatusCache s' = Some (remembered m [] latency (tcs_packetLoss st)))"
proof -
  let ?p = "tcs_packetLoss st"
  let ?rules = "latency_rules latency ?p"
  obtain w where g: "getPacketLoss E pid s = (Returns (?p, None), s\<lparr>world := w\<rparr>)"
    using getPacketLoss_cached [OF link c] by blast
  let ?run = "go_bind (applyTrafficControlRules E tid pid ?rules) (\<lambda>(netNSID, _).
        go_seq (cache_update netNSID latency ?p) (go_return (None :: error option))) (s\<lparr>world := w\<rparr>)"
  have a: "ApplyLatency E tid pid latency s = ?run"
    using assms(4) by (simp add: ApplyLatency_def Let_def go_bind_simps(1) [where m = "getPacketLoss E pid" and s = s, OF g] latency_rules_def)
  obtain r s' where run: "?run = (r, s')" by (cases ?run)
  have m: "trafficControlStatusCache (s\<lparr>world := w\<rparr>) = Some m" using c by simp
  have st: "st\<lparr>tcs_latency := latency, tcs_packetLoss := ?p\<rparr> = st\<lparr>tcs_latency := latency\<rparr>" by simp
  from m run show ?thesis
  proof (cases rule: apply_and_remember)
    case (failed new)
    with a run show ?thesis by (intro exI [of _ s'] exI [of _ new]) simp
  next
    case (no_id i)
    with link show ?thesis by (auto simp: link_is_def)
  next
    case (short_id i)
    with link show ?thesis by (auto simp: link_is_def)
  next
    case (applied i l)
    with link c st have "trafficControlStatusCache s' = Some (m(k \<mapsto> st\<lparr>tcs_latency := latency\<rparr>))"
      by (auto simp: link_is_def remembered_def butlast_append)
    with a run applied show ?thesis
      by (intro exI [of _ s'] exI [of _ "tc_ran i ?rules"]) auto
  qed
qed

lemma demo_works: "ns_works demo_E 1 (netns_path 42)"
  by (simp add: ns_works_def opens_def NSFS_MAGIC_def demo_paths demo_numbers)

lemma demo_tc:
  "tc_fails demo_E 1 tbl 42 rules new \<longleftrightarrow> False"
  "container_ns demo_E tbl 42 i \<longleftrightarrow> i = 7"
  using demo_works by (auto simp: tc_fails_def cmd_fails_def container_ns_def demo_paths demo_env_def)

lemmas demo_tc' = demo_tc demo_tc [unfolded One_nat_def]

theorem latency_control_witness:
  "\<exists>s'. ApplyLatency demo_E 1 42 ''2000ms'' (demo_globals (Some [''4026531956'' \<mapsto> TrafficControlStatusInit\<lparr>tcs_packetLoss := ''10%''\<rparr>]))
      = (Returns None, s')
    \<and> trace s' = [Exec 7 (tc_words ''replace'') True, Exec 7 (tc_words ''change'' @ [''delay'', ''2000ms'', ''loss'', ''10%'']) True]
    \<and> trafficControlStatusCache s' =
        Some [''4026531956'' \<mapsto> TrafficControlStatusInit\<lparr>tcs_packetLoss := ''10%'', tcs_latency := ''2000ms''\<rparr>]"
proof -
  let ?st = "TrafficControlStatusInit\<lparr>tcs_packetLoss := ''10%''\<rparr>"
  let ?m = "[''4026531956'' \<mapsto> ?st]"
  have "link_is demo_E 42 ''4026531956''" by (simp add: link_is_def demo_paths)
  moreover have "latency_rules ''2000ms'' ''10%'' = [''delay'', ''2000ms'', ''loss'', ''10%'']" by code_simp
  ultimately show ?thesis
    using latency_control [where E = demo_E and pid = 42 and k = "''4026531956''" and s = "demo_globals (Some ?m)" and m = ?m
        and st = ?st and latency = "''2000ms''" and tid = 1]
    by (auto simp: demo_tc' tc_ran_def demo_globals_def)
qed

text \<open>\<open>rand.Intn\<close> as documented.\<close>

definition rand_spec :: "'w env \<Rightarrow> bool" where
  "rand_spec E \<longleftrightarrow> (\<forall>seed n w. 0 < n \<longrightarrow> 0 \<le> fst (rand_Intn E seed n w) \<and> fst (rand_Intn E seed n w) < n)"

lemma random_run:
  assumes "rand_spec E" and "lo < hi"
  obtains v w where "random E lo hi s = (Returns v, s\<lparr>world := w\<rparr>)" "lo \<le> v" "v < hi"
proof -
  obtain t w1 where t: "time_Now E (world s) = (t, w1)" by (cases "time_Now E (world s)")
  obtain v w2 where v: "rand_Intn E (t div 1000000000) (hi - lo) w1 = (v, w2)"
    by (cases "rand_Intn E (t div 1000000000) (hi - lo) w1")
  have "0 < hi - lo" using assms(2) by simp
  with assms(1) v have "0 \<le> v" "v < hi - lo" unfolding rand_spec_def by (metis fst_conv)+
  with t v assms(2) show thesis
    by (intro that [of "v + lo" w2]) (simp_all add: random_def go_run)
qed

definition loss_rules :: "string \<Rightarrow> int \<Rightarrow> string list" where
  "loss_rules loss v = Fields (''loss '' @ loss) @ [''delay'', Itoa v]"

lemma Fields_delay: "Fields (''delay '' @ Itoa v) = [''delay'', Itoa v]"
  using Fields_Cons [of "''delay''" "Itoa v"] Fields_word [of "Itoa v"] Itoa_plain
  by (simp add: plain_char_def)

text \<open>The delay that \<open>random(700, 34000)\<close> makes up: the generator is seeded with the time in seconds.\<close>

definition made_up_delay :: "'w env \<Rightarrow> 'w \<Rightarrow> int" where
  "made_up_delay E w = 700 + (let (t, v) = time_Now E w in fst (rand_Intn E (t div 1000000000) 33300 v))"

lemma random_delay: "\<exists>w. random E 700 34000 s = (Returns (made_up_delay E (world s)), s\<lparr>world := w\<rparr>)"
proof -
  obtain t v where "time_Now E (world s) = (t, v)" by (cases "time_Now E (world s)")
  then show ?thesis
    by (intro exI [of _ "snd (rand_Intn E (t div 1000000000) 33300 v)"])
      (simp add: random_def made_up_delay_def go_run split: prod.split)
qed

lemma made_up_delay_range: "rand_spec E \<Longrightarrow> 700 \<le> made_up_delay E w \<and> made_up_delay E w < 34000"
  by (cases "time_Now E w") (simp add: made_up_delay_def rand_spec_def)



lemma ClearTrafficControlSettings_cases:
  fixes E :: "'w env" and s :: "('w, 'z) Globals_scheme"
  obtains
    (fails) e new w tbl where "ClearTrafficControlSettings E tid pid s =
        (Returns (Some e), s\<lparr>world := w, thread_ns := tbl, trace := trace s @ new\<rparr>)"
  | (panics) i w tbl where "ClearTrafficControlSettings E tid pid s =
        (Panics SliceOutOfRange, s\<lparr>world := w, thread_ns := tbl, trace := trace s @ [Exec i replace_cmd True]\<rparr>)"
  | (clears) i link w0 w1 w tbl where
      "fst (os_Open E (thread_ns s) (netns_path pid) w0) = Inr i"
      "fst (os_Readlink E (netns_path pid) w1) = Inr link" "6 \<le> length link"
      "ClearTrafficControlSettings E tid pid s =
        (Returns None, s\<lparr>world := w, thread_ns := tbl, trace := trace s @ [Exec i replace_cmd True],
           trafficControlStatusCache := gomap_delete (drop 5 (butlast link)) (trafficControlStatusCache s)\<rparr>)"
proof -
  have ne: "\<forall>c \<in> set [replace_cmd]. c \<noteq> []" using cmds_not_Nil by auto
  obtain x w tbl new where W: "WithNetNSPath E tid (netns_path pid) (exec_cmds E [replace_cmd]) s =
      (Returns x, s\<lparr>world := w, thread_ns := tbl, trace := trace s @ new\<rparr>)"
    and n: "x \<noteq> None \<and> new = [] \<or>
       (\<exists>i w0. fst (os_Open E (thread_ns s) (netns_path pid) w0) = Inr i \<and> exec_log i [replace_cmd] x new)"
    using WithNetNSPath_exec [OF ne, where E = E and tid = tid and p = "netns_path pid" and s = s]
    by (elim exE conjE)
  let ?s1 = "s\<lparr>world := w, thread_ns := tbl, trace := trace s @ new\<rparr>"
  note C = ClearTrafficControlSettings_def Let_def go_bind_eval W
  show thesis
  proof (cases x)
    case (Some e)
    then show ?thesis by (intro fails) (simp add: C go_run)
  next
    case None
    with n obtain i w0 where i: "fst (os_Open E (thread_ns s) (netns_path pid) w0) = Inr i"
      and new: "new = [Exec i replace_cmd True]"
      by (auto simp: exec_log_def)
    show ?thesis
    proof (cases rule: getNSID_cases [of E "netns_path pid" ?s1])
      case (fails e v)
      with None show ?thesis by (intro that(1) [where w = v and tbl = tbl and new = new]) (simp add: C go_run)
    next
      case (panics l v)
      with None new show ?thesis by (intro that(2) [where i = i and w = v and tbl = tbl]) (simp add: C go_run)
    next
      case (ok l v)
      with None new show ?thesis by (intro that(3) [where w = v and tbl = tbl, OF i ok(2,3)]) (simp add: C go_run)
    qed
  qed
qed

text \<open>
  C29: clearing. The handler reports success only when it has reset the queueing discipline in
  the container's namespace, with one command, and dropped the namespace's entry from the
  cache, whether or not the cache was ever made; in every other case, a panic on a link that is
  too short included, the cache is what it was.
\<close>

theorem clear_control:
  "\<exists>r s'. ClearTrafficControlSettings E tid pid s = (r, s') \<and> containers s' = containers s
    \<and> (r = Returns None \<longrightarrow> (\<exists>i w w' link. trace s' = trace s @ [Exec i replace_cmd True]
         \<and> fst (os_Open E (thread_ns s) (netns_path pid) w) = Inr i
         \<and> fst (os_Readlink E (netns_path pid) w') = Inr link \<and> 6 \<le> length link
         \<and> trafficControlStatusCache s' = gomap_delete (drop 5 (butlast link)) (trafficControlStatusCache s)))
    \<and> (r \<noteq> Returns None \<longrightarrow> trafficControlStatusCache s' = trafficControlStatusCache s)"
proof (cases rule: ClearTrafficControlSettings_cases [of E tid pid s])
  case (clears i link w0 w1 w tbl)
  then show ?thesis by auto
qed simp_all

theorem clear_control_witness:
  "gomap_get (trafficControlStatusCache (snd (ClearTrafficControlSettings demo_E 1 42
       (demo_globals (Some [''4026531956'' \<mapsto> TrafficControlStatusInit]))))) ''4026531956'' = None"
proof -
  let ?s = "demo_globals (Some [''4026531956'' \<mapsto> TrafficControlStatusInit])"
  have "fst (ClearTrafficControlSettings demo_E 1 42 ?s) = Returns None"
    by (simp add: ClearTrafficControlSettings_def demo_run)
  with clear_control [of demo_E 1 42 ?s] show ?thesis
    by (auto simp: demo_globals_def demo_paths)
qed

end
