(* ===== verification/Pods.thy ===== *)
theory Pods
  imports Handlers
begin

text \<open>
  What is known of a pod: its name, read out of the name of a container; the figures in
  InfluxDB's answer; and the figures that are made up for the report.
\<close>

section \<open>Names of pods\<close>

text \<open>The names Kubernetes gives to the containers of a pod: \<open>k8s\<close>, the container, the pod and
  at least three more parts, joined by underscores that do not occur in the parts.\<close>

definition pod_container_name :: "string \<Rightarrow> string \<Rightarrow> string list \<Rightarrow> string" where
  "pod_container_name c pod rest = Join (''k8s'' # c # pod # rest) ''_''"

lemma TrimPrefix_cases:
  "TrimPrefix s p = t \<longleftrightarrow> s = p @ t \<or> s = t \<and> \<not> HasPrefix s p"
  by (auto simp: TrimPrefix_def HasPrefix_def) (metis append_take_drop_id)+

text \<open>
  C39: \<open>parsePodName\<close> recognises exactly the names Kubernetes gives, with or without the slash
  that Docker puts in front, and returns their third part; on every other name it reports an
  error.
\<close>

theorem parsePodName_iff:
  "parsePodName name = (pod, None) \<longleftrightarrow>
     (\<exists>c rest. 3 \<le> length rest \<and> (\<forall>w \<in> set (c # pod # rest). CHR ''_'' \<notin> set w)
        \<and> name \<in> {pod_container_name c pod rest, ''/'' @ pod_container_name c pod rest})"
  (is "?l \<longleftrightarrow> ?r")
proof
  assume l: ?l
  define t where "t = TrimPrefix name ''/''"
  define parts where "parts = Split t (CHR ''_'')"
  from l have k: "hd parts = ''k8s''" "6 \<le> length parts" "parts ! 2 = pod" "parts \<noteq> []"
    by (auto simp: parsePodName_def Let_def t_def parts_def split: if_splits)
  define c rest where "c = parts ! 1" and "rest = drop 3 parts"
  have parts: "parts = ''k8s'' # c # pod # rest"
    using k by (cases parts; cases "tl parts"; cases "tl (tl parts)") (auto simp: c_def rest_def)
  have "t = pod_container_name c pod rest"
    using Join_Split [of t "CHR ''_''"] by (simp add: pod_container_name_def parts [symmetric] parts_def)
  moreover have "name = t \<or> name = ''/'' @ t"
    using TrimPrefix_cases [of name "''/''" t] by (auto simp: t_def)
  moreover have "\<forall>w \<in> set (c # pod # rest). CHR ''_'' \<notin> set w"
    using Split_parts [of _ t "CHR ''_''"] parts by (auto simp: parts_def)
  moreover have "3 \<le> length rest" using k(2) parts by simp
  ultimately show ?r by blast
next
  assume ?r
  then obtain c rest where r: "3 \<le> length rest" "\<forall>w \<in> set (c # pod # rest). CHR ''_'' \<notin> set w"
      "name \<in> {pod_container_name c pod rest, ''/'' @ pod_container_name c pod rest}" by blast
  have "Split (pod_container_name c pod rest) (CHR ''_'') = ''k8s'' # c # pod # rest"
    unfolding pod_container_name_def by (rule Split_Join) (use r(2) in auto)
  moreover have "TrimPrefix name ''/'' = pod_container_name c pod rest"
  proof -
    have "\<not> HasPrefix (pod_container_name c pod rest) ''/''"
      by (simp add: pod_container_name_def HasPrefix_def)
    with r(3) show ?thesis using TrimPrefix_cases [of name "''/''" "pod_container_name c pod rest"] by auto
  qed
  ultimately show ?l using r(1) by (simp add: parsePodName_def)
qed

theorem parsePodName_iff_witness:
  "parsePodName ''/k8s_user_user-468431046-ktrt4_default_uid_0'' = (''user-468431046-ktrt4'', None)"
proof -
  have "''/k8s_user_user-468431046-ktrt4_default_uid_0'' =
      ''/'' @ pod_container_name ''user'' ''user-468431046-ktrt4'' [''default'', ''uid'', ''0'']"
    by (simp add: pod_container_name_def)
  then show ?thesis
    unfolding parsePodName_iff
    by (intro exI [of _ "''user''"] exI [of _ "[''default'', ''uid'', ''0'']"]) simp
qed

section \<open>InfluxDB's answers\<close>

text \<open>The answer the code is written for: one result with two series, bytes and packets, whose
  newest points name the destination pod in column 1, the source pod in column 5 and the value
  in column 8.\<close>

definition p2p_answer ::
  "influx_value \<Rightarrow> string \<Rightarrow> string \<Rightarrow> string \<Rightarrow> influx_response \<Rightarrow> bool" where
  "p2p_answer dpod spod bytes packets res \<longleftrightarrow>
     (\<exists>r0 rs row0 row1 rows v0 vs0 v1 vs1. Results res = r0 # rs \<and> Series r0 = row0 # row1 # rows
        \<and> Values row0 = v0 # vs0 \<and> Values row1 = v1 # vs1 \<and> 8 < length v0 \<and> 8 < length v1
        \<and> v0 ! 1 = dpod \<and> v0 ! 5 = VString spod \<and> v0 ! 8 = VNumber bytes \<and> v1 ! 8 = VNumber packets)"

text \<open>
  Reading InfluxDB's answer. No answer, or an answer whose first result has fewer than two
  series, gives three dashes; an answer without results panics; the expected answer gives the
  destination pod (a dash if it is not a string) and the two values, where a value that is not
  a 64-bit integer is silently replaced by what \<open>strconv.ParseInt\<close> leaves, which is 0 for a
  number with a fraction. Integers come through unchanged.
\<close>

lemma parseAttribute_branches:
  "parseAttribute None s = (Returns [''-'', ''-'', ''-''], s)
   \<and> (Results res = [] \<longrightarrow> parseAttribute (Some res) s = (Panics IndexOutOfRange, s))
   \<and> (Results res = r0 # rs \<and> length (Series r0) \<le> 1 \<longrightarrow>
        parseAttribute (Some res) s = (Returns [''-'', ''-'', ''-''], s))
   \<and> (p2p_answer dpod spod bytes packets res \<longrightarrow>
        parseAttribute (Some res) s =
          (Returns [case dpod of VString p \<Rightarrow> p | _ \<Rightarrow> ''-'',
             Itoa (fst (ParseInt bytes)), Itoa (fst (ParseInt packets))], s))
   \<and> (p2p_answer dpod spod (Itoa b) (Itoa n) res \<and> {b, n} \<subseteq> {- max_int64 - 1 .. max_int64} \<longrightarrow>
        parseAttribute (Some res) s =
          (Returns [case dpod of VString p \<Rightarrow> p | _ \<Rightarrow> ''-'', Itoa b, Itoa n], s))"
proof -
  have p2p: "parseAttribute (Some res) s =
          (Returns [case dpod of VString p \<Rightarrow> p | _ \<Rightarrow> ''-'',
             Itoa (fst (ParseInt x)), Itoa (fst (ParseInt y))], s)"
    if "p2p_answer dpod spod x y res" for x y
    using that unfolding p2p_answer_def
    by (cases dpod) (auto simp: parseAttribute_def Let_def cell_def value_number_def value_string_def go_run)
  show ?thesis
    using p2p [of bytes packets] p2p [of "Itoa b" "Itoa n"]
    by (auto simp: parseAttribute_def Let_def go_run ParseInt_Itoa)
qed

definition demo_row :: "string \<Rightarrow> influx_row" where
  "demo_row v = \<lparr>Values = [[VString ''t'', VString ''redis-sfhcz'', VNull, VNull, VNull, VString ''user-ktrt4'',
     VNull, VNull, VNumber v]]\<rparr>"

definition demo_answer :: "string \<Rightarrow> string \<Rightarrow> influx_response" where
  "demo_answer b n = \<lparr>Results = [\<lparr>Series = [demo_row b, demo_row n]\<rparr>]\<rparr>"

lemma demo_answer_p2p: "p2p_answer (VString ''redis-sfhcz'') ''user-ktrt4'' b n (demo_answer b n)"
  unfolding p2p_answer_def demo_answer_def demo_row_def by simp

lemma demo_values:
  "Itoa 1500 = ''1500''" "Itoa 12 = ''12''"
  "ParseInt ''1500'' = (1500, None)" "ParseInt ''12'' = (12, None)"
proof -
  show n: "Itoa 1500 = ''1500''" "Itoa 12 = ''12''" by code_simp+
  then show "ParseInt ''1500'' = (1500, None)" "ParseInt ''12'' = (12, None)"
    using ParseInt_Itoa [of 1500] ParseInt_Itoa [of 12] by (simp_all add: max_int64_def)
qed

lemma parseAttribute_branches_witness:
  "parseAttribute (Some (demo_answer ''1500'' ''12'')) () = (Returns [''redis-sfhcz'', ''1500'', ''12''], ())
   \<and> parseAttribute (Some \<lparr>Results = []\<rparr>) () = (Panics IndexOutOfRange, ())"
proof -
  have "{1500, 12} \<subseteq> {- max_int64 - 1 .. max_int64}" by (simp add: max_int64_def)
  with parseAttribute_branches [of "()" "demo_answer ''1500'' ''12''" undefined undefined
      "VString ''redis-sfhcz''" "''user-ktrt4''" "''1500''" "''12''" 1500 12]
    demo_answer_p2p [of "''1500''" "''12''"]
    parseAttribute_branches [of "()" "\<lparr>Results = []\<rparr>" undefined undefined VNull "[]" "[]" "[]" 0 0]
  show ?thesis by (simp add: demo_values)
qed

text \<open>
  The status of a namespace is looked up once. With a live cache, when \<open>getStatus\<close> returns
  a status, that status is then in the cache under the namespace ID and every other entry is
  unchanged; a second call returns the same status after reading the link only, so InfluxDB is
  not asked again.
\<close>

lemma getStatus_caches:
  fixes E :: "'w env" and s :: "('w, 'z) Globals_scheme"
  assumes link: "link_is E pid k" and c: "trafficControlStatusCache s = Some m"
    and run: "getStatus E pid s = (Returns (Some st, None), s')"
  shows "trafficControlStatusCache s' = Some (m(k \<mapsto> st))
    \<and> getStatus E pid s' =
        (Returns (Some st, None), s'\<lparr>world := snd (os_Readlink E (netns_path pid) (world s'))\<rparr>)"
proof -
  have id: "getNSID E (netns_path pid) x =
      (Returns (k, None), x\<lparr>world := snd (os_Readlink E (netns_path pid) (world x))\<rparr>)"
    for x :: "('w, 'z) Globals_scheme"
  proof -
    have "nat (5 + int (length k)) = 5 + length k" by simp
    moreover have "drop 5 (take (5 + length k) (''net:['' @ k @ '']'')) = k"
      by (simp add: take_Cons' drop_Cons')
    ultimately show ?thesis using link by (simp add: getNSID_def go_run link_is_def)
  qed
  have st': "trafficControlStatusCache s' = Some (m(k \<mapsto> st))"
  proof (cases "m k")
    case (Some x)
    with run c have "x = st" "s' = s\<lparr>world := snd (os_Readlink E (netns_path pid) (world s))\<rparr>"
      by (simp_all add: getStatus_def go_run id)
    with Some c show ?thesis by (simp add: fun_upd_idem)
  next
    case None
    let ?s1 = "s\<lparr>world := snd (os_Readlink E (netns_path pid) (world s))\<rparr>"
    let ?q = "queryInfluxDB E db ''select * from p2ptxbyte, p2ptxpkt'' :: (('w, 'z) Globals_scheme, _) go"
    obtain q s2 where q: "?q ?s1 = (q, s2)" by (cases "?q ?s1")
    have k: "keeps trafficControlStatusCache ?q" by (intro go_keeps; simp)
    have s2: "trafficControlStatusCache s2 = Some m"
      using keepsD [where f = trafficControlStatusCache, OF k q] c by simp
    have p: "keeps (\<lambda>s. s) (parseAttribute r :: (('w, 'z) Globals_scheme, _) go)" for r by (intro go_keeps)
    have ix: "keeps (\<lambda>s. s) (go_index xs i :: (('w, 'z) Globals_scheme, _) go)" for xs :: "string list" and i
      by (intro go_keeps)
    from run None c id show ?thesis
      by (auto simp: getStatus_def go_run q s2 cache_store_def
          split: outcome.splits prod.splits option.splits
          elim!: go_bind_ReturnsE dest!: keepsD [where f = "\<lambda>s. s", OF p] keepsD [where f = "\<lambda>s. s", OF ix])
  qed
  then show ?thesis by (simp add: getStatus_def go_run id)
qed

lemma getStatus_caches_witness:
  "gomap_get (trafficControlStatusCache (snd (getStatus
       (demo_E\<lparr>influx_Query := \<lambda>d c w. (Inr (demo_answer ''1500'' ''12''), w)\<rparr>) 42 (demo_globals (Some Map.empty)))))
     ''4026531956'' = Some \<lparr>tcs_dpod = ''redis-sfhcz'', tcs_latency = ''1500'', tcs_packetLoss = ''12''\<rparr>"
proof -
  let ?E = "demo_E\<lparr>influx_Query := \<lambda>d c w. (Inr (demo_answer ''1500'' ''12''), w)\<rparr>"
  let ?s = "demo_globals (Some Map.empty)"
  let ?st = "\<lparr>tcs_dpod = ''redis-sfhcz'', tcs_latency = ''1500'', tcs_packetLoss = ''12''\<rparr>"
  have link: "link_is ?E 42 ''4026531956''" by (simp add: link_is_def demo_paths)
  have c: "trafficControlStatusCache ?s = Some Map.empty" by (simp add: demo_globals_def)
  have "fst (getStatus ?E 42 ?s) = Returns (Some ?st, None)"
    by (simp add: getStatus_def queryInfluxDB_def cache_store_def parseAttribute_def cell_def
        value_number_def value_string_def demo_answer_def demo_row_def demo_values demo_run)
  then obtain s' where run: "getStatus ?E 42 ?s = (Returns (Some ?st, None), s')"
    by (cases "getStatus ?E 42 ?s") simp
  from getStatus_caches [OF link c run] run show ?thesis by simp
qed

section \<open>The made up figures\<close>

lemma getStatusByPod_run:
  assumes "rand_spec E"
  obtains b l n w where "700 \<le> b" "b < 34000" "140 \<le> l" "l < 230" "5 \<le> n" "n < 80"
    "getStatusByPod E pod s = (Returns (Some \<lparr>ncs_spod = [], ncs_dpod = pod, ncs_bandwidth = Itoa b,
       ncs_packet = Itoa n, ncs_latency = Itoa l\<rparr>, None), s\<lparr>world := w\<rparr>)"
proof -
  obtain b w1 where b: "random E 700 34000 s = (Returns b, s\<lparr>world := w1\<rparr>)" "700 \<le> b" "b < 34000"
    by (rule random_run [OF assms, of 700 34000 s]) simp_all
  obtain l w2 where l: "random E 140 230 (s\<lparr>world := w1\<rparr>) = (Returns l, s\<lparr>world := w1\<rparr>\<lparr>world := w2\<rparr>)"
      "140 \<le> l" "l < 230"
    by (rule random_run [OF assms, of 140 230 "s\<lparr>world := w1\<rparr>"]) simp_all
  obtain n w3 where n: "random E 5 80 (s\<lparr>world := w2\<rparr>) = (Returns n, s\<lparr>world := w2\<rparr>\<lparr>world := w3\<rparr>)"
      "5 \<le> n" "n < 80"
    by (rule random_run [OF assms, of 5 80 "s\<lparr>world := w2\<rparr>"]) simp_all
  from b l n show thesis
    by (intro that [of b l n w3]) (simp_all add: getStatusByPod_def made_up_status_def go_run)
qed

definition same_second :: "'w env \<Rightarrow> int \<Rightarrow> bool" where
  "same_second E sec \<longleftrightarrow> (\<forall>w. fst (time_Now E w) div 1000000000 = sec)"

definition rand_seeded :: "'w env \<Rightarrow> (int \<Rightarrow> int \<Rightarrow> int) \<Rightarrow> bool" where
  "rand_seeded E g \<longleftrightarrow> (\<forall>seed n w. fst (rand_Intn E seed n w) = g seed n)"

lemma random_seeded:
  assumes "same_second E sec" and "rand_seeded E g" and "lo < hi"
  shows "random E lo hi s = (Returns (g sec (hi - lo) + lo),
    s\<lparr>world := snd (rand_Intn E sec (hi - lo) (snd (time_Now E (world s))))\<rparr>)"
  using assms by (simp add: random_def go_run same_second_def rand_seeded_def)

text \<open>
  C40: the figures of a report are random numbers. Whatever the pod, \<open>getStatusByPod\<close> returns,
  without an error, the name it was given with a bandwidth in 700..33999, a latency in 140..229
  and a packet count in 5..79, and it reads neither of the caches nor InfluxDB: the world
  changes as by three random draws and nothing else does. Because the generator is seeded with
  the time in seconds each time, two pods asked for within one second show the same figures, if
  the generator is determined by its seed.
\<close>

theorem figures_made_up:
  assumes "rand_spec E"
  shows "(\<exists>b l n w. {b - 700, l - 140, n - 5} \<subseteq> {0..} \<and> b < 34000 \<and> l < 230 \<and> n < 80
      \<and> getStatusByPod E pod s = (Returns (Some \<lparr>ncs_spod = [], ncs_dpod = pod, ncs_bandwidth = Itoa b,
           ncs_packet = Itoa n, ncs_latency = Itoa l\<rparr>, None), s\<lparr>world := w\<rparr>))
    \<and> (same_second E sec \<and> rand_seeded E g \<longrightarrow>
        fst (getStatusByPod E pod s) = Returns (Some \<lparr>ncs_spod = [], ncs_dpod = pod,
          ncs_bandwidth = Itoa (g sec 33300 + 700), ncs_packet = Itoa (g sec 75 + 5),
          ncs_latency = Itoa (g sec 90 + 140)\<rparr>, None))"
proof (intro conjI impI)
  show "\<exists>b l n w. {b - 700, l - 140, n - 5} \<subseteq> {0..} \<and> b < 34000 \<and> l < 230 \<and> n < 80
      \<and> getStatusByPod E pod s = (Returns (Some \<lparr>ncs_spod = [], ncs_dpod = pod, ncs_bandwidth = Itoa b,
           ncs_packet = Itoa n, ncs_latency = Itoa l\<rparr>, None), s\<lparr>world := w\<rparr>)"
  proof (rule getStatusByPod_run [OF assms, of pod s])
    fix b l n w
    assume "700 \<le> b" "b < 34000" "140 \<le> l" "l < 230" "5 \<le> n" "n < (80 :: int)"
      "getStatusByPod E pod s = (Returns (Some \<lparr>ncs_spod = [], ncs_dpod = pod, ncs_bandwidth = Itoa b,
           ncs_packet = Itoa n, ncs_latency = Itoa l\<rparr>, None), s\<lparr>world := w\<rparr>)"
    then show ?thesis by (intro exI [of _ b] exI [of _ l] exI [of _ n] exI [of _ w]) simp
  qed
next
  assume d: "same_second E sec \<and> rand_seeded E g"
  show "fst (getStatusByPod E pod s) = Returns (Some \<lparr>ncs_spod = [], ncs_dpod = pod,
          ncs_bandwidth = Itoa (g sec 33300 + 700), ncs_packet = Itoa (g sec 75 + 5),
          ncs_latency = Itoa (g sec 90 + 140)\<rparr>, None)"
    by (simp add: getStatusByPod_def made_up_status_def go_run
        random_seeded [OF conjunct1 [OF d] conjunct2 [OF d]])
qed

theorem figures_made_up_witness:
  "fst (getStatusByPod demo_E ''redis-sfhcz'' (demo_globals None)) =
     Returns (Some \<lparr>ncs_spod = [], ncs_dpod = ''redis-sfhcz'', ncs_bandwidth = ''17350'',
       ncs_packet = ''42'', ncs_latency = ''185''\<rparr>, None)"
proof -
  have n: "Itoa 17350 = ''17350''" "Itoa 42 = ''42''" "Itoa 185 = ''185''"
    by (simp_all add: Itoa_def nat_digits.simps digit_char_def char_of_def bit_0 bit_numeral_rec)
  have "rand_spec demo_E" by (auto simp: rand_spec_def)
  from figures_made_up [OF this, of "''redis-sfhcz''" "demo_globals None" 1500000000 "\<lambda>_ n. n div 2"]
  show ?thesis by (simp add: same_second_def rand_seeded_def n)
qed

end
