(* ===== verification/Go_Json.thy ===== *)
theory Go_Json
  imports Go_Strings
begin

text \<open>
  Package \<open>encoding/json\<close>, between Go values and JSON values (\<open>json\<close>); the texts of these are in
  \<open>Go_Json_Text\<close>.

  \<^item> Encoding: a nil slice is null, a struct is an object with the fields in the order of the
    declaration. Strings are made valid UTF-8 when they are printed and when they are read.
  \<^item> Decoding writes into an existing Go value: null leaves it alone, keys that match no field are
    skipped, a value of the wrong type is an error. Which of several errors is reported is not
    distinguished; all of them are \<open>unmarshal_error\<close>.
  \<^item> A key matches a field name up to case, with the three comparisons that the package uses.
\<close>

datatype json =
    JNull
  | JBool bool
  | JNum string
  | JStr string
  | JArr "json list"
  | JObj "(string \<times> json) list"

definition unmarshal_error :: error where
  "unmarshal_error = ExtErr ''json: cannot unmarshal value''"

section \<open>Matching keys\<close>

text \<open>\<open>fold_case\<close> clears the bit \<open>0x20\<close>, as \<open>b & caseMask\<close> does.\<close>

definition fold_case :: "char \<Rightarrow> nat" where
  "fold_case c = (let n = of_char c in if n div 32 mod 2 = 1 then n - 32 else n)"

definition is_letter :: "char \<Rightarrow> bool" where
  "is_letter c \<longleftrightarrow> 65 \<le> fold_case c \<and> fold_case c \<le> 90"

definition simpleLetterEqualFold :: "string \<Rightarrow> string \<Rightarrow> bool" where
  "simpleLetterEqualFold name key \<longleftrightarrow> map fold_case name = map fold_case key"

definition asciiEqualFold :: "string \<Rightarrow> string \<Rightarrow> bool" where
  "asciiEqualFold name key \<longleftrightarrow>
     list_all2 (\<lambda>a b. if is_letter a then fold_case a = fold_case b else a = b) name key"

text \<open>The letters K and S also match the Kelvin sign (\<open>E2 84 AA\<close>) and the long s (\<open>C5 BF\<close>).\<close>

fun equalFoldRight :: "string \<Rightarrow> string \<Rightarrow> bool" where
  "equalFoldRight [] key = (key = [])"
| "equalFoldRight (a # name) [] = False"
| "equalFoldRight (a # name) (b # key) =
     (if (of_char b :: nat) < 128 then
        (a = b \<or> is_letter a \<and> fold_case a = fold_case b) \<and> equalFoldRight name key
      else if fold_case a = 83 then HasPrefix (b # key) [CHR 0xC5, CHR 0xBF] \<and> equalFoldRight name (drop 1 key)
      else if fold_case a = 75 then HasPrefix (b # key) [CHR 0xE2, CHR 0x84, CHR 0xAA] \<and> equalFoldRight name (drop 2 key)
      else False)"

definition equal_fold :: "string \<Rightarrow> string \<Rightarrow> bool" where
  "equal_fold name key =
     (if list_ex (\<lambda>c. fold_case c = 75 \<or> fold_case c = 83) name then equalFoldRight name key
      else if list_ex (\<lambda>c. \<not> is_letter c) name then asciiEqualFold name key
      else simpleLetterEqualFold name key)"

lemma equalFoldRight_refl: "\<forall>c \<in> set name. (of_char c :: nat) < 128 \<Longrightarrow> equalFoldRight name name"
  by (induction name) auto

lemma equal_fold_refl: "\<forall>c \<in> set name. (of_char c :: nat) < 128 \<Longrightarrow> equal_fold name name"
  by (auto simp: equal_fold_def equalFoldRight_refl asciiEqualFold_def simpleLetterEqualFold_def list.rel_refl)

section \<open>Valid UTF-8\<close>

definition byte_in :: "nat \<Rightarrow> nat \<Rightarrow> char \<Rightarrow> bool" where
  "byte_in lo hi c \<longleftrightarrow> lo \<le> of_char c \<and> of_char c \<le> hi"

text \<open>The ranges of the bytes that follow a first byte, as in the tables of \<open>unicode/utf8\<close>.\<close>

definition continuation :: "char \<Rightarrow> (nat \<times> nat) list option" where
  "continuation a =
     (let c = (128, 191) in
      if byte_in 0 127 a then Some []
      else if byte_in 194 223 a then Some [c]
      else if byte_in 224 224 a then Some [(160, 191), c]
      else if byte_in 237 237 a then Some [(128, 159), c]
      else if byte_in 225 239 a then Some [c, c]
      else if byte_in 240 240 a then Some [(144, 191), c, c]
      else if byte_in 241 243 a then Some [c, c, c]
      else if byte_in 244 244 a then Some [(128, 143), c, c]
      else None)"

fun bytes_match :: "(nat \<times> nat) list \<Rightarrow> string \<Rightarrow> bool" where
  "bytes_match [] s = True"
| "bytes_match (r # rs) [] = False"
| "bytes_match (r # rs) (c # s) = (byte_in (fst r) (snd r) c \<and> bytes_match rs s)"

text \<open>\<open>rune_len s\<close> is the length of the encoded character that \<open>s\<close> starts with, 0 if there is none.\<close>

fun rune_len :: "string \<Rightarrow> nat" where
  "rune_len [] = 0"
| "rune_len (a # s) = (case continuation a of
      None \<Rightarrow> 0
    | Some rs \<Rightarrow> if bytes_match rs s then Suc (length rs) else 0)"

text \<open>What printing and reading do with a string: each byte that is not part of an encoded
  character becomes the replacement character U+FFFD.\<close>

function to_valid :: "string \<Rightarrow> string" where
  "to_valid s =
     (if s = [] then []
      else let n = rune_len s in
        if n = 0 then [CHR 0xEF, CHR 0xBF, CHR 0xBD] @ to_valid (tl s)
        else take n s @ to_valid (drop n s))"
  by pat_completeness auto
termination
  by (relation "measure length") auto

declare to_valid.simps [simp del]

lemma to_valid_Nil [simp]: "to_valid [] = []"
  by (simp add: to_valid.simps)

text \<open>The length depends only on the bytes of the character.\<close>

lemma bytes_match_take: "bytes_match rs s \<Longrightarrow> bytes_match rs (take (length rs) s @ t)"
  by (induction rs s rule: bytes_match.induct) auto

lemma rune_len_take: "rune_len s \<noteq> 0 \<Longrightarrow> rune_len (take (rune_len s) s @ t) = rune_len s"
  by (cases s) (auto split: option.splits if_splits intro: bytes_match_take)

lemma bytes_match_length: "bytes_match rs s \<Longrightarrow> length rs \<le> length s"
  by (induction rs s rule: bytes_match.induct) auto

lemma rune_len_le: "rune_len s \<le> length s"
  by (cases s) (auto split: option.splits dest: bytes_match_length)

lemma to_valid_rune:
  assumes "rune_len s \<noteq> 0"
  shows "to_valid (take (rune_len s) s @ t) = take (rune_len s) s @ to_valid t"
proof -
  have "length (take (rune_len s) s) = rune_len s" using rune_len_le [of s] by simp
  moreover from assms have "s \<noteq> []" by auto
  ultimately show ?thesis
    using assms rune_len_take [OF assms, of t] by (subst to_valid.simps) (simp add: Let_def)
qed

lemma rune_len_replacement: "rune_len [CHR 0xEF, CHR 0xBF, CHR 0xBD] = 3"
  by (simp add: continuation_def byte_in_def Let_def)

text \<open>Strings that have been made valid stay as they are.\<close>

lemma to_valid_idem [simp]: "to_valid (to_valid s) = to_valid s"
proof (induction s rule: to_valid.induct)
  case (1 s)
  show ?case
  proof (cases "s = []")
    case False
    show ?thesis
    proof (cases "rune_len s = 0")
      case True
      with 1 False have IH: "to_valid (to_valid (tl s)) = to_valid (tl s)" by simp
      have "to_valid s = [CHR 0xEF, CHR 0xBF, CHR 0xBD] @ to_valid (tl s)"
        using False True by (subst to_valid.simps) simp
      with IH to_valid_rune [of "[CHR 0xEF, CHR 0xBF, CHR 0xBD]" "to_valid (tl s)"]
      show ?thesis by (simp only: rune_len_replacement) simp
    next
      case rune: False
      with 1 False have IH: "to_valid (to_valid (drop (rune_len s) s)) = to_valid (drop (rune_len s) s)" by simp
      have "to_valid s = take (rune_len s) s @ to_valid (drop (rune_len s) s)"
        using False rune by (subst to_valid.simps) (simp add: Let_def)
      with IH to_valid_rune [OF rune] show ?thesis by simp
    qed
  qed simp
qed

text \<open>ASCII strings are valid.\<close>

lemma to_valid_ascii: "\<forall>c \<in> set s. (of_char c :: nat) < 128 \<Longrightarrow> to_valid s = s"
proof (induction s)
  case (Cons a s)
  then have "rune_len (a # s) = 1" by (simp add: continuation_def byte_in_def Let_def)
  with Cons show ?case by (subst to_valid.simps) simp
qed simp

lemma ascii_valid [simp]: "ascii s \<Longrightarrow> to_valid s = s"
  by (simp add: ascii_def list_all_iff to_valid_ascii)

section \<open>Encoding\<close>

definition encode_string :: "string \<Rightarrow> json" where
  "encode_string s = JStr s"

definition encode_bool :: "bool \<Rightarrow> json" where
  "encode_bool b = JBool b"

definition encode_int :: "int \<Rightarrow> json" where
  "encode_int i = JNum (Itoa i)"

text \<open>A slice is a list, or \<open>None\<close> for nil.\<close>

definition encode_slice :: "('a \<Rightarrow> json) \<Rightarrow> 'a list option \<Rightarrow> json" where
  "encode_slice enc xs = (case xs of None \<Rightarrow> JNull | Some ys \<Rightarrow> JArr (map enc ys))"

section \<open>Decoding\<close>

text \<open>A decoder gets the value and what is there already.\<close>

type_synonym 'a decoder = "json \<Rightarrow> 'a \<Rightarrow> error + 'a"

fun decode_string :: "string decoder" where
  "decode_string (JStr x) old = Inr x"
| "decode_string JNull old = Inr old"
| "decode_string _ old = Inl unmarshal_error"

fun decode_bool :: "bool decoder" where
  "decode_bool (JBool b) old = Inr b"
| "decode_bool JNull old = Inr old"
| "decode_bool _ old = Inl unmarshal_error"

fun decode_int :: "int decoder" where
  "decode_int (JNum t) old = (case ParseInt t of (i, None) \<Rightarrow> Inr i | _ \<Rightarrow> Inl unmarshal_error)"
| "decode_int JNull old = Inr old"
| "decode_int _ old = Inl unmarshal_error"

text \<open>The elements of an array are decoded into those of the slice that is there, as far as it
  goes, and into zero values after that.\<close>

fun decode_elements :: "'a decoder \<Rightarrow> 'a \<Rightarrow> json list \<Rightarrow> 'a list \<Rightarrow> error + 'a list" where
  "decode_elements dec zero [] olds = Inr []"
| "decode_elements dec zero (v # vs) olds =
     (case dec v (case olds of [] \<Rightarrow> zero | y # _ \<Rightarrow> y) of
        Inl e \<Rightarrow> Inl e
      | Inr x \<Rightarrow> map_sum id (Cons x) (decode_elements dec zero vs (drop 1 olds)))"

fun decode_slice :: "'a decoder \<Rightarrow> 'a \<Rightarrow> 'a list option decoder" where
  "decode_slice dec zero (JArr vs) old =
     map_sum id Some (decode_elements dec zero vs (case old of None \<Rightarrow> [] | Some ys \<Rightarrow> ys))"
| "decode_slice dec zero JNull old = Inr None"
| "decode_slice dec zero _ old = Inl unmarshal_error"

text \<open>The fields of a struct: their names and how they are decoded. The field of a key is the one
  of that name, or else the first whose name matches up to case.\<close>

type_synonym 'a fields = "(string \<times> 'a decoder) list"

definition find_field :: "'a fields \<Rightarrow> string \<Rightarrow> 'a decoder option" where
  "find_field fs key = (case map_of fs key of
      Some d \<Rightarrow> Some d
    | None \<Rightarrow> map_option snd (find (\<lambda>f. equal_fold (fst f) key) fs))"

fun decode_fields :: "'a fields \<Rightarrow> (string \<times> json) list \<Rightarrow> 'a \<Rightarrow> error + 'a" where
  "decode_fields fs [] x = Inr x"
| "decode_fields fs (kv # kvs) x = (case find_field fs (fst kv) of
      None \<Rightarrow> decode_fields fs kvs x
    | Some d \<Rightarrow> (case d (snd kv) x of
        Inl e \<Rightarrow> Inl e
      | Inr y \<Rightarrow> decode_fields fs kvs y))"

fun decode_struct :: "'a fields \<Rightarrow> 'a decoder" where
  "decode_struct fs (JObj kvs) x = decode_fields fs kvs x"
| "decode_struct fs JNull x = Inr x"
| "decode_struct fs _ x = Inl unmarshal_error"

text \<open>A field of a record, by its selector and its update.\<close>

definition field :: "('a \<Rightarrow> 'f) \<Rightarrow> ('f \<Rightarrow> 'a \<Rightarrow> 'a) \<Rightarrow> 'f decoder \<Rightarrow> 'a decoder" where
  "field get put dec v x = map_sum id (\<lambda>y. put y x) (dec v (get x))"

lemma decode_fields_append:
  "decode_fields fs (kvs @ kvs') x = (case decode_fields fs kvs x of
      Inl e \<Rightarrow> Inl e
    | Inr y \<Rightarrow> decode_fields fs kvs' y)"
  by (induction fs kvs x rule: decode_fields.induct) (auto split: option.splits sum.splits)

text \<open>A key that is a field's name selects that field.\<close>

lemma find_field_name: "map_of fs key = Some d \<Longrightarrow> find_field fs key = Some d"
  by (simp add: find_field_def)

end
