(* ===== verification/Go_Json_Text.thy ===== *)
theory Go_Json_Text
  imports Go_Json
begin

text \<open>
  The texts of package \<open>encoding/json\<close>: what \<open>Marshal\<close> and \<open>Encoder.Encode\<close> write for a value, and
  what \<open>Decoder.Decode\<close> reads from a stream of bytes.

  \<^item> Printing follows \<open>encodeState\<close>: no white space, strings with the escapes of the HTML safe mode,
    each invalid byte as \<open>\ufffd\<close>.
  \<^item> Reading follows \<open>scanner\<close>: a machine with a stack of open arrays and objects that consumes the
    bytes from left to right, and stops at the first value (what comes after it is not looked at),
    at the first byte that fits nowhere, or at the end of the bytes.

  The round trip: what was printed is read back, with its strings made valid.
\<close>

datatype 'a parsed = Parsed 'a string | Ended | Malformed

lemma map_parsed_Parsed:
  "map_parsed f p = Parsed y r \<longleftrightarrow> (\<exists>x. p = Parsed x r \<and> y = f x)"
  by (cases p) auto

section \<open>Characters\<close>

definition hex_lower :: "nat \<Rightarrow> char" where
  "hex_lower n = char_of (if n < 10 then 48 + n else 87 + n)"

definition hex_value :: "char \<Rightarrow> nat option" where
  "hex_value c = (let n = of_char c in
     if 48 \<le> n \<and> n \<le> 57 then Some (n - 48)
     else if 97 \<le> n \<and> n \<le> 102 then Some (n - 87)
     else if 65 \<le> n \<and> n \<le> 70 then Some (n - 55)
     else None)"

lemma hex_value_lower [simp]: "n < 16 \<Longrightarrow> hex_value (hex_lower n) = Some n"
  by (simp add: hex_value_def hex_lower_def Let_def)

definition replacement :: string where
  "replacement = [CHR 0xEF, CHR 0xBF, CHR 0xBD]"

text \<open>\<open>utf8.EncodeRune\<close>\<close>

definition encode_rune :: "nat \<Rightarrow> string" where
  "encode_rune r =
     (if r < 0x80 then [char_of r]
      else if r < 0x800 then [char_of (0xC0 + r div 64), char_of (0x80 + r mod 64)]
      else if 0x10FFFF < r \<or> 0xD800 \<le> r \<and> r < 0xE000 then replacement
      else if r < 0x10000 then
        [char_of (0xE0 + r div 4096), char_of (0x80 + r div 64 mod 64), char_of (0x80 + r mod 64)]
      else [char_of (0xF0 + r div 262144), char_of (0x80 + r div 4096 mod 64), char_of (0x80 + r div 64 mod 64),
        char_of (0x80 + r mod 64)])"

definition is_space :: "char \<Rightarrow> bool" where
  "is_space c \<longleftrightarrow> c = CHR 0x20 \<or> c = CHR 0x09 \<or> c = CHR 0x0D \<or> c = CHR 0x0A"

definition skip_space :: "string \<Rightarrow> string" where
  "skip_space s = dropWhile is_space s"

section \<open>Printing\<close>

definition escape_byte :: "char \<Rightarrow> string" where
  "escape_byte c =
     (if c = CHR 0x22 \<or> c = CHR 0x5C then [CHR 0x5C, c]
      else if c = CHR 0x0A then [CHR 0x5C, CHR ''n'']
      else if c = CHR 0x0D then [CHR 0x5C, CHR ''r'']
      else if c = CHR 0x09 then [CHR 0x5C, CHR ''t'']
      else if (of_char c :: nat) < 0x20 \<or> c \<in> set ''<>&'' then
        [CHR 0x5C, CHR ''u'', CHR ''0'', CHR ''0'', hex_lower (of_char c div 16), hex_lower (of_char c mod 16)]
      else [c])"

definition line_separator :: "string \<Rightarrow> bool" where
  "line_separator s \<longleftrightarrow> s = [CHR 0xE2, CHR 0x80, CHR 0xA8] \<or> s = [CHR 0xE2, CHR 0x80, CHR 0xA9]"

function escape :: "string \<Rightarrow> string" where
  "escape s =
     (if s = [] then []
      else let n = rune_len s in
        if (of_char (hd s) :: nat) < 0x80 then escape_byte (hd s) @ escape (tl s)
        else if n = 0 then [CHR 0x5C] @ ''ufffd'' @ escape (tl s)
        else if line_separator (take n s) then
          [CHR 0x5C] @ ''u202'' @ [hex_lower (of_char (s ! 2) mod 16)] @ escape (drop n s)
        else take n s @ escape (drop n s))"
  by pat_completeness auto
termination
  by (relation "measure length") auto

declare escape.simps [simp del]

definition quoted :: "string \<Rightarrow> string" where
  "quoted s = CHR 0x22 # escape s @ [CHR 0x22]"

fun json_text :: "json \<Rightarrow> string"
  and elements_text :: "json list \<Rightarrow> string"
  and members_text :: "(string \<times> json) list \<Rightarrow> string" where
  "json_text JNull = ''null''"
| "json_text (JBool b) = (if b then ''true'' else ''false'')"
| "json_text (JNum t) = t"
| "json_text (JStr s) = quoted s"
| "json_text (JArr vs) = ''['' @ elements_text vs @ '']''"
| "json_text (JObj kvs) = ''{'' @ members_text kvs @ ''}''"
| "elements_text [] = []"
| "elements_text [v] = json_text v"
| "elements_text (v # w # vs) = json_text v @ '','' @ elements_text (w # vs)"
| "members_text [] = []"
| "members_text [(k, v)] = quoted k @ '':'' @ json_text v"
| "members_text ((k, v) # m # ms) = quoted k @ '':'' @ json_text v @ '','' @ members_text (m # ms)"

section \<open>Reading\<close>

text \<open>The four hexadecimal digits of an escape, most significant first.\<close>

fun scan_hex :: "nat \<Rightarrow> nat \<Rightarrow> string \<Rightarrow> nat parsed" where
  "scan_hex 0 acc r = Parsed acc r"
| "scan_hex (Suc n) acc [] = Ended"
| "scan_hex (Suc n) acc (c # r) = (case hex_value c of
      None \<Rightarrow> Malformed
    | Some d \<Rightarrow> scan_hex n (16 * acc + d) r)"

text \<open>\<open>getu4\<close>: a complete escape at the head of the bytes.\<close>

definition next_unit :: "string \<Rightarrow> (nat \<times> string) option" where
  "next_unit s = (case s of a # b # r \<Rightarrow>
       if a = CHR 0x5C \<and> b = CHR ''u'' then
         (case scan_hex 4 0 r of Parsed u r' \<Rightarrow> Some (u, r') | _ \<Rightarrow> None)
       else None
     | _ \<Rightarrow> None)"

definition simple_escape :: "char \<Rightarrow> char option" where
  "simple_escape c =
     (if c = CHR 0x22 \<or> c = CHR 0x5C \<or> c = CHR ''/'' then Some c
      else if c = CHR ''b'' then Some (CHR 0x08)
      else if c = CHR ''f'' then Some (CHR 0x0C)
      else if c = CHR ''n'' then Some (CHR 0x0A)
      else if c = CHR ''r'' then Some (CHR 0x0D)
      else if c = CHR ''t'' then Some (CHR 0x09)
      else None)"

text \<open>What a code unit stands for: a pair of surrogates is one character, a surrogate without its
  partner is replaced.\<close>

definition decode_unit :: "nat \<Rightarrow> string \<Rightarrow> string \<times> string" where
  "decode_unit u r =
     (if 0xD800 \<le> u \<and> u < 0xE000 then
        (case next_unit r of
           Some (u', r') \<Rightarrow>
             if u < 0xDC00 \<and> 0xDC00 \<le> u' \<and> u' < 0xE000
             then (encode_rune (0x10000 + (u - 0xD800) * 1024 + (u' - 0xDC00)), r')
             else (replacement, r)
         | None \<Rightarrow> (replacement, r))
      else (encode_rune u, r))"

lemma scan_hex_shorter: "scan_hex n acc s = Parsed u r \<Longrightarrow> length r \<le> length s"
  by (induction n acc s rule: scan_hex.induct) (auto split: option.splits)

lemma next_unit_shorter: "next_unit s = Some (u, r) \<Longrightarrow> length r < length s"
  by (auto simp: next_unit_def split: list.splits if_splits parsed.splits dest: scan_hex_shorter)

lemma decode_unit_shorter: "decode_unit u r = (x, r') \<Longrightarrow> length r' \<le> length r"
  by (auto simp: decode_unit_def split: if_splits option.splits dest: next_unit_shorter)

text \<open>The rest of a string literal, after the opening quote.\<close>

function scan_string :: "string \<Rightarrow> string parsed" where
  "scan_string s = (case s of
      [] \<Rightarrow> Ended
    | c # r \<Rightarrow>
        if c = CHR 0x22 then Parsed [] r
        else if c = CHR 0x5C then (case r of
            [] \<Rightarrow> Ended
          | e # r' \<Rightarrow>
              if e = CHR ''u'' then (case scan_hex 4 0 r' of
                  Parsed u r'' \<Rightarrow> (case decode_unit u r'' of (x, t) \<Rightarrow> map_parsed ((@) x) (scan_string t))
                | Ended \<Rightarrow> Ended
                | Malformed \<Rightarrow> Malformed)
              else (case simple_escape e of
                  None \<Rightarrow> Malformed
                | Some x \<Rightarrow> map_parsed (Cons x) (scan_string r')))
        else if (of_char c :: nat) < 0x20 then Malformed
        else let n = rune_len s in
          if n = 0 then map_parsed ((@) replacement) (scan_string r)
          else map_parsed ((@) (take n s)) (scan_string (drop n s)))"
  by pat_completeness auto
termination
  by (relation "measure length") (auto dest!: scan_hex_shorter decode_unit_shorter [OF sym])

declare scan_string.simps [simp del]

text \<open>Numbers: the states of the scanner within a number, and which may follow which.\<close>

datatype num_state = Neg | Zero | Digits | Dot | Fraction | Exp | ExpSign | ExpDigits

definition is_digit :: "char \<Rightarrow> bool" where
  "is_digit c \<longleftrightarrow> digit_val c \<noteq> None"

fun num_next :: "num_state \<Rightarrow> char \<Rightarrow> num_state option" where
  "num_next Neg c = (if c = CHR ''0'' then Some Zero else if is_digit c then Some Digits else None)"
| "num_next Zero c = (if c = CHR ''.'' then Some Dot else if c = CHR ''e'' \<or> c = CHR ''E'' then Some Exp else None)"
| "num_next Digits c = (if is_digit c then Some Digits
     else if c = CHR ''.'' then Some Dot else if c = CHR ''e'' \<or> c = CHR ''E'' then Some Exp else None)"
| "num_next Dot c = (if is_digit c then Some Fraction else None)"
| "num_next Fraction c = (if is_digit c then Some Fraction
     else if c = CHR ''e'' \<or> c = CHR ''E'' then Some Exp else None)"
| "num_next Exp c = (if c = CHR ''+'' \<or> c = CHR ''-'' then Some ExpSign else if is_digit c then Some ExpDigits else None)"
| "num_next ExpSign c = (if is_digit c then Some ExpDigits else None)"
| "num_next ExpDigits c = (if is_digit c then Some ExpDigits else None)"

definition num_final :: "num_state \<Rightarrow> bool" where
  "num_final st \<longleftrightarrow> st \<in> {Zero, Digits, Fraction, ExpDigits}"

fun scan_number :: "num_state \<Rightarrow> string \<Rightarrow> string parsed" where
  "scan_number st [] = (if num_final st then Parsed [] [] else Ended)"
| "scan_number st (c # r) = (case num_next st c of
      Some st' \<Rightarrow> map_parsed (Cons c) (scan_number st' r)
    | None \<Rightarrow> if num_final st then Parsed [] (c # r) else Malformed)"

definition num_start :: "char \<Rightarrow> num_state option" where
  "num_start c = (if c = CHR ''-'' then Some Neg else num_next Neg c)"

fun scan_literal :: "string \<Rightarrow> string \<Rightarrow> unit parsed" where
  "scan_literal [] r = Parsed () r"
| "scan_literal (x # xs) [] = Ended"
| "scan_literal (x # xs) (c # r) = (if x = c then scan_literal xs r else Malformed)"

text \<open>A value that is neither an array nor an object, given its first byte.\<close>

definition scan_scalar :: "char \<Rightarrow> string \<Rightarrow> json parsed" where
  "scan_scalar c r =
     (if c = CHR 0x22 then map_parsed JStr (scan_string r)
      else if c = CHR ''t'' then map_parsed (\<lambda>_. JBool True) (scan_literal ''rue'' r)
      else if c = CHR ''f'' then map_parsed (\<lambda>_. JBool False) (scan_literal ''alse'' r)
      else if c = CHR ''n'' then map_parsed (\<lambda>_. JNull) (scan_literal ''ull'' r)
      else (case num_start c of
          Some st \<Rightarrow> map_parsed (\<lambda>t. JNum (c # t)) (scan_number st r)
        | None \<Rightarrow> Malformed))"

text \<open>The arrays and objects that are open, innermost first, with what has been read of each, in
  reverse.\<close>

datatype open_value = OpenArr "json list" | OpenObj "(string \<times> json) list" string

lemma scan_string_shorter: "scan_string s = Parsed x r \<Longrightarrow> length r < length s"
proof (induction "length s" arbitrary: s x r rule: less_induct)
  case less
  have IH: "length r < length s" if "scan_string t = Parsed y r" "length t < length s" for t y
    using less.hyps [OF that(2,1)] that(2) by simp
  from less.prems show ?case
    by (subst (asm) scan_string.simps)
      (auto simp: map_parsed_Parsed Let_def split: list.splits if_splits parsed.splits option.splits prod.splits
        dest!: scan_hex_shorter decode_unit_shorter dest: IH)
qed

lemma scan_number_shorter: "scan_number st s = Parsed x r \<Longrightarrow> length r \<le> length s"
  by (induction s arbitrary: st x) (fastforce simp: map_parsed_Parsed split: option.splits if_splits)+

lemma scan_literal_shorter: "scan_literal l s = Parsed x r \<Longrightarrow> length r \<le> length s"
  by (induction l s rule: scan_literal.induct) (auto split: if_splits)

lemma scan_scalar_shorter: "scan_scalar c s = Parsed x r \<Longrightarrow> length r \<le> length s"
  by (auto simp: scan_scalar_def map_parsed_Parsed split: if_splits option.splits
      dest: scan_string_shorter scan_number_shorter scan_literal_shorter)

lemma skip_space_shorter: "length (skip_space s) \<le> length s"
  by (simp add: skip_space_def length_dropWhile_le)

lemma skip_space_Cons_shorter: "skip_space s = c # r \<Longrightarrow> length r < length s"
  using skip_space_shorter [of s] by simp

text \<open>
  The machine: \<open>parse_value\<close> is about to read a value, \<open>end_value\<close> has read one, and \<open>parse_key\<close> is
  about to read the key of a member of the object that has the members \<open>kvs\<close> so far.
\<close>

function (sequential) parse_value :: "open_value list \<Rightarrow> string \<Rightarrow> json parsed"
  and end_value :: "open_value list \<Rightarrow> json \<Rightarrow> string \<Rightarrow> json parsed"
  and parse_key :: "open_value list \<Rightarrow> (string \<times> json) list \<Rightarrow> string \<Rightarrow> json parsed" where
  "parse_value st s = (case skip_space s of
      [] \<Rightarrow> Ended
    | c # r \<Rightarrow>
        if c = CHR ''['' then (case skip_space r of
            [] \<Rightarrow> Ended
          | d # r' \<Rightarrow> if d = CHR '']'' then end_value st (JArr []) r' else parse_value (OpenArr [] # st) r)
        else if c = CHR ''{'' then (case skip_space r of
            [] \<Rightarrow> Ended
          | d # r' \<Rightarrow> if d = CHR ''}'' then end_value st (JObj []) r' else parse_key st [] r)
        else (case scan_scalar c r of
            Parsed v r' \<Rightarrow> end_value st v r'
          | Ended \<Rightarrow> Ended
          | Malformed \<Rightarrow> Malformed))"
| "end_value [] v r = Parsed v r"
| "end_value (OpenArr vs # st) v r = (case skip_space r of
      [] \<Rightarrow> Ended
    | c # r' \<Rightarrow>
        if c = CHR '','' then parse_value (OpenArr (v # vs) # st) r'
        else if c = CHR '']'' then end_value st (JArr (rev (v # vs))) r'
        else Malformed)"
| "end_value (OpenObj kvs k # st) v r = (case skip_space r of
      [] \<Rightarrow> Ended
    | c # r' \<Rightarrow>
        if c = CHR '','' then parse_key st ((k, v) # kvs) r'
        else if c = CHR ''}'' then end_value st (JObj (rev ((k, v) # kvs))) r'
        else Malformed)"
| "parse_key st kvs r = (case skip_space r of
      [] \<Rightarrow> Ended
    | c # r1 \<Rightarrow>
        if c \<noteq> CHR 0x22 then Malformed
        else (case scan_string r1 of
            Parsed k r2 \<Rightarrow> (case skip_space r2 of
                [] \<Rightarrow> Ended
              | d # r3 \<Rightarrow> if d = CHR '':'' then parse_value (OpenObj kvs k # st) r3 else Malformed)
          | Ended \<Rightarrow> Ended
          | Malformed \<Rightarrow> Malformed))"
  by pat_completeness auto
termination
  by (relation "measure (\<lambda>x. case x of Inl (_, s) \<Rightarrow> length s | Inr (Inl (_, _, s)) \<Rightarrow> length s | Inr (Inr (_, _, s)) \<Rightarrow> length s)")
    (auto dest!: skip_space_Cons_shorter scan_scalar_shorter scan_string_shorter)

declare parse_value.simps [simp del] parse_key.simps [simp del] end_value.simps(2,3) [simp del]

section \<open>Streams\<close>

text \<open>The bytes of a stream and the error that ends it, if it is not the end of file.\<close>

type_synonym stream = "string \<times> error option"

definition EOF :: error where
  "EOF = ExtErr ''EOF''"

definition ErrUnexpectedEOF :: error where
  "ErrUnexpectedEOF = ExtErr ''unexpected EOF''"

definition syntax_error :: error where
  "syntax_error = ExtErr ''invalid character''"

fun bracketed :: "json \<Rightarrow> bool" where
  "bracketed (JArr vs) = True"
| "bracketed (JObj kvs) = True"
| "bracketed v = False"

text \<open>\<open>Decoder.Decode\<close> up to the decoding of the value: a value that ends with its bracket is complete
  without another byte; any other is complete at the next byte or at the end of the file.\<close>

definition read_json :: "stream \<Rightarrow> error + json" where
  "read_json b = (case parse_value [] (fst b) of
      Parsed v r \<Rightarrow> (case snd b of
          Some e \<Rightarrow> if r = [] \<and> \<not> bracketed v then Inl e else Inr v
        | None \<Rightarrow> Inr v)
    | Ended \<Rightarrow> Inl (case snd b of
          Some e \<Rightarrow> e
        | None \<Rightarrow> if skip_space (fst b) = [] then EOF else ErrUnexpectedEOF)
    | Malformed \<Rightarrow> Inl syntax_error)"

section \<open>Strings are read back\<close>

declare rune_len.simps(2) [simp del]

lemma map_parsed_comp: "map_parsed f (map_parsed g p) = map_parsed (\<lambda>x. f (g x)) p"
  by (cases p) simp_all

lemma scan_string_unit:
  "scan_string (CHR 0x5C # CHR ''u'' # r) = (case scan_hex 4 0 r of
      Parsed u t \<Rightarrow> (case decode_unit u t of (x, t') \<Rightarrow> map_parsed ((@) x) (scan_string t'))
    | Ended \<Rightarrow> Ended
    | Malformed \<Rightarrow> Malformed)"
  by (subst scan_string.simps) (simp cong: parsed.case_cong)

lemma scan_string_simple:
  "simple_escape e = Some x \<Longrightarrow> scan_string (CHR 0x5C # e # r) = map_parsed (Cons x) (scan_string r)"
  by (subst scan_string.simps) (auto simp: simple_escape_def split: if_splits)

lemma scan_string_rune:
  assumes "rune_len s \<noteq> 0" and "0x20 \<le> (of_char (hd s) :: nat)" and "hd s \<noteq> CHR 0x22" and "hd s \<noteq> CHR 0x5C"
  shows "scan_string (take (rune_len s) s @ t) = map_parsed ((@) (take (rune_len s) s)) (scan_string t)"
proof -
  have "s \<noteq> []" using assms(1) by auto
  then obtain a u where s: "take (rune_len s) s = a # u" and a: "a = hd s"
    using assms(1) by (cases s; cases "rune_len s") auto
  have n: "rune_len s = Suc (length u)" using rune_len_le [of s] arg_cong [OF s, of length] by simp
  moreover have "rune_len ((a # u) @ t) = rune_len s" using rune_len_take [OF assms(1), of t] s by simp
  ultimately show ?thesis unfolding s
    by (subst scan_string.simps) (use assms a in \<open>simp add: Let_def\<close>)
qed

lemma ascii_rune_len [simp]: "(of_char c :: nat) < 0x80 \<Longrightarrow> rune_len (c # s) = 1"
  by (simp add: rune_len.simps continuation_def byte_in_def Let_def)

lemma scan_string_plain:
  assumes "0x20 \<le> (of_char c :: nat)" "(of_char c :: nat) < 0x80" "c \<noteq> CHR 0x22" "c \<noteq> CHR 0x5C"
  shows "scan_string (c # t) = map_parsed (Cons c) (scan_string t)"
  using scan_string_rune [of "[c]" t] assms by (simp add: append_Cons [abs_def])

lemma scan_hex_4:
  assumes "a < 16" "b < 16" "c < 16" "d < 16"
  shows "scan_hex 4 0 (hex_lower a # hex_lower b # hex_lower c # hex_lower d # r) = Parsed (a * 4096 + b * 256 + c * 16 + d) r"
proof -
  have "(4 :: nat) = Suc (Suc (Suc (Suc 0)))" by simp
  then show ?thesis using assms by (simp only: scan_hex.simps hex_value_lower option.case) simp
qed

lemma scan_string_byte:
  assumes "(of_char c :: nat) < 0x80"
  shows "scan_string (escape_byte c @ t) = map_parsed (Cons c) (scan_string t)"
proof -
  have zero: "CHR ''0'' = hex_lower 0" by (rule of_char_eqI [where 'a = nat]) (simp add: hex_lower_def)
  have d: "encode_rune (of_char c) = [c]" using assms by (simp add: encode_rune_def)
  have "(of_char c :: nat) div 16 * 16 + of_char c mod 16 = of_char c" by simp
  then have "scan_string ([CHR 0x5C, CHR ''u'', CHR ''0'', CHR ''0'', hex_lower (of_char c div 16), hex_lower (of_char c mod 16)] @ t)
      = map_parsed (Cons c) (scan_string t)"
    using assms unfolding zero
    by (simp add: scan_string_unit scan_hex_4 decode_unit_def d append_Cons [abs_def])
  then show ?thesis
    using assms scan_string_plain [of c t] by (auto simp: escape_byte_def scan_string_simple simple_escape_def)
qed

lemma to_valid_ascii_Cons: "(of_char c :: nat) < 0x80 \<Longrightarrow> to_valid (c # s) = c # to_valid s"
  by (subst to_valid.simps) (simp add: Let_def)

lemma scan_string_invalid:
  "scan_string ([CHR 0x5C] @ ''ufffd'' @ t) = map_parsed ((@) replacement) (scan_string t)"
proof -
  have "CHR ''f'' = hex_lower 15" "CHR ''d'' = hex_lower 13"
    by (rule of_char_eqI [where 'a = nat], simp add: hex_lower_def)+
  then show ?thesis
    by (simp add: scan_string_unit scan_hex_4 decode_unit_def encode_rune_def replacement_def char_of_def bit_0)
qed

lemma scan_string_separator:
  assumes "line_separator u"
  shows "scan_string ([CHR 0x5C] @ ''u202'' @ [hex_lower (of_char (u ! 2) mod 16)] @ t) = map_parsed ((@) u) (scan_string t)"
proof -
  have "CHR ''2'' = hex_lower 2" "CHR ''0'' = hex_lower 0"
    by (rule of_char_eqI [where 'a = nat], simp add: hex_lower_def)+
  with assms show ?thesis
    by (auto simp: line_separator_def scan_string_unit scan_hex_4 decode_unit_def encode_rune_def char_of_def bit_0)
qed

lemma scan_string_escape: "scan_string (escape s @ CHR 0x22 # r) = Parsed (to_valid s) r"
proof (induction s rule: escape.induct)
  case (1 s)
  show ?case
  proof (cases s)
    case Nil
    then show ?thesis by (simp add: escape.simps) (simp add: scan_string.simps)
  next
    case (Cons c u)
    consider (ascii) "(of_char c :: nat) < 0x80" | (invalid) "\<not> (of_char c :: nat) < 0x80" "rune_len s = 0"
      | (separator) "\<not> (of_char c :: nat) < 0x80" "rune_len s \<noteq> 0" "line_separator (take (rune_len s) s)"
      | (rune) "\<not> (of_char c :: nat) < 0x80" "rune_len s \<noteq> 0" "\<not> line_separator (take (rune_len s) s)"
      by blast
    then show ?thesis
    proof cases
      case ascii
      with 1 Cons have "scan_string (escape u @ CHR 0x22 # r) = Parsed (to_valid u) r" by simp
      with ascii Cons show ?thesis
        by (simp add: escape.simps [of "c # u"] scan_string_byte to_valid_ascii_Cons)
    next
      case invalid
      with 1 Cons have "scan_string (escape u @ CHR 0x22 # r) = Parsed (to_valid u) r" by simp
      with invalid Cons scan_string_invalid show ?thesis
        by (simp add: escape.simps [of "c # u"] to_valid.simps [of "c # u"] replacement_def)
    next
      case separator
      with 1 Cons have "scan_string (escape (drop (rune_len s) s) @ CHR 0x22 # r) = Parsed (to_valid (drop (rune_len s) s)) r"
        by simp
      moreover from separator(3) have "s ! 2 = take (rune_len s) s ! 2"
        by (auto simp: line_separator_def dest: arg_cong [where f = length])
      ultimately show ?thesis
        using separator Cons scan_string_separator [OF separator(3)]
        by (simp add: escape.simps [of "c # u"] to_valid.simps [of "c # u"] Let_def)
    next
      case rune
      with 1 Cons have "scan_string (escape (drop (rune_len s) s) @ CHR 0x22 # r) = Parsed (to_valid (drop (rune_len s) s)) r"
        by simp
      moreover from rune(1) have "c \<noteq> CHR 0x22" "c \<noteq> CHR 0x5C" by auto
      ultimately show ?thesis using rune Cons scan_string_rune [of s]
        by (auto simp: escape.simps [of "c # u"] to_valid.simps [of "c # u"] Let_def)
    qed
  qed
qed

section \<open>Values are read back\<close>

definition number :: "string \<Rightarrow> bool" where
  "number t \<longleftrightarrow> t \<noteq> [] \<and> (case num_start (hd t) of
      None \<Rightarrow> False
    | Some st \<Rightarrow> scan_number st (tl t) = Parsed (tl t) [])"

lemma size_member [termination_simp]:
  "kv \<in> set kvs \<Longrightarrow> size (snd kv) < Suc (size_list (size_prod (\<lambda>x. 0) size) kvs)"
  by (induction kvs) auto

fun printable :: "json \<Rightarrow> bool" where
  "printable (JNum t) = number t"
| "printable (JArr vs) = list_all printable vs"
| "printable (JObj kvs) = list_all (\<lambda>kv. printable (snd kv)) kvs"
| "printable v = True"

text \<open>What a reader sees of a value.\<close>

fun valid_json :: "json \<Rightarrow> json" where
  "valid_json (JStr s) = JStr (to_valid s)"
| "valid_json (JArr vs) = JArr (map valid_json vs)"
| "valid_json (JObj kvs) = JObj (map (\<lambda>kv. (to_valid (fst kv), valid_json (snd kv))) kvs)"
| "valid_json v = v"

definition ends_number :: "string \<Rightarrow> bool" where
  "ends_number r \<longleftrightarrow> r = [] \<or> (\<forall>st. num_next st (hd r) = None)"

lemma ends_number_simps [simp]:
  "ends_number []" "ends_number (CHR '','' # r)" "ends_number (CHR '']'' # r)" "ends_number (CHR ''}'' # r)"
  "ends_number (CHR 0x0A # r)"
proof -
  have "num_next st (CHR '','') = None" "num_next st (CHR '']'') = None" "num_next st (CHR ''}'') = None"
    "num_next st (CHR 0x0A) = None" for st
    by (cases st; simp add: is_digit_def digit_val_def)+
  then show "ends_number []" "ends_number (CHR '','' # r)" "ends_number (CHR '']'' # r)" "ends_number (CHR ''}'' # r)"
    "ends_number (CHR 0x0A # r)"
    by (simp_all add: ends_number_def)
qed

lemma scan_number_append:
  "scan_number st t = Parsed t [] \<Longrightarrow> ends_number r \<Longrightarrow> scan_number st (t @ r) = Parsed t r"
proof (induction t arbitrary: st)
  case Nil
  then show ?case by (cases r) (auto simp: ends_number_def split: if_splits)
next
  case (Cons c t)
  then show ?case by (auto simp: map_parsed_Parsed split: option.splits if_splits)
qed

lemma skip_space_id [simp]: "\<not> is_space c \<Longrightarrow> skip_space (c # r) = c # r"
  by (simp add: skip_space_def)

lemma punctuation [simp]:
  "\<not> is_space (CHR '','')" "\<not> is_space (CHR '']'')" "\<not> is_space (CHR ''}'')" "\<not> is_space (CHR '':'')"
  "\<not> is_space (CHR ''['')" "\<not> is_space (CHR ''{'')" "\<not> is_space (CHR 0x22)"
  by (simp_all add: is_space_def)

text \<open>The first byte of a value is not a space and closes nothing.\<close>

lemma number_start:
  assumes "number t"
  obtains c r st where "t = c # r" "num_start c = Some st" "scan_number st r = Parsed r []"
    "\<not> is_space c" "c \<notin> set (CHR 0x22 # ''[]{}tfn'')"
proof -
  from assms obtain c r st where t: "t = c # r" and st: "num_start c = Some st" and "scan_number st r = Parsed r []"
    by (cases t) (auto simp: number_def split: option.splits)
  moreover from st have "c = CHR ''-'' \<or> is_digit c"
    by (auto simp: num_start_def is_digit_def digit_val_def split: if_splits)
  then have "\<not> is_space c" "c \<notin> set (CHR 0x22 # ''[]{}tfn'')"
    by (auto simp: is_space_def is_digit_def digit_val_def split: if_splits)
  ultimately show thesis using that by blast
qed

lemma print_start:
  assumes "printable v"
  obtains c r where "json_text v = c # r" "\<not> is_space c" "c \<noteq> CHR '']''"
proof (cases v)
  case (JNum t)
  with assms have "number t" by simp
  then obtain c r st where "t = c # r" "\<not> is_space c" "c \<notin> set (CHR 0x22 # ''[]{}tfn'')" by (rule number_start)
  then show ?thesis using that JNum by simp
next
  case (JBool b)
  then show ?thesis by (cases b) (auto intro: that simp: is_space_def)
qed (auto intro: that simp: is_space_def quoted_def)

lemma scan_scalar_print:
  assumes "printable v" and "\<not> bracketed v" and "ends_number r" and "json_text v = c # t"
  shows "scan_scalar c (t @ r) = Parsed (valid_json v) r"
proof (cases v)
  case (JNum n)
  with assms(1) have "number n" by simp
  then obtain c' t' st where "n = c' # t'" "num_start c' = Some st" "scan_number st t' = Parsed t' []"
    "c' \<notin> set (CHR 0x22 # ''[]{}tfn'')" by (rule number_start)
  with assms JNum show ?thesis by (simp add: scan_scalar_def scan_number_append)
next
  case (JStr s)
  with assms have "c = CHR 0x22" "t = escape s @ [CHR 0x22]" by (auto simp: quoted_def)
  with JStr show ?thesis by (simp add: scan_scalar_def scan_string_escape)
qed (use assms in \<open>auto simp: scan_scalar_def split: if_splits\<close>)

lemma parse_scalar:
  assumes "printable v" and "\<not> bracketed v" and "ends_number r"
  shows "parse_value st (json_text v @ r) = end_value st (valid_json v) r"
proof -
  obtain c t where p: "json_text v = c # t" "\<not> is_space c" using assms(1) by (rule print_start)
  with assms have sc: "scan_scalar c (t @ r) = Parsed (valid_json v) r" by (simp add: scan_scalar_print)
  have "scan_scalar (CHR ''['') u = Malformed" "scan_scalar (CHR ''{'') u = Malformed" for u
    by (simp_all add: scan_scalar_def num_start_def is_digit_def digit_val_def)
  with sc have "c \<noteq> CHR ''[''" "c \<noteq> CHR ''{''" by auto
  with sc show ?thesis using p by (simp add: parse_value.simps)
qed

text \<open>A text that was printed is read as one value, whatever is open around it.\<close>

lemma parse_print_open:
  "printable v \<Longrightarrow> bracketed v \<or> ends_number r \<Longrightarrow> parse_value st (json_text v @ r) = end_value st (valid_json v) r"
  "vs \<noteq> [] \<Longrightarrow> list_all printable vs \<Longrightarrow>
     parse_value (OpenArr acc # st) (elements_text vs @ CHR '']'' # r) = end_value st (JArr (rev acc @ map valid_json vs)) r"
  "kvs \<noteq> [] \<Longrightarrow> list_all (\<lambda>kv. printable (snd kv)) kvs \<Longrightarrow>
     parse_key st mem (members_text kvs @ CHR ''}'' # r) =
       end_value st (JObj (rev mem @ map (\<lambda>kv. (to_valid (fst kv), valid_json (snd kv))) kvs)) r"
proof (induction v and vs and kvs arbitrary: st r and st r acc and st r mem
    rule: json_text_elements_text_members_text.induct)
  case (5 vs)
  show ?case
  proof (cases vs)
    case Nil
    then show ?thesis by (simp add: parse_value.simps)
  next
    case (Cons v ws)
    with 5 obtain c t where "json_text v = c # t" "\<not> is_space c" "c \<noteq> CHR '']''" by (auto elim: print_start)
    then obtain t' where "elements_text vs = c # t'" using Cons by (cases ws) auto
    with 5 Cons \<open>\<not> is_space c\<close> \<open>c \<noteq> CHR '']''\<close> show ?thesis
      by (subst parse_value.simps) simp
  qed
next
  case (6 kvs)
  show ?case
  proof (cases kvs)
    case Nil
    then show ?thesis by (simp add: parse_value.simps)
  next
    case (Cons kv ms)
    then obtain t where "members_text kvs = CHR 0x22 # t"
      by (cases kv; cases ms) (auto simp: quoted_def)
    with 6 Cons show ?thesis
      by (subst parse_value.simps) simp
  qed
next
  case (8 v)
  then show ?case by (simp add: end_value.simps)
next
  case (9 v w vs)
  then show ?case by (simp add: end_value.simps)
next
  case (11 k v)
  then show ?case by (simp add: parse_key.simps quoted_def scan_string_escape end_value.simps)
next
  case (12 k v m ms)
  then show ?case by (simp add: parse_key.simps quoted_def scan_string_escape end_value.simps)
qed (auto simp del: json_text.simps valid_json.simps intro!: parse_scalar)

lemma parse_print:
  "printable v \<Longrightarrow> bracketed v \<or> ends_number r \<Longrightarrow> parse_value [] (json_text v @ r) = Parsed (valid_json v) r"
  by (simp add: parse_print_open)

text \<open>\<open>Encoder.Encode\<close> writes a newline after the value.\<close>

definition json_line :: "json \<Rightarrow> string" where
  "json_line v = json_text v @ [CHR 0x0A]"

lemma read_print [simp]:
  "printable v \<Longrightarrow> read_json (json_text v, None) = Inr (valid_json v)"
  "printable v \<Longrightarrow> read_json (json_line v, None) = Inr (valid_json v)"
  using parse_print [of v "[]"] by (simp_all add: read_json_def json_line_def parse_print)

text \<open>What follows a value that ends with a bracket is never looked at.\<close>

lemma read_print_prefix:
  "printable v \<Longrightarrow> bracketed v \<Longrightarrow> read_json (json_text v @ r, e) = Inr (valid_json v)"
  by (cases v) (simp_all add: read_json_def parse_print del: json_text.simps split: option.split)

section \<open>Numbers\<close>

lemma scan_digits: "\<forall>c \<in> set t. is_digit c \<Longrightarrow> scan_number Digits t = Parsed t []"
  by (induction t) (simp_all add: num_final_def)

lemma is_digit_char [simp]: "d < 10 \<Longrightarrow> is_digit (digit_char d)"
  by (simp add: is_digit_def)

lemma nat_digits_digits: "c \<in> set (nat_digits n) \<Longrightarrow> is_digit c"
  using set_nat_digits [of n] by auto

lemma nat_digits_zero: "hd (nat_digits n) = CHR ''0'' \<Longrightarrow> n = 0"
proof (induction n rule: nat_digits.induct)
  case (1 n)
  show ?case
  proof (cases "n < 10")
    case True
    with 1(2) have "(of_char (digit_char n) :: nat) = of_char (CHR ''0'')" by (subst (asm) nat_digits.simps) simp
    with True show ?thesis by (simp add: of_char_digit)
  next
    case False
    with 1(2) have "hd (nat_digits (n div 10)) = CHR ''0''" by (subst (asm) nat_digits.simps) simp
    with 1(1) False show ?thesis by simp
  qed
qed

lemma number_nat [simp]: "number (nat_digits n)"
proof (cases "n = 0")
  case True
  have "digit_char 0 = CHR ''0''" by (rule of_char_eqI [where 'a = nat]) (simp add: digit_char_def)
  then have "nat_digits 0 = ''0''" by (subst nat_digits.simps) simp
  with True show ?thesis by (simp add: number_def num_start_def num_final_def)
next
  case False
  obtain c t where t: "nat_digits n = c # t" by (cases "nat_digits n") simp_all
  with False nat_digits_zero [of n] have c: "c \<noteq> CHR ''0''" by auto
  have d: "\<forall>x \<in> set (c # t). is_digit x" unfolding t [symmetric] by (simp add: nat_digits_digits)
  then have "c \<noteq> CHR ''-''" by (auto simp: is_digit_def digit_val_def)
  with c d t show ?thesis by (simp add: number_def num_start_def scan_digits)
qed

lemma number_minus: "number t \<Longrightarrow> hd t \<noteq> CHR ''-'' \<Longrightarrow> number (CHR ''-'' # t)"
  by (cases t) (auto simp: number_def num_start_def map_parsed_Parsed split: option.splits if_splits)

lemma number_Itoa [simp]: "number (Itoa i)"
proof -
  obtain d where "d < 10" "hd (nat_digits (nat (- i))) = digit_char d"
    using hd_nat_digits [of "nat (- i)"] by blast
  then have "hd (nat_digits (nat (- i))) \<noteq> CHR ''-''" by (simp add: digit_char_neq)
  then show ?thesis by (simp add: Itoa_def number_minus)
qed

end
