(* ===== verification/Go_Json_Codec.thy ===== *)
theory Go_Json_Codec
  imports Go_Json_Text
begin

text \<open>
  Encoding a Go value into a JSON text and decoding such a text: \<open>Decoder.Decode\<close> reads the first
  value of a stream and decodes it into what is there.

  The locale \<open>json_codec\<close> states what encoder and decoder of a type promise each other; the round
  trip through the bytes of a text is proved in it once. It is interpreted here for strings,
  booleans and slices, and by the clients for their structs.
\<close>

definition json_Decode :: "'a decoder \<Rightarrow> stream \<Rightarrow> 'a \<Rightarrow> error + 'a" where
  "json_Decode dec b x = (case read_json b of Inl e \<Rightarrow> Inl e | Inr v \<Rightarrow> dec v x)"

lemma json_Decode_error [simp]: "read_json b = Inl e \<Longrightarrow> json_Decode dec b x = Inl e"
  by (simp add: json_Decode_def)

lemma json_Decode_read [simp]: "read_json b = Inr v \<Longrightarrow> json_Decode dec b x = dec v x"
  by (simp add: json_Decode_def)

text \<open>Decoding what was encoded gives the value back, up to what happens to its strings.\<close>

locale json_codec =
  fixes enc :: "'a \<Rightarrow> json" and dec :: "'a decoder" and norm :: "'a \<Rightarrow> 'a" and zero :: 'a
  assumes printable_enc: "printable (enc x)"
    and dec_enc: "dec (valid_json (enc x)) zero = Inr (norm x)"
    and enc_norm: "valid_json (enc (norm x)) = valid_json (enc x)"
begin

lemma norm_idem: "norm (norm x) = norm x"
  using dec_enc [of "norm x"] dec_enc [of x] by (simp add: enc_norm)

text \<open>Two values are read alike exactly if they are the same up to \<open>norm\<close>.\<close>

lemma enc_eq_iff: "valid_json (enc x) = valid_json (enc y) \<longleftrightarrow> norm x = norm y"
  by (metis dec_enc enc_norm sum.inject(2))

lemma decode_print: "json_Decode dec (json_text (enc x), None) zero = Inr (norm x)"
  and decode_print_line: "json_Decode dec (json_line (enc x), None) zero = Inr (norm x)"
  by (simp_all add: json_Decode_def printable_enc dec_enc)

lemma decode_elements_enc: "decode_elements dec zero (map (valid_json \<circ> enc) xs) [] = Inr (map norm xs)"
  by (induction xs) (simp_all add: dec_enc)

lemma slice_codec: "json_codec (encode_slice enc) (decode_slice dec zero) (map_option (map norm)) None"
proof
  fix x :: "'a list option"
  show "printable (encode_slice enc x)"
    by (cases x) (simp_all add: encode_slice_def list_all_iff printable_enc)
  show "decode_slice dec zero (valid_json (encode_slice enc x)) None = Inr (map_option (map norm) x)"
    by (cases x) (simp_all add: encode_slice_def decode_elements_enc)
  show "valid_json (encode_slice enc (map_option (map norm) x)) = valid_json (encode_slice enc x)"
    by (cases x) (simp_all add: encode_slice_def enc_norm)
qed

end

interpretation js: json_codec encode_string decode_string to_valid "[]"
  by unfold_locales (simp_all add: encode_string_def)

interpretation jb: json_codec encode_bool decode_bool id False
  by unfold_locales (simp_all add: encode_bool_def)

interpretation jss: json_codec "encode_slice encode_string" "decode_slice decode_string []" "map_option (map to_valid)" None
  by (rule js.slice_codec)

end
