(* ===== verification/Go_Time.thy ===== *)
theory Go_Time
  imports Go_Strings
begin

text \<open>
  Package \<open>time\<close>, as far as a time stamp in a JSON text needs it: the date of an instant (\<open>absDate\<close>,
  with its cycles of 400, 100, 4 and 1 years), the text of a time in the format \<open>RFC3339Nano\<close>, and
  \<open>Time.MarshalJSON\<close>, which refuses years of more than four digits.

  An instant is a number of nanoseconds since 1970 in UTC; a time zone is its offset in seconds. The
  reader \<open>read_rfc3339\<close> says what such a text denotes; it is the inverse of the formatting.
\<close>

section \<open>Dates\<close>

definition is_leap :: "int \<Rightarrow> bool" where
  "is_leap year \<longleftrightarrow> 4 dvd year \<and> (\<not> 100 dvd year \<or> 400 dvd year)"

definition days_before :: "nat \<Rightarrow> int" where
  "days_before m = [0, 31, 59, 90, 120, 151, 181, 212, 243, 273, 304, 334, 365] ! m"

text \<open>Month and day from the day of the year, counted from 0.\<close>

definition month_day :: "bool \<Rightarrow> int \<Rightarrow> nat \<times> int" where
  "month_day leap yday =
     (if leap \<and> yday = 59 then (2, 29)
      else let day = (if leap \<and> 59 < yday then yday - 1 else yday);
               month = nat (day div 31)
        in if days_before (month + 1) \<le> day then (month + 2, day - days_before (month + 1) + 1)
           else (month + 1, day - days_before month + 1))"

text \<open>Year and day of the year, from the days since the first of January of the year 1.\<close>

definition year_day :: "int \<Rightarrow> int \<times> int" where
  "year_day d0 =
     (let n400 = d0 div 146097; d1 = d0 - 146097 * n400;
          n100 = (let n = d1 div 36524 in n - n div 4); d2 = d1 - 36524 * n100;
          n4 = d2 div 1461; d3 = d2 - 1461 * n4;
          n1 = (let n = d3 div 365 in n - n div 4); d4 = d3 - 365 * n1
      in (400 * n400 + 100 * n100 + 4 * n4 + n1 + 1, d4))"

definition absDate :: "int \<Rightarrow> int \<times> nat \<times> int" where
  "absDate days = (case year_day days of (year, yday) \<Rightarrow> case month_day (is_leap year) yday of (m, d) \<Rightarrow> (year, m, d))"

text \<open>\<open>daysIn\<close>\<close>

definition daysIn :: "nat \<Rightarrow> int \<Rightarrow> int" where
  "daysIn m year = (if m = 2 \<and> is_leap year then 29 else days_before m - days_before (m - 1))"

definition days_of_date :: "int \<Rightarrow> nat \<Rightarrow> int \<Rightarrow> int" where
  "days_of_date year m d = (let y = year - 1 in
     365 * y + y div 4 - y div 100 + y div 400
     + days_before (m - 1) + (if is_leap year \<and> 2 < m then 1 else 0) + d - 1)"

lemma div_bounds: "0 < k \<Longrightarrow> k * (x div k) \<le> x \<and> x < k * (x div k) + k" for k x :: int
  using mult_div_mod_eq [of k x] pos_mod_sign [of k x] pos_mod_bound [of k x] by linarith

text \<open>The quotient by a cycle whose last member is longer by one.\<close>

lemma cycle:
  assumes "0 \<le> x" and "x \<le> 4 * k" and "k \<ge> (1 :: int)" and "n = x div k" and "m = n - n div 4"
  shows "0 \<le> m" "m \<le> 3" "0 \<le> x - k * m" "x - k * m \<le> (if m = 3 then k else k - 1)"
proof -
  have q: "k * n \<le> x" "x < k * n + k" using div_bounds [of k x] assms(3,4) by auto
  have "0 \<le> n" using assms(1,3,4) by (simp add: pos_imp_zdiv_nonneg_iff)
  moreover have "n < 5"
  proof (rule ccontr)
    assume "\<not> n < 5"
    then have "k * 5 \<le> k * n" using assms(3) by (intro mult_left_mono) auto
    with q(1) assms(2,3) show False by linarith
  qed
  ultimately consider "n = 0" | "n = 1" | "n = 2" | "n = 3" | "n = 4" by linarith
  then have "0 \<le> m \<and> m \<le> 3 \<and> 0 \<le> x - k * m \<and> x - k * m \<le> (if m = 3 then k else k - 1)"
    by cases (use q assms in auto)
  then show "0 \<le> m" "m \<le> 3" "0 \<le> x - k * m" "x - k * m \<le> (if m = 3 then k else k - 1)" by blast+
qed

lemma year_day_cycles:
  obtains a b c e where "year_day d = (400 * a + 100 * b + 4 * c + e + 1, d - 146097 * a - 36524 * b - 1461 * c - 365 * e)"
    "0 \<le> b" "b \<le> 3" "0 \<le> c" "c \<le> 24" "0 \<le> e" "e \<le> 3"
    "0 \<le> d - 146097 * a - 36524 * b - 1461 * c - 365 * e"
    "d - 146097 * a - 36524 * b - 1461 * c - 365 * e \<le> (if e = 3 \<and> (c \<noteq> 24 \<or> b = 3) then 365 else 364)"
proof -
  define a where "a = d div 146097"
  define d1 where "d1 = d - 146097 * a"
  define b where "b = (let n = d1 div 36524 in n - n div 4)"
  define d2 where "d2 = d1 - 36524 * b"
  define c where "c = d2 div 1461"
  define d3 where "d3 = d2 - 1461 * c"
  define e where "e = (let n = d3 div 365 in n - n div 4)"
  have d1: "0 \<le> d1" "d1 \<le> 4 * 36524" using div_bounds [of 146097 d] unfolding d1_def a_def by auto
  have b_eq: "b = d1 div 36524 - d1 div 36524 div 4" by (simp add: b_def Let_def)
  note bs = cycle [OF d1 _ refl b_eq]
  have b: "0 \<le> b" "b \<le> 3" "0 \<le> d2" "d2 \<le> (if b = 3 then 36524 else 36523)"
    using bs(1,2,3) bs(4) unfolding d2_def by (simp_all split: if_splits)
  have c: "1461 * c \<le> d2" "d2 < 1461 * c + 1461" using div_bounds [of 1461 d2] unfolding c_def by auto
  with b have c': "0 \<le> c" "c \<le> 24" "0 \<le> d3" "d3 \<le> (if c = 24 \<and> b \<noteq> 3 then 1459 else 1460)"
    unfolding d3_def by (auto split: if_splits)
  then have d3: "0 \<le> d3" "d3 \<le> 4 * 365" by (auto split: if_splits)
  have e_eq: "e = d3 div 365 - d3 div 365 div 4" by (simp add: e_def Let_def)
  note es = cycle [OF d3 _ refl e_eq]
  have e: "0 \<le> e" "e \<le> 3" "0 \<le> d3 - 365 * e" "d3 - 365 * e \<le> (if e = 3 then 365 else 364)"
    using es(1,2,3) es(4) by (simp_all split: if_splits)
  have y: "year_day d = (400 * a + 100 * b + 4 * c + e + 1, d3 - 365 * e)"
    unfolding year_day_def Let_def a_def [symmetric] d1_def [symmetric] b_eq [symmetric] d2_def [symmetric]
      c_def [symmetric] d3_def [symmetric] e_eq [symmetric] by (rule refl)
  have "d3 - 365 * e \<le> (if e = 3 \<and> (c \<noteq> 24 \<or> b = 3) then 365 else 364)"
  proof (cases "e = 3")
    case True
    then show ?thesis using c'(4) e(4) by (cases "c = 24"; cases "b = 3"; simp)
  next
    case False
    then show ?thesis using e(4) by simp
  qed
  moreover have "d3 - 365 * e = d - 146097 * a - 36524 * b - 1461 * c - 365 * e" by (simp add: d3_def d2_def d1_def)
  ultimately show thesis using that [of a b c e] y b c' e by simp
qed

lemma year_day_leap:
  assumes "0 \<le> b" "b \<le> 3" "0 \<le> c" "c \<le> 24" "0 \<le> e" "e \<le> (3 :: int)"
  shows "is_leap (400 * a + 100 * b + 4 * c + e + 1) \<longleftrightarrow> e = 3 \<and> (c \<noteq> 24 \<or> b = 3)"
proof -
  let ?y = "400 * a + 100 * b + 4 * c + e + 1"
  have four: "4 dvd ?y \<longleftrightarrow> e = 3"
  proof -
    have "?y = (e + 1) + 4 * (100 * a + 25 * b + c)" by simp
    then have "4 dvd ?y \<longleftrightarrow> 4 dvd e + 1" by (simp only: dvd_add_left_iff [OF dvd_triv_left])
    also have "\<dots> \<longleftrightarrow> e = 3" using assms(5,6) by presburger
    finally show ?thesis .
  qed
  have hundred: "100 dvd ?y \<longleftrightarrow> c = 24" if "e = 3"
  proof -
    have "?y = 4 * (c + 1) + 4 * 25 * (4 * a + b)" using that by simp
    then have "4 * 25 dvd ?y \<longleftrightarrow> 4 * 25 dvd 4 * (c + 1)" by (simp only: dvd_add_left_iff [OF dvd_triv_left])
    also have "\<dots> \<longleftrightarrow> 25 dvd c + 1" by (simp only: dvd_mult_cancel_left) simp
    finally have "100 dvd ?y \<longleftrightarrow> 25 dvd c + 1" by simp
    also have "\<dots> \<longleftrightarrow> c = 24" using assms(3,4) by presburger
    finally show ?thesis .
  qed
  have "400 dvd ?y \<longleftrightarrow> b = 3" if "e = 3" "c = 24"
  proof -
    have "?y = 100 * (b + 1) + 100 * 4 * a" using that by simp
    then have "100 * 4 dvd ?y \<longleftrightarrow> 100 * 4 dvd 100 * (b + 1)" by (simp only: dvd_add_left_iff [OF dvd_triv_left])
    also have "\<dots> \<longleftrightarrow> 4 dvd b + 1" by (simp only: dvd_mult_cancel_left) simp
    finally have "400 dvd ?y \<longleftrightarrow> 4 dvd b + 1" by simp
    also have "\<dots> \<longleftrightarrow> b = 3" using assms(1,2) by presburger
    finally show ?thesis .
  qed
  with four hundred show ?thesis unfolding is_leap_def by blast
qed

lemma year_day_days:
  assumes "0 \<le> b" "b \<le> 3" "0 \<le> c" "c \<le> 24" "0 \<le> e" "e \<le> (3 :: int)" and "y = 400 * a + 100 * b + 4 * c + e"
  shows "365 * y + y div 4 - y div 100 + y div 400 = 146097 * a + 36524 * b + 1461 * c + 365 * e"
proof -
  have "y div 4 = 100 * a + 25 * b + c" by (rule int_div_pos_eq [of _ _ _ e]) (use assms in auto)
  moreover have "y div 100 = 4 * a + b" by (rule int_div_pos_eq [of _ _ _ "4 * c + e"]) (use assms in auto)
  moreover have "y div 400 = a" by (rule int_div_pos_eq [of _ _ _ "100 * b + 4 * c + e"]) (use assms in auto)
  ultimately show ?thesis using assms(7) by simp
qed

text \<open>The month and the day of the month stand for the day of the year.\<close>

lemma month_plain:
  assumes "0 \<le> day" and "day \<le> 364" and "q = day div 31"
    and "(m, d) = (if days_before (nat q + 1) \<le> day then (nat q + 2, day - days_before (nat q + 1) + 1)
           else (nat q + 1, day - days_before (nat q) + 1))"
  shows "1 \<le> m \<and> m \<le> 12 \<and> 1 \<le> d \<and> d \<le> 31 \<and> days_before (m - 1) + d - 1 = day \<and> (2 < m \<longleftrightarrow> 59 \<le> day)
    \<and> d \<le> days_before m - days_before (m - 1)"
proof -
  have q: "31 * q \<le> day" "day < 31 * q + 31" using div_bounds [of 31 day] assms(3) by auto
  with assms(1,2) have "0 \<le> q" "q < 12" by linarith+
  then consider "q = 0" | "q = 1" | "q = 2" | "q = 3" | "q = 4" | "q = 5" | "6 \<le> q" by linarith
  then show ?thesis
  proof cases
    assume "6 \<le> q"
    with \<open>q < 12\<close> consider "q = 6" | "q = 7" | "q = 8" | "q = 9" | "q = 10" | "q = 11" by linarith
    then show ?thesis
      by cases (use assms(2,4) q in \<open>simp add: days_before_def split: if_splits\<close>)+
  qed (use assms(4) q in \<open>simp add: days_before_def split: if_splits\<close>)+
qed

lemma month_day_spec:
  assumes "0 \<le> yday" and "yday \<le> (if leap then 365 else 364)" and "month_day leap yday = (m, d)"
  shows "1 \<le> m" "m \<le> 12" "1 \<le> d" "d \<le> 31" "days_before (m - 1) + (if leap \<and> 2 < m then 1 else 0) + d - 1 = yday"
    "d \<le> (if m = 2 \<and> leap then 29 else days_before m - days_before (m - 1))"
proof -
  have "1 \<le> m \<and> m \<le> 12 \<and> 1 \<le> d \<and> d \<le> 31 \<and> days_before (m - 1) + (if leap \<and> 2 < m then 1 else 0) + d - 1 = yday
      \<and> d \<le> (if m = 2 \<and> leap then 29 else days_before m - days_before (m - 1))"
  proof (cases "leap \<and> yday = 59")
    case True
    with assms(3) show ?thesis by (auto simp: month_day_def days_before_def)
  next
    case False
    define day where "day = (if leap \<and> 59 < yday then yday - 1 else yday)"
    have "0 \<le> day" "day \<le> 364" using assms(1,2) False by (auto simp: day_def split: if_splits)
    moreover have "(m, d) = (if days_before (nat (day div 31) + 1) \<le> day
        then (nat (day div 31) + 2, day - days_before (nat (day div 31) + 1) + 1)
        else (nat (day div 31) + 1, day - days_before (nat (day div 31)) + 1))"
      using assms(3) False unfolding month_day_def day_def [symmetric] Let_def by simp
    ultimately have "1 \<le> m \<and> m \<le> 12 \<and> 1 \<le> d \<and> d \<le> 31 \<and> days_before (m - 1) + d - 1 = day \<and> (2 < m \<longleftrightarrow> 59 \<le> day)
        \<and> d \<le> days_before m - days_before (m - 1)"
      by (intro month_plain [OF _ _ refl])
    moreover have "days_before 2 - days_before (2 - 1) = 28" by (simp add: days_before_def)
    moreover have "yday = day + (if leap \<and> 59 \<le> day then 1 else 0)" using False by (auto simp: day_def)
    ultimately show ?thesis by auto
  qed
  then show "1 \<le> m" "m \<le> 12" "1 \<le> d" "d \<le> 31" "days_before (m - 1) + (if leap \<and> 2 < m then 1 else 0) + d - 1 = yday"
    "d \<le> (if m = 2 \<and> leap then 29 else days_before m - days_before (m - 1))"
    by blast+
qed

text \<open>The date of a day, read as a date of the calendar, is that day.\<close>

lemma absDate_days:
  assumes "absDate days = (y, m, d)"
  shows "days_of_date y m d = days" "1 \<le> m" "m \<le> 12" "1 \<le> d" "d \<le> 31" "d \<le> daysIn m y"
proof -
  obtain a b c e where yd: "year_day days = (400 * a + 100 * b + 4 * c + e + 1,
        days - 146097 * a - 36524 * b - 1461 * c - 365 * e)"
    and r: "0 \<le> b" "b \<le> 3" "0 \<le> c" "c \<le> 24" "0 \<le> e" "e \<le> 3"
    and lo: "0 \<le> days - 146097 * a - 36524 * b - 1461 * c - 365 * e"
    and hi: "days - 146097 * a - 36524 * b - 1461 * c - 365 * e \<le> (if e = 3 \<and> (c \<noteq> 24 \<or> b = 3) then 365 else 364)"
    by (rule year_day_cycles [of days])
  define yday where "yday = days - 146097 * a - 36524 * b - 1461 * c - 365 * e"
  from assms yd have y: "y = 400 * a + 100 * b + 4 * c + e + 1" and md: "month_day (is_leap y) yday = (m, d)"
    by (auto simp: absDate_def yday_def split: prod.splits)
  have "yday \<le> (if is_leap y then 365 else 364)" using hi by (simp only: yday_def y year_day_leap [OF r])
  note spec = month_day_spec [OF _ this md]
  from lo have pos: "0 \<le> yday" by (simp add: yday_def)
  have "y - 1 = 400 * a + 100 * b + 4 * c + e" by (simp add: y)
  note year = year_day_days [OF r this]
  show "days_of_date y m d = days"
    using spec(5) [OF pos] year by (simp add: days_of_date_def Let_def yday_def)
  show "1 \<le> m" "m \<le> 12" "1 \<le> d" "d \<le> 31" using spec(1-4) [OF pos] .
  show "d \<le> daysIn m y" using spec(6) [OF pos] by (simp add: daysIn_def)
qed

section \<open>Texts\<close>

text \<open>\<open>appendInt\<close>: a number with zeros in front of it, up to a width.\<close>

definition pad :: "nat \<Rightarrow> nat \<Rightarrow> string" where
  "pad w n = replicate (w - length (nat_digits n)) (CHR ''0'') @ nat_digits n"

text \<open>\<open>formatNano\<close>, with the zeros at the end trimmed.\<close>

definition fraction_text :: "nat \<Rightarrow> string" where
  "fraction_text ns = (if ns = 0 then []
     else CHR ''.'' # rev (dropWhile (\<lambda>c. c = CHR ''0'') (rev (pad 9 ns))))"

definition zone_text :: "int \<Rightarrow> string" where
  "zone_text off = (if off = 0 then ''Z''
     else let z = \<bar>off\<bar> div 60 in
       (if off \<le> - 60 then CHR ''-'' else CHR ''+'') # pad 2 (nat (z div 60)) @ '':'' @ pad 2 (nat (z mod 60)))"

text \<open>Year, month and day, then the second of the day and the nanosecond of the second.\<close>

definition clock :: "int \<Rightarrow> int \<Rightarrow> (int \<times> nat \<times> int) \<times> nat \<times> nat" where
  "clock off t = (let u = t + 1000000000 * off; secs = u div 1000000000 in
     (absDate (secs div 86400 + 719162), nat (secs mod 86400), nat (u mod 1000000000)))"

definition RFC3339Nano :: "int \<Rightarrow> int \<Rightarrow> string" where
  "RFC3339Nano off t = (case clock off t of ((y, m, d), sec, ns) \<Rightarrow>
     pad 4 (nat y) @ ''-'' @ pad 2 m @ ''-'' @ pad 2 (nat d) @ ''T''
     @ pad 2 (sec div 3600) @ '':'' @ pad 2 (sec div 60 mod 60) @ '':'' @ pad 2 (sec mod 60)
     @ fraction_text ns @ zone_text off)"

definition year_ok :: "int \<Rightarrow> int \<Rightarrow> bool" where
  "year_ok off t \<longleftrightarrow> (let y = fst (fst (clock off t)) in 0 \<le> y \<and> y < 10000)"

definition Time_MarshalJSON :: "int \<Rightarrow> int \<Rightarrow> error + string" where
  "Time_MarshalJSON off t =
     (if year_ok off t then Inr (RFC3339Nano off t)
      else Inl (ExtErr ''Time.MarshalJSON: year outside of range [0,9999]''))"

section \<open>What a text denotes\<close>

definition read_fraction :: "string \<Rightarrow> nat \<times> string" where
  "read_fraction s = (case s of
      [] \<Rightarrow> (0, [])
    | c # r \<Rightarrow> if c = CHR ''.'' then
        (let ds = takeWhile (\<lambda>c. digit_val c \<noteq> None) r
         in (dec_value ds * 10 ^ (9 - length ds), dropWhile (\<lambda>c. digit_val c \<noteq> None) r))
        else (0, s))"

definition read_zone :: "string \<Rightarrow> int" where
  "read_zone z = (if z = ''Z'' then 0
     else (if hd z = CHR ''-'' then - 1 else 1)
       * (3600 * int (dec_value (take 2 (drop 1 z))) + 60 * int (dec_value (take 2 (drop 4 z)))))"

definition read_rfc3339 :: "string \<Rightarrow> int" where
  "read_rfc3339 s = (case read_fraction (drop 19 s) of (ns, z) \<Rightarrow>
     let days = days_of_date (int (dec_value (take 4 s))) (dec_value (take 2 (drop 5 s))) (int (dec_value (take 2 (drop 8 s))))
           - 719162;
         sec = 3600 * int (dec_value (take 2 (drop 11 s))) + 60 * int (dec_value (take 2 (drop 14 s)))
           + int (dec_value (take 2 (drop 17 s)))
     in 1000000000 * (86400 * days + sec - read_zone z) + int ns)"

lemma foldl_zeros: "foldl (\<lambda>a c. 10 * a + (of_char c - 48)) (0 :: nat) (replicate k (CHR ''0'')) = 0"
  by (induction k) simp_all

lemma dec_value_pad [simp]: "dec_value (pad w n) = n"
  using dec_value_nat_digits [of n] by (simp add: pad_def dec_value_def foldl_zeros)

lemma dec_value_zeros: "dec_value (t @ replicate k (CHR ''0'')) = dec_value t * 10 ^ k"
proof (induction k)
  case (Suc k)
  have "t @ replicate (Suc k) (CHR ''0'') = (t @ replicate k (CHR ''0'')) @ [CHR ''0'']"
    by (simp add: replicate_append_same)
  then have "dec_value (t @ replicate (Suc k) (CHR ''0'')) = 10 * dec_value (t @ replicate k (CHR ''0''))"
    by (simp only: dec_value_def foldl_append) simp
  with Suc show ?case by simp
qed (simp add: dec_value_def)

lemma length_nat_digits: "n < 10 ^ w \<Longrightarrow> 0 < w \<Longrightarrow> length (nat_digits n) \<le> w"
proof (induction n arbitrary: w rule: nat_digits.induct)
  case (1 n)
  show ?case
  proof (cases "n < 10")
    case True
    with 1(3) show ?thesis by (subst nat_digits.simps) simp
  next
    case False
    obtain v where w: "w = Suc v" using 1(3) by (cases w) simp_all
    with False 1(2) have "n div 10 < 10 ^ v" "0 < v" by (auto intro: gr0I)
    with 1(1) False have "length (nat_digits (n div 10)) \<le> v" by simp
    with False w show ?thesis by (subst nat_digits.simps) simp
  qed
qed

lemma length_pad [simp]: "n < 10 ^ w \<Longrightarrow> 0 < w \<Longrightarrow> length (pad w n) = w"
  using length_nat_digits by (simp add: pad_def)

lemma pad_digits:
  assumes "c \<in> set (pad w n)"
  shows "digit_val c \<noteq> None"
proof -
  from assms have "c = CHR ''0'' \<or> c \<in> set (nat_digits n)" by (auto simp: pad_def split: if_splits)
  then show ?thesis using set_nat_digits [of n] by (auto simp: digit_val_def of_char_digit)
qed

lemma read_fraction_text:
  assumes "ns < 1000000000" and "z \<noteq> []" and "digit_val (hd z) = None" and "hd z \<noteq> CHR ''.''"
  shows "read_fraction (fraction_text ns @ z) = (ns, z)"
proof (cases "ns = 0")
  case True
  with assms show ?thesis by (cases z) (simp_all add: fraction_text_def read_fraction_def)
next
  case False
  define t where "t = rev (dropWhile (\<lambda>c. c = CHR ''0'') (rev (pad 9 ns)))"
  define k where "k = length (takeWhile (\<lambda>c. c = CHR ''0'') (rev (pad 9 ns)))"
  have "takeWhile (\<lambda>c. c = CHR ''0'') (rev (pad 9 ns)) = replicate k (CHR ''0'')"
    unfolding k_def by (rule replicate_length_same [symmetric]) (auto dest: set_takeWhileD)
  then have "rev (pad 9 ns) = replicate k (CHR ''0'') @ rev t"
    using takeWhile_dropWhile_id [of "\<lambda>c. c = CHR ''0''" "rev (pad 9 ns)"] by (simp add: t_def)
  then have p: "pad 9 ns = t @ replicate k (CHR ''0'')"
    by (metis rev_append rev_replicate rev_rev_ident)
  have "length (pad 9 ns) = 9" using assms(1) by simp
  then have len: "9 - length t = k" by (simp add: p)
  have "dec_value t * 10 ^ k = ns" using dec_value_pad [of 9 ns] by (simp add: p dec_value_zeros)
  moreover have "\<forall>c \<in> set t. digit_val c \<noteq> None" using pad_digits [of _ 9 ns] by (auto simp: p)
  moreover from assms(2,3) have "takeWhile (\<lambda>c. digit_val c \<noteq> None) z = []" "dropWhile (\<lambda>c. digit_val c \<noteq> None) z = z"
    by (cases z; simp)+
  ultimately show ?thesis
    using False len by (simp add: fraction_text_def read_fraction_def Let_def takeWhile_append2 dropWhile_append2 flip: t_def)
qed

lemma zone_start: "zone_text off \<noteq> []" "digit_val (hd (zone_text off)) = None" "hd (zone_text off) \<noteq> CHR ''.''"
  by (simp_all add: zone_text_def Let_def digit_val_def)

lemma read_zone_text:
  assumes "60 dvd off" and "\<bar>off\<bar> < 360000"
  shows "read_zone (zone_text off) = off"
proof (cases "off = 0")
  case False
  define z where "z = \<bar>off\<bar> div 60"
  have z: "60 * z = \<bar>off\<bar>" using assms(1) by (simp add: z_def)
  with assms(2) have "0 \<le> z" "z div 60 < 100" by auto
  then have len: "length (pad 2 (nat (z div 60))) = 2" by simp
  have minus: "off \<le> - 60 \<longleftrightarrow> off < 0" using assms(1) False by presburger
  have "3600 * (z div 60) + 60 * (z mod 60) = \<bar>off\<bar>" using z mult_div_mod_eq [of 60 z] by linarith
  moreover have "0 \<le> z div 60" "0 \<le> z mod 60" "z mod 60 < 60" using \<open>0 \<le> z\<close> by (simp_all add: pos_imp_zdiv_nonneg_iff)
  ultimately show ?thesis
    using False len minus by (simp add: zone_text_def read_zone_def Let_def flip: z_def)
qed (simp add: zone_text_def read_zone_def)

text \<open>The parts of a time stamp are those of its instant.\<close>

lemma clock_spec:
  assumes "clock off t = ((y, m, d), sec, ns)"
  shows "t = 1000000000 * (86400 * (days_of_date y m d - 719162) + int sec - off) + int ns"
    "sec < 86400" "ns < 1000000000" "1 \<le> m" "m \<le> 12" "1 \<le> d" "d \<le> 31" "d \<le> daysIn m y"
proof -
  define u where "u = t + 1000000000 * off"
  define secs where "secs = u div 1000000000"
  define D where "D = secs div 86400"
  from assms have date: "absDate (D + 719162) = (y, m, d)" and sec: "sec = nat (secs mod 86400)" and ns: "ns = nat (u mod 1000000000)"
    by (simp_all add: clock_def Let_def flip: u_def secs_def D_def)
  note days = absDate_days [OF date]
  show "sec < 86400" "ns < 1000000000" by (simp_all add: sec ns)
  show "1 \<le> m" "m \<le> 12" "1 \<le> d" "d \<le> 31" "d \<le> daysIn m y" using days by blast+
  have "u = 1000000000 * secs + int ns" by (simp add: secs_def ns)
  moreover have "secs = 86400 * D + int sec" by (simp add: D_def sec)
  ultimately have "t + 1000000000 * off = 1000000000 * (86400 * D + int sec) + int ns" by (simp add: u_def)
  then show "t = 1000000000 * (86400 * (days_of_date y m d - 719162) + int sec - off) + int ns"
    using days(1) by (simp add: algebra_simps)
qed

lemma seconds_split: "3600 * (sec div 3600) + 60 * (sec div 60 mod 60) + sec mod 60 = (sec :: nat)"
proof -
  define q where "q = sec div 60"
  have "sec = 60 * q + sec mod 60" "q = 60 * (q div 60) + q mod 60" by (simp_all add: q_def)
  moreover have "sec div 3600 = q div 60" by (simp add: q_def flip: div_mult2_eq)
  ultimately show ?thesis unfolding q_def [symmetric] by linarith
qed

text \<open>A time stamp denotes its instant, to the nanosecond, if the time zone is a whole number of minutes
  from UTC.\<close>

lemma read_RFC3339Nano:
  assumes "year_ok off t" and "60 dvd off" and "\<bar>off\<bar> < 360000"
  shows "read_rfc3339 (RFC3339Nano off t) = t"
proof -
  obtain y m d sec ns where c: "clock off t = ((y, m, d), sec, ns)" by (metis prod_cases3)
  note spec = clock_spec [OF c]
  from c assms(1) have y: "0 \<le> y" "y < 10000" by (simp_all add: year_ok_def)
  have len: "length (pad 4 (nat y)) = 4" "length (pad 2 m) = 2" "length (pad 2 (nat d)) = 2"
    "length (pad 2 (sec div 3600)) = 2" "length (pad 2 (sec div 60 mod 60)) = 2" "length (pad 2 (sec mod 60)) = 2"
    using y spec by simp_all
  let ?s = "RFC3339Nano off t"
  have s: "?s = pad 4 (nat y) @ ''-'' @ pad 2 m @ ''-'' @ pad 2 (nat d) @ ''T''
     @ pad 2 (sec div 3600) @ '':'' @ pad 2 (sec div 60 mod 60) @ '':'' @ pad 2 (sec mod 60) @ fraction_text ns @ zone_text off"
    by (simp add: RFC3339Nano_def c)
  have parts: "take 4 ?s = pad 4 (nat y)" "take 2 (drop 5 ?s) = pad 2 m" "take 2 (drop 8 ?s) = pad 2 (nat d)"
    "take 2 (drop 11 ?s) = pad 2 (sec div 3600)" "take 2 (drop 14 ?s) = pad 2 (sec div 60 mod 60)"
    "take 2 (drop 17 ?s) = pad 2 (sec mod 60)" "drop 19 ?s = fraction_text ns @ zone_text off"
    unfolding s using len by simp_all
  have "3600 * int (sec div 3600) + 60 * int (sec div 60 mod 60) + int (sec mod 60) = int sec"
    using arg_cong [OF seconds_split [of sec], of int] by (simp only: of_nat_add of_nat_mult of_nat_numeral)
  with spec y show ?thesis
    unfolding read_rfc3339_def parts
    by (simp add: read_fraction_text [OF spec(3) zone_start] read_zone_text [OF assms(2,3)] Let_def)
qed

text \<open>A time stamp is ASCII.\<close>

lemma ascii_pad [simp]: "ascii (pad w n)"
proof -
  have "(of_char c :: nat) < 0x80" if "c \<in> set (pad w n)" for c
    using pad_digits [OF that] by (auto simp: digit_val_def Let_def split: if_splits)
  then show ?thesis by (simp add: ascii_def list_all_iff)
qed

lemma ascii_fraction [simp]: "ascii (fraction_text n)"
  using ascii_pad [of 9 n] by (auto simp: fraction_text_def ascii_def list_all_iff dest: set_dropWhileD)

lemma ascii_RFC3339Nano [simp]: "ascii (RFC3339Nano off t)"
  by (simp add: RFC3339Nano_def zone_text_def Let_def split: prod.split)

end
