(* ===== verification/Report_Data.thy ===== *)
theory Report_Data
  imports Go_Json_Codec Go_Time "HOL-Library.List_Lexorder" "HOL-Library.Char_ord"
begin

text \<open>
  The data of a report (the types of \<open>report.go\<close>) and their JSON form, which the tags of the structs
  describe: the names of the members, and which of them are left out when they are empty.

  The maps of a report are association lists with distinct keys; \<open>encoding/json\<close> writes them in
  the order of their keys. A \<open>time.Time\<close> is a number of nanoseconds since the epoch, written in the
  local time zone, whose offset at an instant is \<open>zone\<close>. The priority of a metadata template, a
  floating point number, is counted in tenths.
\<close>

section \<open>The data of a report\<close>

record tableTemplate =
  tt_ID :: string
  tt_Label :: string
  tt_Prefix :: string

record metadataTemplate =
  mt_ID :: string
  mt_Label :: string
  mt_Truncate :: int
  mt_Datatype :: string
  mt_Priority :: nat
  mt_From :: string

record controlData =
  cd_Dead :: bool

record controlEntry =
  ce_Timestamp :: int
  ce_Value :: controlData

record stringEntry =
  se_Timestamp :: int
  se_Value :: string

record node =
  LatestControls :: "(string \<times> controlEntry) list"
  Latest :: "(string \<times> stringEntry) list"

record control =
  ct_ID :: string
  ct_Human :: string
  ct_Icon :: string
  ct_Rank :: int

record topology =
  Nodes :: "(string \<times> node) list"
  Controls :: "(string \<times> control) list"
  MetadataTemplates :: "(string \<times> metadataTemplate) list"
  TableTemplates :: "(string \<times> tableTemplate) list"

record pluginSpec =
  ps_ID :: string
  ps_Label :: string
  ps_Description :: string
  ps_Interfaces :: "string list"
  ps_APIVersion :: string

record report =
  rp_Container :: topology
  rp_Plugins :: "pluginSpec list"

section \<open>Values\<close>

text \<open>A member with the option \<open>omitempty\<close>.\<close>

definition omit :: "bool \<Rightarrow> string \<Rightarrow> json \<Rightarrow> (string \<times> json) list" where
  "omit is_empty name v = (if is_empty then [] else [(name, v)])"

definition encode_map :: "('a \<Rightarrow> json) \<Rightarrow> (string \<times> 'a) list \<Rightarrow> json" where
  "encode_map enc m = JObj (map (\<lambda>(k, x). (k, enc x)) (sort_key fst m))"

definition encode_tenths :: "nat \<Rightarrow> json" where
  "encode_tenths n = JNum (nat_digits (n div 10) @ (if n mod 10 = 0 then [] else CHR ''.'' # nat_digits (n mod 10)))"

definition encode_time :: "(int \<Rightarrow> int) \<Rightarrow> int \<Rightarrow> json" where
  "encode_time zone t = JStr (RFC3339Nano (zone t) t)"

section \<open>Structs\<close>

definition encode_tableTemplate :: "tableTemplate \<Rightarrow> json" where
  "encode_tableTemplate t = JObj
     [(''id'', encode_string (tt_ID t)),
      (''label'', encode_string (tt_Label t)),
      (''prefix'', encode_string (tt_Prefix t))]"

definition encode_metadataTemplate :: "metadataTemplate \<Rightarrow> json" where
  "encode_metadataTemplate m = JObj
     ([(''id'', encode_string (mt_ID m))]
      @ omit (mt_Label m = []) ''label'' (encode_string (mt_Label m))
      @ omit (mt_Truncate m = 0) ''truncate'' (encode_int (mt_Truncate m))
      @ omit (mt_Datatype m = []) ''dataType'' (encode_string (mt_Datatype m))
      @ omit (mt_Priority m = 0) ''priority'' (encode_tenths (mt_Priority m))
      @ omit (mt_From m = []) ''from'' (encode_string (mt_From m)))"

definition encode_controlData :: "controlData \<Rightarrow> json" where
  "encode_controlData d = JObj [(''dead'', encode_bool (cd_Dead d))]"

definition encode_controlEntry :: "(int \<Rightarrow> int) \<Rightarrow> controlEntry \<Rightarrow> json" where
  "encode_controlEntry zone e = JObj
     [(''timestamp'', encode_time zone (ce_Timestamp e)),
      (''value'', encode_controlData (ce_Value e))]"

definition encode_stringEntry :: "(int \<Rightarrow> int) \<Rightarrow> stringEntry \<Rightarrow> json" where
  "encode_stringEntry zone e = JObj
     [(''timestamp'', encode_time zone (se_Timestamp e)),
      (''value'', encode_string (se_Value e))]"

definition encode_node :: "(int \<Rightarrow> int) \<Rightarrow> node \<Rightarrow> json" where
  "encode_node zone n = JObj
     (omit (LatestControls n = []) ''latestControls'' (encode_map (encode_controlEntry zone) (LatestControls n))
      @ omit (Latest n = []) ''latest'' (encode_map (encode_stringEntry zone) (Latest n)))"

definition encode_control :: "control \<Rightarrow> json" where
  "encode_control c = JObj
     [(''id'', encode_string (ct_ID c)),
      (''human'', encode_string (ct_Human c)),
      (''icon'', encode_string (ct_Icon c)),
      (''rank'', encode_int (ct_Rank c))]"

definition encode_topology :: "(int \<Rightarrow> int) \<Rightarrow> topology \<Rightarrow> json" where
  "encode_topology zone t = JObj
     ([(''nodes'', encode_map (encode_node zone) (Nodes t)),
       (''controls'', encode_map encode_control (Controls t))]
      @ omit (MetadataTemplates t = []) ''metadata_templates'' (encode_map encode_metadataTemplate (MetadataTemplates t))
      @ omit (TableTemplates t = []) ''table_templates'' (encode_map encode_tableTemplate (TableTemplates t)))"

definition encode_pluginSpec :: "pluginSpec \<Rightarrow> json" where
  "encode_pluginSpec p = JObj
     ([(''id'', encode_string (ps_ID p)),
       (''label'', encode_string (ps_Label p))]
      @ omit (ps_Description p = []) ''description'' (encode_string (ps_Description p))
      @ [(''interfaces'', encode_slice encode_string (Some (ps_Interfaces p)))]
      @ omit (ps_APIVersion p = []) ''api_version'' (encode_string (ps_APIVersion p)))"

definition encode_report :: "(int \<Rightarrow> int) \<Rightarrow> report \<Rightarrow> json" where
  "encode_report zone r = JObj
     [(''Container'', encode_topology zone (rp_Container r)),
      (''Plugins'', encode_slice encode_pluginSpec (Some (rp_Plugins r)))]"

section \<open>Texts\<close>

text \<open>\<open>json.Marshal\<close> of a report fails only on a time stamp whose year is not in 0..9999.\<close>

definition times_ok :: "(int \<Rightarrow> int) \<Rightarrow> node \<Rightarrow> bool" where
  "times_ok zone n \<longleftrightarrow> list_all (\<lambda>(_, e). year_ok (zone (ce_Timestamp e)) (ce_Timestamp e)) (LatestControls n)
     \<and> list_all (\<lambda>(_, e). year_ok (zone (se_Timestamp e)) (se_Timestamp e)) (Latest n)"

definition marshal_report :: "(int \<Rightarrow> int) \<Rightarrow> report \<Rightarrow> error + string" where
  "marshal_report zone rpt =
     (if list_all (\<lambda>(_, n). times_ok zone n) (Nodes (rp_Container rpt))
      then Inr (json_text (encode_report zone rpt))
      else Inl (ExtErr ''json: error calling MarshalJSON for type time.Time: Time.MarshalJSON: year outside of range [0,9999]''))"

text \<open>The text is a JSON text.\<close>

lemma scan_fraction: "\<forall>c \<in> set t. is_digit c \<Longrightarrow> scan_number Fraction t = Parsed t []"
  by (induction t) (simp_all add: num_final_def)

lemma num_states:
  "num_next Zero (CHR ''.'') = Some Dot" "num_next Digits (CHR ''.'') = Some Dot" "num_next Neg (CHR ''.'') = None"
  by (simp_all add: is_digit_def digit_val_def)

lemma scan_number_point:
  "scan_number st t = Parsed t [] \<Longrightarrow> scan_number Dot u = Parsed u [] \<Longrightarrow> st = Neg \<or> st = Zero \<or> st = Digits \<Longrightarrow>
   \<forall>c \<in> set t. is_digit c \<Longrightarrow> scan_number st (t @ CHR ''.'' # u) = Parsed (t @ CHR ''.'' # u) []"
proof (induction t arbitrary: st)
  case Nil
  then show ?case by (auto simp: num_states num_final_def is_digit_def digit_val_def)
next
  case (Cons c t)
  then have "is_digit c" "c \<noteq> CHR ''.''" "c \<noteq> CHR ''e''" "c \<noteq> CHR ''E''" by (auto simp: is_digit_def digit_val_def)
  with Cons show ?case by (auto simp: map_parsed_Parsed split: option.splits if_splits)
qed

lemma number_point: "number (nat_digits a @ CHR ''.'' # nat_digits b)"
proof -
  obtain c t where t: "nat_digits a = c # t" by (cases "nat_digits a") simp_all
  obtain d u where u: "nat_digits b = d # u" by (cases "nat_digits b") simp_all
  have "\<forall>x \<in> set (c # t). is_digit x" "\<forall>x \<in> set (d # u). is_digit x"
    using nat_digits_digits [of _ a] nat_digits_digits [of _ b] by (auto simp: t u)
  then have d: "is_digit c" "\<forall>x \<in> set t. is_digit x" "is_digit d" "\<forall>x \<in> set u. is_digit x" by simp_all
  have dot: "scan_number Dot (d # u) = Parsed (d # u) []" using d by (simp add: scan_fraction)
  from number_nat [of a] obtain st where st: "num_start c = Some st" "scan_number st t = Parsed t []"
    by (auto simp: number_def t split: option.splits)
  moreover from st(1) have "st = Neg \<or> st = Zero \<or> st = Digits" by (auto simp: num_start_def split: if_splits)
  ultimately have "scan_number st (t @ CHR ''.'' # d # u) = Parsed (t @ CHR ''.'' # d # u) []"
    using dot d(2) by (intro scan_number_point)
  with st(1) show ?thesis by (simp add: number_def t u)
qed

lemma printable_values [simp]:
  "printable (encode_string x)" "printable (encode_bool b)" "printable (encode_int i)" "printable (encode_tenths n)"
  "printable (encode_time zone t)"
  by (simp_all add: encode_string_def encode_bool_def encode_int_def encode_tenths_def encode_time_def number_point)

lemma printable_map: "(\<And>x. printable (enc x)) \<Longrightarrow> printable (encode_map enc m)"
  by (simp add: encode_map_def list_all_iff split: prod.split)

lemma printable_slice: "(\<And>x. printable (enc x)) \<Longrightarrow> printable (encode_slice enc m)"
  by (cases m) (simp_all add: encode_slice_def list_all_iff)

lemma printable_structs:
  "printable (encode_tableTemplate t)" "printable (encode_metadataTemplate m)" "printable (encode_controlEntry zone e)"
  "printable (encode_stringEntry zone se)" "printable (encode_control c)" "printable (encode_pluginSpec p)"
  by (simp_all add: encode_tableTemplate_def encode_metadataTemplate_def encode_controlEntry_def encode_controlData_def
      encode_stringEntry_def encode_control_def encode_pluginSpec_def omit_def printable_slice)

lemma printable_report [simp]: "printable (encode_report zone r)"
proof -
  have "printable (encode_node zone n)" for n
    by (simp add: encode_node_def omit_def printable_map printable_structs)
  then show ?thesis
    by (simp add: encode_report_def encode_topology_def omit_def printable_map printable_structs printable_slice)
qed

end
