(* ===== verification/Report.thy ===== *)
theory Report
  imports Pods Report_Data "HOL-Library.AList"
begin

text \<open>
  The reporter (\<open>report.go\<close>): the report that Scope polls, with a node for every container that
  is running or stopped, and the controls that the nodes offer.

  The maps of a report are written with \<open>AList.update\<close>. The fourth layer of the process state holds
  the map that the closure in \<open>getContainerNodes\<close> captures and fills.
\<close>

section \<open>State\<close>

record 'w Process = "'w Globals" +
  captured_nodes :: "(string \<times> node) list"

section \<open>Node IDs\<close>

definition nodeSuffix :: string where
  "nodeSuffix = '';<container>''"

definition containerIDToNodeID :: "string \<Rightarrow> string" where
  "containerIDToNodeID containerID = containerID @ nodeSuffix"

definition nodeIDToContainerID :: "string \<Rightarrow> error + string" where
  "nodeIDToContainerID nodeID =
     (if \<not> HasSuffix nodeID nodeSuffix
      then Inl (Errorf ''no suffix %q in node ID %q'' [ArgS nodeSuffix, ArgS nodeID])
      else Inr (TrimSuffix nodeID nodeSuffix))"

section \<open>Controls\<close>

definition networkControlTablePrefix :: string where
  "networkControlTablePrefix = ''network-control-table-''"

type_synonym 'w handler = "int \<Rightarrow> ('w Process, error option) go"

record 'h extControl =
  ec_control :: control
  ec_handler :: 'h

definition getLatencyControls :: "'w env \<Rightarrow> nat \<Rightarrow> 'w handler extControl list" where
  "getLatencyControls E tid =
     [\<lparr>ec_control = \<lparr>ct_ID = networkControlTablePrefix @ ''slow'', ct_Human = ''Traffic speed: slow'',
         ct_Icon = ''fa-hourglass-1'', ct_Rank = 20\<rparr>,
       ec_handler = (\<lambda>pid. ApplyLatency E tid pid ''2000ms'')\<rparr>,
      \<lparr>ec_control = \<lparr>ct_ID = networkControlTablePrefix @ ''medium'', ct_Human = ''Traffic speed: medium'',
         ct_Icon = ''fa-hourglass-2'', ct_Rank = 21\<rparr>,
       ec_handler = (\<lambda>pid. ApplyLatency E tid pid ''1000ms'')\<rparr>,
      \<lparr>ec_control = \<lparr>ct_ID = networkControlTablePrefix @ ''fast'', ct_Human = ''Traffic speed: fast'',
         ct_Icon = ''fa-hourglass-3'', ct_Rank = 22\<rparr>,
       ec_handler = (\<lambda>pid. ApplyLatency E tid pid ''500ms'')\<rparr>]"

definition getPacketLossControls :: "'w env \<Rightarrow> nat \<Rightarrow> 'w handler extControl list" where
  "getPacketLossControls E tid =
     [\<lparr>ec_control = \<lparr>ct_ID = networkControlTablePrefix @ ''pkt-drop-low'', ct_Human = ''Packet drop: low'',
         ct_Icon = ''fa-cut'', ct_Rank = 23\<rparr>,
       ec_handler = (\<lambda>pid. ApplyPacketLoss E tid pid ''10%'')\<rparr>]"

definition getGeneralControls :: "'w env \<Rightarrow> nat \<Rightarrow> 'w handler extControl list" where
  "getGeneralControls E tid =
     [\<lparr>ec_control = \<lparr>ct_ID = networkControlTablePrefix @ ''clear'', ct_Human = ''Clear traffic control settings'',
         ct_Icon = ''fa-times-circle'', ct_Rank = 24\<rparr>,
       ec_handler = (\<lambda>pid. ClearTrafficControlSettings E tid pid)\<rparr>]"

definition getControls :: "'w env \<Rightarrow> nat \<Rightarrow> 'w handler extControl list" where
  "getControls E tid = getLatencyControls E tid @ getPacketLossControls E tid @ getGeneralControls E tid"

definition getTrafficControls :: "'w env \<Rightarrow> nat \<Rightarrow> (string \<times> control) list" where
  "getTrafficControls E tid =
     foldl (\<lambda>m c. AList.update (ct_ID (ec_control c)) (ec_control c) m) [] (getControls E tid)"

definition getTrafficNodeControls :: "'w env \<Rightarrow> nat \<Rightarrow> int \<Rightarrow> bool \<Rightarrow> (string \<times> controlEntry) list" where
  "getTrafficNodeControls E tid timestamp dead =
     (let entry = \<lparr>ce_Timestamp = timestamp, ce_Value = \<lparr>cd_Dead = dead\<rparr>\<rparr> in
      foldl (\<lambda>m c. AList.update (ct_ID (ec_control c)) entry m) [] (getControls E tid))"

definition getMetadataTemplate :: "(string \<times> metadataTemplate) list" where
  "getMetadataTemplate =
     [(''network-control-latency'', \<lparr>mt_ID = ''network-control-latency'', mt_Label = ''Latency'',
         mt_Truncate = 0, mt_Datatype = [], mt_Priority = 135, mt_From = ''latest''\<rparr>),
      (''network-control-pktloss'', \<lparr>mt_ID = ''network-control-pktloss'', mt_Label = ''Packet Loss'',
         mt_Truncate = 0, mt_Datatype = [], mt_Priority = 136, mt_From = ''latest''\<rparr>)]"

definition getTableTemplate :: "(string \<times> tableTemplate) list" where
  "getTableTemplate =
     [(''network-control-table'', \<lparr>tt_ID = ''network-control-table'', tt_Label = ''Network Control'',
         tt_Prefix = networkControlTablePrefix\<rparr>)]"

text \<open>The loop of \<open>GetHandler\<close>: the handler of the first control with the ID.\<close>

fun find_handler :: "string \<Rightarrow> 'h extControl list \<Rightarrow> 'h option" where
  "find_handler controlID [] = None"
| "find_handler controlID (c # cs) =
     (if ct_ID (ec_control c) = controlID then Some (ec_handler c) else find_handler controlID cs)"

definition GetHandler ::
  "'w env \<Rightarrow> nat \<Rightarrow> string \<Rightarrow> string \<Rightarrow> ('w Process, error + ('w Process, error option) go) go" where
  "GetHandler E tid nodeID controlID = (case nodeIDToContainerID nodeID of
      Inl err \<Rightarrow> go_return (Inl (Errorf ''failed to get container ID from node ID %q: %v'' [ArgS nodeID, ArgE err]))
    | Inr containerID \<Rightarrow> go_bind (Store_Container containerID) (\<lambda>(container, found).
        if \<not> found then go_return (Inl (Errorf ''container %s not found'' [ArgS containerID]))
        else case find_handler controlID (getControls E tid) of
            None \<Rightarrow> go_return (Inl (Errorf ''unknown control ID %q for node ID %q'' [ArgS controlID, ArgS nodeID]))
          | Some handler \<Rightarrow> go_return (Inr (handler (PID container)))))"

section \<open>Nodes\<close>

definition make_node :: "'w env \<Rightarrow> nat \<Rightarrow> int \<Rightarrow> bool \<Rightarrow> NetworkControlStatus \<Rightarrow> node" where
  "make_node E tid timestamp dead status =
     \<lparr>LatestControls = getTrafficNodeControls E tid timestamp dead,
      Latest =
        [(networkControlTablePrefix @ ''dst-pod'', \<lparr>se_Timestamp = timestamp, se_Value = ncs_dpod status\<rparr>),
         (networkControlTablePrefix @ ''net-bandwidth'', \<lparr>se_Timestamp = timestamp, se_Value = ncs_latency status\<rparr>),
         (networkControlTablePrefix @ ''net-packet'', \<lparr>se_Timestamp = timestamp, se_Value = ncs_packet status\<rparr>)]\<rparr>"

text \<open>The branch of the callback that adds a node.\<close>

definition add_node :: "'w env \<Rightarrow> nat \<Rightarrow> int \<Rightarrow> bool \<Rightarrow> string \<Rightarrow> ('w Process, unit) go" where
  "add_node E tid timestamp dead containerID =
     (let nodeID = containerIDToNodeID containerID in
      go_bind (getPod E containerID) (\<lambda>(spod, _).
      go_bind (getStatusByPod E spod) (\<lambda>(status, err). case err of
          Some _ \<Rightarrow> go_exit 1
        | None \<Rightarrow> (case status of
            None \<Rightarrow> go_panic NilDeref
          | Some st \<Rightarrow> go_modify (\<lambda>s.
              s\<lparr>captured_nodes := AList.update nodeID (make_node E tid timestamp dead st) (captured_nodes s)\<rparr>)))))"

definition node_callback :: "'w env \<Rightarrow> nat \<Rightarrow> int \<Rightarrow> string \<Rightarrow> Container \<Rightarrow> ('w Process, unit) go" where
  "node_callback E tid timestamp containerID container = (case State container of
      Created \<Rightarrow> go_return ()
    | Destroyed \<Rightarrow> go_return ()
    | Stopped \<Rightarrow> add_node E tid timestamp True containerID
    | Running \<Rightarrow> add_node E tid timestamp False containerID)"

definition getContainerNodes :: "'w env \<Rightarrow> nat \<Rightarrow> string list \<Rightarrow> ('w Process, (string \<times> node) list) go" where
  "getContainerNodes E tid ids =
     go_seq (go_modify (\<lambda>s. s\<lparr>captured_nodes := []\<rparr>))
     (go_bind (call (time_Now E)) (\<lambda>timestamp.
      go_seq (ForEach ids (node_callback E tid timestamp))
      (go_gets captured_nodes)))"

text \<open>The struct that \<open>RawReport\<close> builds, and its text.\<close>

definition make_report :: "'w env \<Rightarrow> nat \<Rightarrow> string list \<Rightarrow> ('w Process, report) go" where
  "make_report E tid ids = go_bind (getContainerNodes E tid ids) (\<lambda>nodes. go_return
     \<lparr>rp_Container = \<lparr>Nodes = nodes, Controls = getTrafficControls E tid,
        MetadataTemplates = getMetadataTemplate, TableTemplates = getTableTemplate\<rparr>,
      rp_Plugins = [\<lparr>ps_ID = ''network-control'', ps_Label = ''Network control'',
        ps_Description = ''Adds Network controls to the running Docker containers'',
        ps_Interfaces = [''reporter'', ''controller''], ps_APIVersion = ''1''\<rparr>]\<rparr>)"

definition RawReport :: "'w env \<Rightarrow> nat \<Rightarrow> string list \<Rightarrow> ('w Process, error + string) go" where
  "RawReport E tid ids = go_bind (make_report E tid ids) (\<lambda>rpt. go_return
     (case marshal_report (local_offset E) rpt of
        Inl err \<Rightarrow> Inl (Errorf ''failed to marshal the report: %v'' [ArgE err])
      | Inr raw \<Rightarrow> Inr raw))"

end
