(* ===== verification/Report_Props.thy ===== *)
theory Report_Props
  imports Report
begin

text \<open>
  Properties of the reporter: node IDs, the agreement between the controls a report offers and
  the handlers that are found for them, which containers a report shows and what it says of
  them, and when a report cannot be made.
\<close>

section \<open>Node IDs and controls\<close>

text \<open>
  Node IDs and container IDs correspond one to one. A node ID is accepted exactly when it
  is the node ID of some container, and gives that container back; so no two containers share a
  node of a report.
\<close>

lemma nodeID_roundtrip: "nodeIDToContainerID n = Inr k \<longleftrightarrow> n = containerIDToNodeID k"
  by (auto simp: nodeIDToContainerID_def containerIDToNodeID_def HasSuffix_iff)

lemma nodeID_inj [simp]: "containerIDToNodeID k = containerIDToNodeID k' \<longleftrightarrow> k = k'"
  by (simp add: containerIDToNodeID_def)

lemma nodeID_back [simp]: "nodeIDToContainerID (containerIDToNodeID k) = Inr k"
  by (simp add: nodeIDToContainerID_def containerIDToNodeID_def)

lemma nodeID_error:
  "nodeIDToContainerID n = Inl e \<Longrightarrow> n \<noteq> containerIDToNodeID k"
  by auto

lemma map_of_foldl_update:
  "distinct (map f cs) \<Longrightarrow> map_of (foldl (\<lambda>m c. AList.update (f c) (g c) m) m0 cs) x =
     (case find (\<lambda>c. f c = x) cs of Some c \<Rightarrow> Some (g c) | None \<Rightarrow> map_of m0 x)"
proof (induction cs arbitrary: m0)
  case Nil
  then show ?case by simp
next
  case (Cons c cs)
  then have d: "f c \<notin> f ` set cs" "distinct (map f cs)" by auto
  have "find (\<lambda>y. f y = x) cs = None" if "f c = x" using d(1) that by (auto simp: find_None_iff image_iff)
  with Cons.IH [OF d(2), of "AList.update (f c) (g c) m0"] show ?case
    by (cases "f c = x") (simp_all add: update_conv' split: option.split)
qed

lemma find_handler_find: "find_handler x cs = map_option ec_handler (find (\<lambda>c. ct_ID (ec_control c) = x) cs)"
  by (induction cs) auto

lemmas control_lists = getControls_def getLatencyControls_def getPacketLossControls_def getGeneralControls_def

lemma control_IDs:
  "map (\<lambda>c. ct_ID (ec_control c)) (getControls E tid) =
     map ((@) networkControlTablePrefix) [''slow'', ''medium'', ''fast'', ''pkt-drop-low'', ''clear'']"
  by (simp add: control_lists)

lemma distinct_control_IDs: "distinct (map (\<lambda>c. ct_ID (ec_control c)) (getControls E tid))"
  unfolding control_IDs by (simp add: networkControlTablePrefix_def)

lemma GetHandler_run:
  assumes "\<not> lock s"
  shows "GetHandler E tid n x s = (Returns (case nodeIDToContainerID n of
      Inl err \<Rightarrow> Inl (Errorf ''failed to get container ID from node ID %q: %v'' [ArgS n, ArgE err])
    | Inr k \<Rightarrow> (case containers s k of
        None \<Rightarrow> Inl (Errorf ''container %s not found'' [ArgS k])
      | Some c \<Rightarrow> (case find_handler x (getControls E tid) of
          None \<Rightarrow> Inl (Errorf ''unknown control ID %q for node ID %q'' [ArgS x, ArgS n])
        | Some h \<Rightarrow> Inr (h (PID c))))), s)"
  using assms by (simp add: GetHandler_def go_run split: sum.split option.split)

text \<open>What each control is meant to do to the process of a container.\<close>

definition control_table :: "'w env \<Rightarrow> nat \<Rightarrow> int \<Rightarrow> (string \<times> ('w Process, error option) go) list" where
  "control_table E tid pid =
     [(networkControlTablePrefix @ ''slow'', ApplyLatency E tid pid ''2000ms''),
      (networkControlTablePrefix @ ''medium'', ApplyLatency E tid pid ''1000ms''),
      (networkControlTablePrefix @ ''fast'', ApplyLatency E tid pid ''500ms''),
      (networkControlTablePrefix @ ''pkt-drop-low'', ApplyPacketLoss E tid pid ''10%''),
      (networkControlTablePrefix @ ''clear'', ClearTrafficControlSettings E tid pid)]"

lemma find_handler_table:
  "map_option (\<lambda>h. h pid) (find_handler x (getControls E tid)) = map_of (control_table E tid pid) x"
  by (simp add: control_lists control_table_def)

lemma find_handler_table_iff:
  "find_handler x (getControls E tid) = None \<longleftrightarrow> map_of (control_table E tid pid) x = None"
  by (simp add: find_handler_table [symmetric])

lemma advertised_table:
  "map_of (getTrafficControls E tid) x = None \<longleftrightarrow> map_of (control_table E tid pid) x = None"
  "map_of (getTrafficNodeControls E tid ts dead) x = None \<longleftrightarrow> map_of (control_table E tid pid) x = None"
  unfolding getTrafficControls_def getTrafficNodeControls_def Let_def find_handler_table_iff [symmetric]
  by (auto simp: map_of_foldl_update [OF distinct_control_IDs] find_handler_find split: option.splits)

text \<open>
  C11: the controls of a report are those that can be invoked. For a container in the store, the
  handler lookup succeeds for exactly the control IDs that every report defines and that every
  node offers, five in all; the handler is applied to the PID stored for the container: the
  three speeds set 2000, 1000 and 500 ms of latency, the packet drop 10 per cent loss, and clear
  clears. For a container that is not in the store and for a node ID of another form the lookup
  fails, and it never changes the state.
\<close>

theorem advertised_controls_handled:
  assumes "\<not> lock s"
  shows "\<exists>q. GetHandler E tid n x s = (Returns q, s)
    \<and> ((\<exists>h. q = Inr h) \<longleftrightarrow> (\<exists>k c. n = containerIDToNodeID k \<and> containers s k = Some c
          \<and> map_of (getTrafficControls E tid) x \<noteq> None))
    \<and> (map_of (getTrafficControls E tid) x \<noteq> None \<longleftrightarrow> map_of (getTrafficNodeControls E tid ts dead) x \<noteq> None)
    \<and> (\<forall>k c h. n = containerIDToNodeID k \<and> containers s k = Some c \<and> q = Inr h \<longrightarrow>
         map_of (control_table E tid (PID c)) x = Some h)"
proof (cases "nodeIDToContainerID n")
  case (Inl e)
  then show ?thesis
    by (auto simp: GetHandler_run [OF assms] advertised_table [where pid = 0] dest: nodeID_error)
next
  case (Inr k)
  then have n: "n = containerIDToNodeID k" by (simp add: nodeID_roundtrip)
  show ?thesis
  proof (cases "containers s k")
    case None
    with n show ?thesis by (auto simp: GetHandler_run [OF assms] advertised_table [where pid = 0])
  next
    case (Some c)
    have "find_handler x (getControls E tid) = None \<longleftrightarrow> map_of (control_table E tid (PID c)) x = None"
      by (rule find_handler_table_iff)
    with Some n find_handler_table [of "PID c" x E tid] show ?thesis
      by (cases "find_handler x (getControls E tid)")
        (auto simp: GetHandler_run [OF assms] advertised_table [where pid = "PID c"])
  qed
qed

definition demo_process :: "(string \<rightharpoonup> Container) \<Rightarrow> unit Process" where
  "demo_process cs = \<lparr>world = (), thread_ns = (\<lambda>_. 1), trace = [], lock = False, containers = cs,
     trafficControlStatusCache = None, neworkControlStatusCache = Some Map.empty, captured_nodes = []\<rparr>"

definition demo_containers :: "string \<rightharpoonup> Container" where
  "demo_containers = [''c1'' \<mapsto> \<lparr>State = Running, PID = 42\<rparr>, ''c2'' \<mapsto> \<lparr>State = Stopped, PID = 43\<rparr>,
     ''c4'' \<mapsto> \<lparr>State = Created, PID = 0\<rparr>]"

lemma demo_process_free [simp]: "\<not> lock (demo_process cs)" "containers (demo_process cs) = cs"
  by (simp_all add: demo_process_def)

theorem advertised_controls_handled_witness:
  "\<exists>h. GetHandler demo_E 1 ''c1;<container>'' ''network-control-table-clear'' (demo_process demo_containers)
     = (Returns (Inr h), demo_process demo_containers)
     \<and> map_of (control_table demo_E 1 42) ''network-control-table-clear'' = Some h"
proof -
  have n: "''c1;<container>'' = containerIDToNodeID ''c1''"
    by (simp add: containerIDToNodeID_def nodeSuffix_def)
  have c: "containers (demo_process demo_containers) ''c1'' = Some \<lparr>State = Running, PID = 42\<rparr>"
    by (simp add: demo_containers_def)
  have x: "map_of (getTrafficControls demo_E 1) ''network-control-table-clear'' \<noteq> None"
    by (simp add: advertised_table [where pid = 42] control_table_def networkControlTablePrefix_def)
  have "\<not> lock (demo_process demo_containers)" by simp
  from advertised_controls_handled [OF this, of demo_E 1 "containerIDToNodeID ''c1''" "''network-control-table-clear''" 0 False]
  obtain q where q: "GetHandler demo_E 1 (containerIDToNodeID ''c1'') ''network-control-table-clear'' (demo_process demo_containers)
      = (Returns q, demo_process demo_containers)"
    and h: "\<exists>h. q = Inr h"
    and t: "\<forall>k c h. containerIDToNodeID ''c1'' = containerIDToNodeID k \<and> containers (demo_process demo_containers) k = Some c
      \<and> q = Inr h \<longrightarrow> map_of (control_table demo_E 1 (PID c)) ''network-control-table-clear'' = Some h"
    using c x by blast
  from h obtain h where h: "q = Inr h" ..
  with t c have "map_of (control_table demo_E 1 42) ''network-control-table-clear'' = Some h" by fastforce
  with q h show ?thesis unfolding n by blast
qed

section \<open>Nodes\<close>

text \<open>A node as a report should show it: all controls, dead or alive; the pod; and the figures.\<close>

definition node_shows :: "'w env \<Rightarrow> nat \<Rightarrow> int \<Rightarrow> Container \<Rightarrow> docker_container \<Rightarrow> node \<Rightarrow> bool" where
  "node_shows E tid ts c d n \<longleftrightarrow>
     LatestControls n = getTrafficNodeControls E tid ts (State c = Stopped)
     \<and> (\<exists>l p. 140 \<le> l \<and> l < 230 \<and> 5 \<le> p \<and> p < 80 \<and> Latest n =
          [(networkControlTablePrefix @ ''dst-pod'',
              \<lparr>se_Timestamp = ts, se_Value = fst (parsePodName (dc_Name d))\<rparr>),
           (networkControlTablePrefix @ ''net-bandwidth'', \<lparr>se_Timestamp = ts, se_Value = Itoa l\<rparr>),
           (networkControlTablePrefix @ ''net-packet'', \<lparr>se_Timestamp = ts, se_Value = Itoa p\<rparr>)])"

definition shown :: "Container \<Rightarrow> bool" where
  "shown c \<longleftrightarrow> State c \<in> {Running, Stopped}"

definition docker_up :: "'w env \<Rightarrow> bool" where
  "docker_up E \<longleftrightarrow> (\<forall>w. fst (docker_NewClient E ''unix:///var/run/docker.sock'' w) = None)"

definition inspectable ::
  "'w env \<Rightarrow> (string \<Rightarrow> docker_container) \<Rightarrow> (string \<rightharpoonup> Container) \<Rightarrow> bool" where
  "inspectable E D m \<longleftrightarrow> (\<forall>k c w. m k = Some c \<and> shown c \<longrightarrow> fst (docker_InspectContainer E k w) = Inr (D k))"

lemma add_node_run:
  assumes "rand_spec E" and "docker_up E" and "\<forall>w. fst (docker_InspectContainer E k w) = Inr d"
    and "dead = (State c = Stopped)"
  shows "\<exists>w n. add_node E tid ts dead k s = (Returns (),
      s\<lparr>world := w, captured_nodes := AList.update (containerIDToNodeID k) n (captured_nodes s)\<rparr>)
    \<and> node_shows E tid ts c d n"
proof -
  let ?pod = "fst (parsePodName (dc_Name d))"
  obtain w1 where g: "getPod E k s = (Returns (?pod, None), s\<lparr>world := w1\<rparr>)"
    using assms(2,3) by (simp add: getPod_def docker_up_def go_run)
  obtain b l p w2 where st: "140 \<le> l" "l < 230" "5 \<le> p" "p < 80"
      "getStatusByPod E ?pod (s\<lparr>world := w1\<rparr>) = (Returns (Some \<lparr>ncs_spod = [], ncs_dpod = ?pod,
         ncs_bandwidth = Itoa b, ncs_packet = Itoa p, ncs_latency = Itoa l\<rparr>, None), s\<lparr>world := w1\<rparr>\<lparr>world := w2\<rparr>)"
    by (rule getStatusByPod_run [OF assms(1)])
  let ?n = "make_node E tid ts dead \<lparr>ncs_spod = [], ncs_dpod = ?pod, ncs_bandwidth = Itoa b,
    ncs_packet = Itoa p, ncs_latency = Itoa l\<rparr>"
  have "node_shows E tid ts c d ?n" using st assms(4) by (auto simp: node_shows_def make_node_def)
  moreover have "add_node E tid ts dead k s = (Returns (),
      s\<lparr>world := w2, captured_nodes := AList.update (containerIDToNodeID k) ?n (captured_nodes s)\<rparr>)"
    using g st(5) by (simp add: add_node_def Let_def go_run)
  ultimately show ?thesis by blast
qed

lemma node_callback_run:
  assumes "rand_spec E" and "docker_up E" and "shown c \<Longrightarrow> \<forall>w. fst (docker_InspectContainer E k w) = Inr d"
  shows "\<exists>w n. node_callback E tid ts k c s = (Returns (), s\<lparr>world := w, captured_nodes :=
        (if shown c then AList.update (containerIDToNodeID k) n (captured_nodes s) else captured_nodes s)\<rparr>)
    \<and> node_shows E tid ts c d n"
proof -
  have "\<exists>n. node_shows E tid ts c d n"
    by (rule exI [of _ "make_node E tid ts (State c = Stopped) \<lparr>ncs_spod = [],
        ncs_dpod = fst (parsePodName (dc_Name d)), ncs_bandwidth = [], ncs_packet = Itoa 5, ncs_latency = Itoa 140\<rparr>"])
      (auto simp: node_shows_def make_node_def)
  then obtain n where n: "node_shows E tid ts c d n" ..
  show ?thesis
  proof (cases "shown c")
    case True
    then have "node_callback E tid ts k c s = add_node E tid ts (State c = Stopped) k s"
      by (auto simp: shown_def node_callback_def)
    with True add_node_run [OF assms(1,2) assms(3) [OF True] refl] show ?thesis by simp
  next
    case False
    then have "node_callback E tid ts k c s = (Returns (), s)"
      by (cases "State c") (simp_all add: shown_def node_callback_def go_run)
    with False n show ?thesis by (auto intro!: exI [of _ "world s"] exI [of _ n])
  qed
qed

lemma keeps_callback:
  assumes "\<And>s w. f (s\<lparr>world := w\<rparr>) = f s" and "\<And>s c. f (s\<lparr>captured_nodes := c\<rparr>) = f s"
  shows "keeps f (node_callback E tid ts k c)"
proof -
  have "keeps f (add_node E tid ts dead k)" for dead
    unfolding add_node_def getPod_def getStatusByPod_def made_up_status_def random_def Let_def
    by (intro go_keeps assms)
  then show ?thesis by (cases "State c") (simp_all add: node_callback_def go_keeps)
qed

lemma go_for_callback:
  assumes "rand_spec E" and "docker_up E" and "distinct (map fst es)"
    and "\<forall>k c w. (k, c) \<in> set es \<and> shown c \<longrightarrow> fst (docker_InspectContainer E k w) = Inr (D k)"
  shows "\<exists>w nodes. go_for (\<lambda>(k, c). node_callback E tid ts k c) es s =
      (Returns (), s\<lparr>world := w, captured_nodes := nodes\<rparr>)
    \<and> (\<forall>k c. (k, c) \<in> set es \<and> shown c \<longrightarrow>
         (\<exists>n. map_of nodes (containerIDToNodeID k) = Some n \<and> node_shows E tid ts c (D k) n))
    \<and> (\<forall>x. (\<forall>k c. (k, c) \<in> set es \<and> shown c \<longrightarrow> x \<noteq> containerIDToNodeID k) \<longrightarrow>
         map_of nodes x = map_of (captured_nodes s) x)
    \<and> (distinct (map fst (captured_nodes s)) \<longrightarrow> distinct (map fst nodes))"
  using assms(3,4)
proof (induction es arbitrary: s)
  case Nil
  show ?case by (rule exI [of _ "world s"], rule exI [of _ "captured_nodes s"]) (simp add: go_run)
next
  case (Cons e es)
  obtain k c where e: "e = (k, c)" by (cases e)
  have d: "distinct (map fst es)" and k: "k \<notin> fst ` set es" using Cons.prems(1) e by auto
  have ins: "\<forall>w. fst (docker_InspectContainer E k w) = Inr (D k)" if "shown c"
    using Cons.prems(2) e that by auto
  obtain w n where cb: "node_callback E tid ts k c s = (Returns (), s\<lparr>world := w, captured_nodes :=
        (if shown c then AList.update (containerIDToNodeID k) n (captured_nodes s) else captured_nodes s)\<rparr>)"
      and n: "node_shows E tid ts c (D k) n"
    using node_callback_run [OF assms(1,2) ins] by blast
  let ?ns = "if shown c then AList.update (containerIDToNodeID k) n (captured_nodes s) else captured_nodes s"
  let ?s = "s\<lparr>world := w, captured_nodes := ?ns\<rparr>"
  have tl: "\<forall>k c w. (k, c) \<in> set es \<and> shown c \<longrightarrow> fst (docker_InspectContainer E k w) = Inr (D k)"
    using Cons.prems(2) by auto
  obtain v nodes where run: "go_for (\<lambda>(k, c). node_callback E tid ts k c) es ?s =
        (Returns (), ?s\<lparr>world := v, captured_nodes := nodes\<rparr>)"
    and new: "\<forall>k c. (k, c) \<in> set es \<and> shown c \<longrightarrow>
         (\<exists>n. map_of nodes (containerIDToNodeID k) = Some n \<and> node_shows E tid ts c (D k) n)"
    and old: "\<forall>x. (\<forall>k c. (k, c) \<in> set es \<and> shown c \<longrightarrow> x \<noteq> containerIDToNodeID k) \<longrightarrow>
         map_of nodes x = map_of (captured_nodes ?s) x"
    and dn: "distinct (map fst (captured_nodes ?s)) \<longrightarrow> distinct (map fst nodes)"
    using Cons.IH [OF d tl, where s = ?s] by (elim exE conjE)
  have mine: "map_of nodes (containerIDToNodeID k) = Some n" if "shown c"
  proof -
    have "\<forall>k' c'. (k', c') \<in> set es \<and> shown c' \<longrightarrow> containerIDToNodeID k \<noteq> containerIDToNodeID k'"
      using k by (force simp: image_iff)
    with old that show ?thesis by (simp add: update_conv')
  qed
  have rest: "map_of nodes x = map_of (captured_nodes s) x"
    if x: "\<forall>k' c'. (k', c') \<in> set (e # es) \<and> shown c' \<longrightarrow> x \<noteq> containerIDToNodeID k'" for x
  proof -
    have "\<forall>k' c'. (k', c') \<in> set es \<and> shown c' \<longrightarrow> x \<noteq> containerIDToNodeID k'"
    proof (intro allI impI)
      fix k' c'
      assume "(k', c') \<in> set es \<and> shown c'"
      then have "(k', c') \<in> set (e # es) \<and> shown c'" by simp
      with x show "x \<noteq> containerIDToNodeID k'" by blast
    qed
    with old have "map_of nodes x = map_of (captured_nodes ?s) x" by blast
    moreover have "x \<noteq> containerIDToNodeID k" if "shown c" using x that e by auto
    ultimately show ?thesis by (simp add: update_conv')
  qed
  have "go_for (\<lambda>(k, c). node_callback E tid ts k c) (e # es) s =
      (Returns (), s\<lparr>world := v, captured_nodes := nodes\<rparr>)"
    using cb run e by (simp add: go_seq_simps)
  moreover have "distinct (map fst (captured_nodes s)) \<longrightarrow> distinct (map fst nodes)"
    using dn by (auto simp: distinct_update)
  moreover have "\<exists>n. map_of nodes (containerIDToNodeID k') = Some n \<and> node_shows E tid ts c' (D k') n"
    if "(k', c') \<in> set (e # es)" "shown c'" for k' c'
    using that e mine n new by auto
  ultimately show ?case using rest by blast
qed

lemma node_shows_marshals:
  assumes "node_shows E tid ts c d n" and "year_ok (zone ts) ts"
  shows "times_ok zone n"
  using assms
  by (auto simp: times_ok_def node_shows_def getTrafficNodeControls_def Let_def control_lists networkControlTablePrefix_def)

lemma getContainerNodes_run:
  assumes "rand_spec E" and "docker_up E" and "\<not> lock s" and "range_order ids (containers s)"
    and "inspectable E D (containers s)"
  shows "\<exists>nodes s'. getContainerNodes E tid ids s = (Returns nodes, s') \<and> containers s' = containers s \<and> \<not> lock s'
    \<and> distinct (map fst nodes)
    \<and> (\<forall>x. map_of nodes x \<noteq> None \<longrightarrow> (\<exists>k c. x = containerIDToNodeID k \<and> containers s k = Some c \<and> shown c))
    \<and> (\<forall>k c. containers s k = Some c \<and> shown c \<longrightarrow> (\<exists>n. map_of nodes (containerIDToNodeID k) = Some n
         \<and> node_shows E tid (fst (time_Now E (world s))) c (D k) n))"
proof -
  obtain ts w where t: "time_Now E (world s) = (ts, w)" by (cases "time_Now E (world s)")
  let ?s = "s\<lparr>captured_nodes := [], world := w\<rparr>"
  let ?es = "entries ids (containers s)"
  have es: "(k, c) \<in> set ?es \<longleftrightarrow> containers s k = Some c" "distinct (map fst ?es)" for k c
    using range_order_entries [OF assms(4)] by auto
  have ins: "\<forall>k c w. (k, c) \<in> set ?es \<and> shown c \<longrightarrow> fst (docker_InspectContainer E k w) = Inr (D k)"
    using assms(5) es(1) by (simp add: inspectable_def)
  obtain v nodes where run: "go_for (\<lambda>(k, c). node_callback E tid ts k c) ?es (?s\<lparr>lock := True\<rparr>) =
      (Returns (), ?s\<lparr>lock := True\<rparr>\<lparr>world := v, captured_nodes := nodes\<rparr>)"
    and new: "\<forall>k c. (k, c) \<in> set ?es \<and> shown c \<longrightarrow>
         (\<exists>n. map_of nodes (containerIDToNodeID k) = Some n \<and> node_shows E tid ts c (D k) n)"
    and old: "\<forall>x. (\<forall>k c. (k, c) \<in> set ?es \<and> shown c \<longrightarrow> x \<noteq> containerIDToNodeID k) \<longrightarrow>
         map_of nodes x = map_of (captured_nodes (?s\<lparr>lock := True\<rparr>)) x"
    and dn: "distinct (map fst (captured_nodes (?s\<lparr>lock := True\<rparr>))) \<longrightarrow> distinct (map fst nodes)"
    using go_for_callback [OF assms(1,2) es(2) ins, where tid = tid and ts = ts and s = "?s\<lparr>lock := True\<rparr>"]
    by (elim exE conjE)
  have "\<not> lock ?s" using assms(3) by simp
  moreover have "keeps containers (node_callback E tid ts k c)" for k c
    by (rule keeps_callback) simp_all
  ultimately have "ForEach ids (node_callback E tid ts) ?s = (Returns (), ?s\<lparr>lock := False, world := v, captured_nodes := nodes\<rparr>)"
    using run by (simp add: ForEach_run mutex_Unlock_def go_run)
  then have "getContainerNodes E tid ids s = (Returns nodes, ?s\<lparr>lock := False, world := v, captured_nodes := nodes\<rparr>)"
    using t by (simp add: getContainerNodes_def go_run)
  moreover have "\<exists>k c. x = containerIDToNodeID k \<and> containers s k = Some c \<and> shown c"
    if "map_of nodes x \<noteq> None" for x
    using old es(1) that by fastforce
  ultimately show ?thesis
    using new dn t es(1) by (intro exI [of _ nodes]) auto
qed

lemma report_run:
  assumes "rand_spec E" and "docker_up E" and "\<not> lock s" and "range_order ids (containers s)"
    and "inspectable E D (containers s)"
    and "year_ok (local_offset E (fst (time_Now E (world s)))) (fst (time_Now E (world s)))"
  shows "\<exists>rpt s'. make_report E tid ids s = (Returns rpt, s')
    \<and> RawReport E tid ids s = (Returns (Inr (json_text (encode_report (local_offset E) rpt))), s') \<and> containers s' = containers s \<and> \<not> lock s'
    \<and> distinct (map fst (Nodes (rp_Container rpt)))
    \<and> (\<forall>x. map_of (Nodes (rp_Container rpt)) x \<noteq> None \<longleftrightarrow>
         (\<exists>k c. x = containerIDToNodeID k \<and> containers s k = Some c \<and> State c \<in> {Running, Stopped}))
    \<and> (\<forall>k c n. containers s k = Some c \<and> map_of (Nodes (rp_Container rpt)) (containerIDToNodeID k) = Some n \<longrightarrow>
         node_shows E tid (fst (time_Now E (world s))) c (D k) n)
    \<and> Controls (rp_Container rpt) = getTrafficControls E tid
    \<and> MetadataTemplates (rp_Container rpt) = getMetadataTemplate
    \<and> TableTemplates (rp_Container rpt) = getTableTemplate"
proof -
  let ?ts = "fst (time_Now E (world s))"
  obtain nodes s' where run: "getContainerNodes E tid ids s = (Returns nodes, s')"
    and s': "containers s' = containers s" "\<not> lock s'" and dn: "distinct (map fst nodes)"
    and only: "\<forall>x. map_of nodes x \<noteq> None \<longrightarrow> (\<exists>k c. x = containerIDToNodeID k \<and> containers s k = Some c \<and> shown c)"
    and all: "\<forall>k c. containers s k = Some c \<and> shown c \<longrightarrow> (\<exists>n. map_of nodes (containerIDToNodeID k) = Some n
         \<and> node_shows E tid ?ts c (D k) n)"
    using getContainerNodes_run [OF assms(1-5), where tid = tid] by (elim exE conjE)
  have shows_n: "node_shows E tid ?ts c (D k) n"
    if "containers s k = Some c" "map_of nodes (containerIDToNodeID k) = Some n" for k c n
    using only all that by (metis nodeID_inj option.distinct(1) option.inject)
  have "times_ok (local_offset E) n" if "(x, n) \<in> set nodes" for x n
  proof -
    from dn that have "map_of nodes x = Some n" by simp
    moreover from this only obtain k c where "x = containerIDToNodeID k" "containers s k = Some c" by blast
    ultimately show ?thesis using node_shows_marshals [where zone = "local_offset E", OF shows_n assms(6)] by blast
  qed
  then have ok: "list_all (\<lambda>(_, n). times_ok (local_offset E) n) nodes"
    by (auto simp: list_all_iff)
  have iff: "map_of nodes x \<noteq> None \<longleftrightarrow>
      (\<exists>k c. x = containerIDToNodeID k \<and> containers s k = Some c \<and> State c \<in> {Running, Stopped})" for x
    using only all unfolding shown_def by blast
  show ?thesis
    using run ok s' dn iff shows_n by (simp add: RawReport_def make_report_def go_run marshal_report_def)
qed

text \<open>
  C4: what a report shows. When Docker answers for every running or stopped container in the
  store and the local clock is in the years 0 to 9999, the report succeeds, whatever the order in
  which the store is iterated, and its JSON text is returned. Its nodes are exactly the running and the stopped containers of
  the store, each under its own node ID and once; each node offers all controls, dead for a
  stopped container and alive for a running one, and has the name of the container's pod. The
  row \<open>net-bandwidth\<close> is a number in 140..229, the range of the made up latency. The controls
  and templates are the fixed ones, and the store and its mutex are left as they were.
\<close>

theorem report_shows_containers:
  assumes "rand_spec E" and "docker_up E" and "\<not> lock s" and "range_order ids (containers s)"
    and "inspectable E D (containers s)"
    and "year_ok (local_offset E (fst (time_Now E (world s)))) (fst (time_Now E (world s)))"
  shows "\<exists>rpt s'. make_report E tid ids s = (Returns rpt, s')
    \<and> RawReport E tid ids s = (Returns (Inr (json_text (encode_report (local_offset E) rpt))), s') \<and> containers s' = containers s \<and> \<not> lock s'
    \<and> distinct (map fst (Nodes (rp_Container rpt)))
    \<and> (\<forall>x. map_of (Nodes (rp_Container rpt)) x \<noteq> None \<longleftrightarrow>
         (\<exists>k c. x = containerIDToNodeID k \<and> containers s k = Some c \<and> State c \<in> {Running, Stopped}))
    \<and> (\<forall>k c n. containers s k = Some c \<and> map_of (Nodes (rp_Container rpt)) (containerIDToNodeID k) = Some n \<longrightarrow>
         node_shows E tid (fst (time_Now E (world s))) c (D k) n)
    \<and> Controls (rp_Container rpt) = getTrafficControls E tid
    \<and> MetadataTemplates (rp_Container rpt) = getMetadataTemplate
    \<and> TableTemplates (rp_Container rpt) = getTableTemplate"
  using assms by (rule report_run)

lemma demo_clock: "clock 0 1500000000000000000 = ((2017, 7, 14), 9600, 0)"
  by code_simp

definition demo_D :: "string \<Rightarrow> docker_container" where
  "demo_D k = (case demo_inspect k of Inr d \<Rightarrow> d | Inl _ \<Rightarrow> \<lparr>dc_Name = [], dc_State = demo_state False False 0\<rparr>)"

lemma demo_report_hyps:
  "rand_spec demo_E" "docker_up demo_E" "inspectable demo_E demo_D demo_containers"
  "range_order [''c2'', ''c4'', ''c1''] demo_containers" "year_ok (local_offset demo_E (fst (time_Now demo_E w))) (fst (time_Now demo_E w))"
  by (auto simp: rand_spec_def docker_up_def inspectable_def demo_containers_def demo_D_def demo_inspect_def
      shown_def range_order_def year_ok_def demo_clock split: if_splits)

theorem report_shows_containers_witness:
  "\<exists>rpt s' n. make_report demo_E 1 [''c2'', ''c4'', ''c1''] (demo_process demo_containers) = (Returns rpt, s')
     \<and> map_of (Nodes (rp_Container rpt)) ''c1;<container>'' = Some n
     \<and> map_of (Latest n) ''network-control-table-dst-pod'' =
         Some \<lparr>se_Timestamp = 1500000000000000000, se_Value = ''user-4684-ktrt4''\<rparr>"
proof -
  have n: "''c1;<container>'' = containerIDToNodeID ''c1''"
    by (simp add: containerIDToNodeID_def nodeSuffix_def)
  have c: "demo_containers ''c1'' = Some \<lparr>State = Running, PID = 42\<rparr>" by (simp add: demo_containers_def)
  have pod: "fst (parsePodName (dc_Name (demo_D ''c1''))) = ''user-4684-ktrt4''"
    by (simp add: demo_D_def demo_inspect_def parsePodName_def TrimPrefix_def HasPrefix_def)
  let ?s = "demo_process demo_containers"
  have h: "\<not> lock ?s" "range_order [''c2'', ''c4'', ''c1''] (containers ?s)"
      "inspectable demo_E demo_D (containers ?s)" "year_ok (local_offset demo_E (fst (time_Now demo_E (world ?s)))) (fst (time_Now demo_E (world ?s)))"
    using demo_report_hyps by simp_all
  obtain rpt s' where run: "make_report demo_E 1 [''c2'', ''c4'', ''c1''] (demo_process demo_containers) = (Returns rpt, s')"
    and iff: "map_of (Nodes (rp_Container rpt)) (containerIDToNodeID ''c1'') \<noteq> None"
    and sh: "\<And>n. map_of (Nodes (rp_Container rpt)) (containerIDToNodeID ''c1'') = Some n \<Longrightarrow>
         node_shows demo_E 1 1500000000000000000 \<lparr>State = Running, PID = 42\<rparr> (demo_D ''c1'') n"
    using report_shows_containers [OF demo_report_hyps(1,2) h, where tid = 1] c
    by (elim exE conjE) (auto simp del: demo_report_hyps)
  from iff obtain n where "map_of (Nodes (rp_Container rpt)) (containerIDToNodeID ''c1'') = Some n" by blast
  with run sh [OF this] pod n show ?thesis
    by (auto simp: node_shows_def networkControlTablePrefix_def)
qed

section \<open>When a report cannot be made\<close>

text \<open>A loop one of whose turns always panics, while the other turns return or panic alike.\<close>

lemma go_for_panics:
  assumes "\<And>x s. fst (f x s) \<in> {Returns (), Panics p}" and "\<And>s. fst (f y s) = Panics p"
  shows "y \<in> set xs \<Longrightarrow> fst (go_for f xs s) = Panics p"
proof (induction xs arbitrary: s)
  case Nil
  then show ?case by simp
next
  case (Cons x xs)
  obtain r s1 where r: "f x s = (r, s1)" by (cases "f x s")
  with assms(1) [of x s] consider "r = Returns ()" | "r = Panics p" by auto
  then show ?case
  proof cases
    case 1
    with r assms(2) [of s] have "x \<noteq> y" by auto
    with Cons 1 r show ?thesis by (simp add: go_seq_simps(1) [where m = "f x", OF r [unfolded 1]])
  next
    case 2
    with r show ?thesis by (simp add: go_seq_simps(2) [where m = "f x", OF r [unfolded 2]])
  qed
qed

lemma getPod_outcome:
  "fst (getPod E k s) = Panics NilDeref \<or> (\<exists>pod w. getPod E k s = (Returns (pod, None), s\<lparr>world := w\<rparr>))"
  by (auto simp: getPod_def go_run split: option.split sum.split)

lemma node_callback_outcome:
  assumes "rand_spec E"
  shows "fst (node_callback E tid ts k c s) \<in> {Returns (), Panics NilDeref}"
proof -
  have "fst (add_node E tid ts dead k s) \<in> {Returns (), Panics NilDeref}" for dead
  proof (cases "fst (getPod E k s) = Panics NilDeref")
    case True
    then show ?thesis by (cases "getPod E k s") (simp add: add_node_def Let_def go_run)
  next
    case False
    then obtain pod w where g: "getPod E k s = (Returns (pod, None), s\<lparr>world := w\<rparr>)"
      using getPod_outcome by blast
    show ?thesis
      by (rule getStatusByPod_run [OF assms, of pod "s\<lparr>world := w\<rparr>"])
        (simp add: add_node_def Let_def go_run g)
  qed
  then show ?thesis by (cases "State c") (simp_all add: node_callback_def go_run)
qed

lemma node_callback_stale:
  assumes "\<forall>w. \<exists>e. fst (docker_InspectContainer E k w) = Inl e" and "shown c"
  shows "fst (node_callback E tid ts k c s) = Panics NilDeref"
proof -
  have "\<exists>s'. getPod E k s = (Panics NilDeref, s')"
    using assms(1) by (auto simp: getPod_def go_run split: option.split sum.split)
      (metis Inl_Inr_False)
  then have "fst (add_node E tid ts dead k s) = Panics NilDeref" for dead
    by (auto simp: add_node_def Let_def go_run)
  with assms(2) show ?thesis by (auto simp: shown_def node_callback_def)
qed

lemma RawReport_stale:
  assumes "rand_spec E" and "\<not> lock s" and "range_order ids (containers s)"
    and "containers s k = Some c" and "State c \<in> {Running, Stopped}"
    and "\<forall>w. \<exists>e. fst (docker_InspectContainer E k w) = Inl e"
  shows "\<exists>s'. RawReport E tid ids s = (Panics NilDeref, s') \<and> containers s' = containers s \<and> \<not> lock s'"
proof -
  obtain ts w where t: "time_Now E (world s) = (ts, w)" by (cases "time_Now E (world s)")
  let ?s = "s\<lparr>captured_nodes := [], world := w\<rparr>" and ?cb = "node_callback E tid ts"
  let ?es = "entries ids (containers s)"
  have k: "(k, c) \<in> set ?es" using range_order_entries [OF assms(3)] assms(4) by auto
  have keep: "keeps containers (?cb k c)" for k c by (rule keeps_callback) simp_all
  have free: "\<not> lock ?s" using assms(2) by simp
  have "fst (go_for (\<lambda>(k, c). ?cb k c) ?es (?s\<lparr>lock := True\<rparr>)) = Panics NilDeref"
  proof (rule go_for_panics [OF _ _ k])
    show "fst ((case x of (k, c) \<Rightarrow> ?cb k c) s) \<in> {Returns (), Panics NilDeref}" for x s
      using node_callback_outcome [OF assms(1)] by (cases x) simp
    show "fst ((case (k, c) of (k, c) \<Rightarrow> ?cb k c) s) = Panics NilDeref" for s
      using node_callback_stale [OF assms(6)] assms(5) by (simp add: shown_def)
  qed
  then obtain s1 where "go_for (\<lambda>(k, c). ?cb k c) ?es (?s\<lparr>lock := True\<rparr>) = (Panics NilDeref, s1)"
    by (metis prod.collapse)
  then have "ForEach ids ?cb ?s = (Panics NilDeref, s1\<lparr>lock := False\<rparr>)"
    using ForEach_run [OF free keep, where ids = ids] by (simp add: mutex_Unlock_def go_run)
  moreover from this keeps_store(4) have "containers s1 = containers s"
    using keepsD [where f = containers and m = "ForEach ids ?cb", OF keeps_store(4) [OF _ keep]] by fastforce
  ultimately show ?thesis
    using t by (auto simp: RawReport_def make_report_def getContainerNodes_def go_run)
qed

text \<open>
  One stale entry stops every report. If the store holds a running or stopped container
  that Docker no longer answers for, a request for a report panics, whatever else the store
  holds and in whatever order it is visited; the store is unchanged, so the next report panics
  too, and its mutex is released.
\<close>

lemma report_panics_on_stale_entry:
  assumes "rand_spec E" and "\<not> lock s" and "range_order ids (containers s)"
    and "containers s k = Some c" and "State c \<in> {Running, Stopped}"
    and "\<forall>w. \<exists>e. fst (docker_InspectContainer E k w) = Inl e"
  shows "\<exists>s'. RawReport E tid ids s = (Panics NilDeref, s') \<and> containers s' = containers s \<and> \<not> lock s'"
  using assms by (rule RawReport_stale)

lemma report_panics_on_stale_entry_witness:
  "\<exists>s'. RawReport (demo_env [] (\<lambda>k. Inl (NoSuchContainer k))) 1 [''c2'', ''c4'', ''c1''] (demo_process demo_containers)
     = (Panics NilDeref, s')"
proof -
  let ?E = "demo_env [] (\<lambda>k. Inl (NoSuchContainer k))" and ?s = "demo_process demo_containers"
  have "rand_spec ?E" "\<not> lock ?s" "range_order [''c2'', ''c4'', ''c1''] (containers ?s)"
    using demo_report_hyps(4) by (auto simp: rand_spec_def)
  moreover have "containers ?s ''c1'' = Some \<lparr>State = Running, PID = 42\<rparr>" by (simp add: demo_containers_def)
  ultimately show ?thesis
    using report_panics_on_stale_entry [of ?E ?s "[''c2'', ''c4'', ''c1'']" "''c1''" "\<lparr>State = Running, PID = 42\<rparr>" 1]
    by auto
qed

end
