(* ===== verification/Go_Fmt.thy ===== *)
theory Go_Fmt
  imports Go_Json_Codec
begin

text \<open>
  The texts of errors: \<open>fmt.Errorf\<close> with the verbs in use (\<open>%v\<close>, \<open>%s\<close>, \<open>%q\<close>, \<open>%d\<close>, \<open>%x\<close>, without flags)
  and \<open>strconv.Quote\<close>. Which characters outside ASCII are printed as they are is a table of package
  \<open>unicode\<close>, the parameter \<open>P\<close> of the functions. Every call has as many arguments as verbs. An error
  from outside has the text it came with.
\<close>

section \<open>Quoting\<close>

text \<open>The character that an encoded one stands for.\<close>

definition rune_value :: "string \<Rightarrow> nat" where
  "rune_value s = (let b = (\<lambda>i. of_char (s ! i)) in
     if length s = 1 then b 0
     else if length s = 2 then (b 0 - 192) * 64 + (b 1 - 128)
     else if length s = 3 then (b 0 - 224) * 4096 + (b 1 - 128) * 64 + (b 2 - 128)
     else (b 0 - 240) * 262144 + (b 1 - 128) * 4096 + (b 2 - 128) * 64 + (b 3 - 128))"

definition is_print :: "(nat \<Rightarrow> bool) \<Rightarrow> nat \<Rightarrow> bool" where
  "is_print P r \<longleftrightarrow> (if r < 0x80 then 0x20 \<le> r \<and> r < 0x7F else P r)"

text \<open>The last \<open>w\<close> hexadecimal digits of a number.\<close>

fun hex_digits :: "nat \<Rightarrow> nat \<Rightarrow> string" where
  "hex_digits 0 n = []"
| "hex_digits (Suc w) n = hex_digits w (n div 16) @ [hex_lower (n mod 16)]"

definition quote_rune :: "(nat \<Rightarrow> bool) \<Rightarrow> string \<Rightarrow> string" where
  "quote_rune P u = (let r = rune_value u in
     if r = 0x22 \<or> r = 0x5C then CHR 0x5C # u
     else if is_print P r then u
     else CHR 0x5C #
       (if r = 7 then ''a'' else if r = 8 then ''b'' else if r = 12 then ''f'' else if r = 10 then ''n''
        else if r = 13 then ''r'' else if r = 9 then ''t'' else if r = 11 then ''v''
        else if r < 0x20 then CHR ''x'' # hex_digits 2 r
        else if r < 0x10000 then CHR ''u'' # hex_digits 4 r
        else CHR ''U'' # hex_digits 8 r))"

function quote_body :: "(nat \<Rightarrow> bool) \<Rightarrow> string \<Rightarrow> string" where
  "quote_body P s =
     (if s = [] then []
      else let n = rune_len s in
        if n = 0 then [CHR 0x5C, CHR ''x''] @ hex_digits 2 (of_char (hd s)) @ quote_body P (tl s)
        else quote_rune P (take n s) @ quote_body P (drop n s))"
  by pat_completeness auto
termination
  by (relation "measure (\<lambda>(P, s). length s)") auto

declare quote_body.simps [simp del]

definition Quote :: "(nat \<Rightarrow> bool) \<Rightarrow> string \<Rightarrow> string" where
  "Quote P s = CHR 0x22 # quote_body P s @ [CHR 0x22]"

section \<open>Formatting\<close>

fun hex_nat :: "nat \<Rightarrow> string" where
  "hex_nat n = (if n < 16 then [hex_lower n] else hex_nat (n div 16) @ [hex_lower (n mod 16)])"

definition hex_int :: "int \<Rightarrow> string" where
  "hex_int i = (if i < 0 then CHR ''-'' # hex_nat (nat (- i)) else hex_nat (nat i))"

text \<open>An argument is what it prints for each verb.\<close>

fun format :: "string \<Rightarrow> (char \<Rightarrow> string) list \<Rightarrow> string" where
  "format [] args = []"
| "format [c] args = (if c = CHR ''%'' then ''%!(NOVERB)'' else [c])"
| "format (c # v # r) args =
     (if c = CHR ''%'' then (case args of
          [] \<Rightarrow> ''%!'' @ [v] @ ''(MISSING)'' @ format r []
        | a # as \<Rightarrow> a v @ format r as)
      else c # format (v # r) args)"

fun err_text :: "(nat \<Rightarrow> bool) \<Rightarrow> error \<Rightarrow> string"
  and arg_text :: "(nat \<Rightarrow> bool) \<Rightarrow> err_arg \<Rightarrow> char \<Rightarrow> string" where
  "err_text P (ExtErr t) = t"
| "err_text P (NotExist t) = t"
| "err_text P (NoSuchContainer k) = ''No such container: '' @ k"
| "err_text P (NSPathNotExistErr f args) = format f (map (arg_text P) args)"
| "err_text P (NSPathNotNSErr f args) = format f (map (arg_text P) args)"
| "err_text P (Errorf f args) = format f (map (arg_text P) args)"
| "arg_text P (ArgS s) v = (if v = CHR ''q'' then Quote P s else s)"
| "arg_text P (ArgD i) v = (if v = CHR ''x'' then hex_int i else Itoa i)"
| "arg_text P (ArgE e) v = (if v = CHR ''q'' then Quote P (err_text P e) else err_text P e)"
| "arg_text P (ArgL ss) v = ''['' @ Join ss '' '' @ '']''"

declare hex_nat.simps [simp del]

text \<open>A format that starts with a plain text prints that text first.\<close>

lemma format_prefix:
  "CHR ''%'' \<notin> set t \<Longrightarrow> r \<noteq> [] \<Longrightarrow> format (t @ r) args = t @ format r args"
proof (induction t)
  case (Cons c t)
  then show ?case by (cases "t @ r") auto
qed simp

lemma err_text_wrapped [simp]:
  "CHR ''%'' \<notin> set t \<Longrightarrow> err_text P (Errorf (t @ ''%v'') [ArgE e]) = t @ err_text P e"
  by (simp add: format_prefix)

end
