(* ===== verification/Transitions.thy ===== *)
theory Transitions
  imports Main
begin

text \<open>
  Step relations: an interface for machines with an invariant, and one for machines of which
  every step makes a number smaller, so that every run ends.
\<close>

locale invariant_system =
  fixes init :: "'s \<Rightarrow> bool" and step :: "'s \<Rightarrow> 's \<Rightarrow> bool" and Inv :: "'s \<Rightarrow> bool"
  assumes init_inv: "init s \<Longrightarrow> Inv s"
    and step_inv: "Inv s \<Longrightarrow> step s t \<Longrightarrow> Inv t"
begin

lemma steps_inv: "step\<^sup>*\<^sup>* s t \<Longrightarrow> Inv s \<Longrightarrow> Inv t"
  by (induction rule: rtranclp_induct) (auto intro: step_inv)

lemma reachable_inv: "init s \<Longrightarrow> step\<^sup>*\<^sup>* s t \<Longrightarrow> Inv t"
  by (blast intro: steps_inv init_inv)

end

locale terminating_system = invariant_system +
  fixes size_of :: "'a \<Rightarrow> nat"
  assumes step_smaller: "Inv s \<Longrightarrow> step s t \<Longrightarrow> size_of t < size_of s"
begin

text \<open>A run of \<open>n\<close> steps uses up at least \<open>n\<close>.\<close>

lemma run_length: "(step ^^ n) s t \<Longrightarrow> Inv s \<Longrightarrow> n + size_of t \<le> size_of s"
proof (induction n arbitrary: t)
  case 0
  then show ?case by simp
next
  case (Suc n)
  from Suc.prems(1) obtain u where u: "(step ^^ n) s u" "step u t" by (rule relpowp_Suc_E)
  from steps_inv [OF relpowp_imp_rtranclp [OF u(1)] Suc.prems(2)] u(2)
  have "size_of t < size_of u" by (rule step_smaller)
  with Suc.IH [OF u(1) Suc.prems(2)] show ?case by simp
qed

lemma no_infinite_run: "Inv (f 0) \<Longrightarrow> \<not> (\<forall>i. step (f i) (f (Suc i)))"
proof
  assume Inv: "Inv (f 0)" and run: "\<forall>i. step (f i) (f (Suc i))"
  have "(step ^^ n) (f 0) (f n)" for n
  proof (induction n)
    case (Suc n)
    from this run [rule_format, of n] show ?case by (rule relpowp_Suc_I)
  qed simp
  from run_length [OF this Inv] have "n \<le> size_of (f 0)" for n by (metis add_leD1)
  then show False using not_less_eq_eq by blast
qed

text \<open>From every state a run leads to one without further steps.\<close>

lemma run_ends: "Inv s \<Longrightarrow> \<exists>t. step\<^sup>*\<^sup>* s t \<and> \<not> (\<exists>u. step t u)"
proof (induction s rule: measure_induct_rule [of size_of])
  case (less s)
  show ?case
  proof (cases "\<exists>t. step s t")
    case True
    then obtain t where t: "step s t" by blast
    with less step_smaller step_inv obtain u where "step\<^sup>*\<^sup>* t u" "\<not> (\<exists>v. step u v)" by blast
    with t show ?thesis by (blast intro: converse_rtranclp_into_rtranclp)
  qed blast
qed

end

text \<open>Machines that are told which step to take next: a run is a list of choices, and fails with the
  first choice that is not possible.\<close>

fun steps_with :: "('c \<Rightarrow> 's \<Rightarrow> 's option) \<Rightarrow> 'c list \<Rightarrow> 's \<Rightarrow> 's option" where
  "steps_with next [] s = Some s"
| "steps_with next (c # cs) s = (case next c s of None \<Rightarrow> None | Some t \<Rightarrow> steps_with next cs t)"

lemma steps_with_append:
  "steps_with next (cs @ ds) s = (case steps_with next cs s of None \<Rightarrow> None | Some t \<Rightarrow> steps_with next ds t)"
  by (induction cs arbitrary: s) (auto split: option.splits)

lemma steps_with_then:
  assumes "steps_with next cs s = Some t" and "steps_with next ds t = Some u"
  shows "steps_with next (cs @ ds) s = Some u"
  using assms by (simp add: steps_with_append)

text \<open>A detailed machine that takes the same steps as an abstract one, seen through \<open>abs\<close>, as long as
  \<open>ok\<close> holds, takes the same runs.\<close>

locale refinement =
  fixes cnext :: "'c \<Rightarrow> 's \<Rightarrow> 's option" and anext :: "'c \<Rightarrow> 'a \<Rightarrow> 'a option"
    and abs :: "'s \<Rightarrow> 'a" and ok :: "'s \<Rightarrow> bool"
  assumes same_step: "ok s \<Longrightarrow> map_option abs (cnext c s) = anext c (abs s)"
    and ok_step: "ok s \<Longrightarrow> cnext c s = Some t \<Longrightarrow> ok t"
begin

lemma same_runs: "ok s \<Longrightarrow> map_option abs (steps_with cnext cs s) = steps_with anext cs (abs s)"
proof (induction cs arbitrary: s)
  case (Cons c cs)
  show ?case
  proof (cases "cnext c s")
    case None
    with same_step [OF Cons.prems, of c] show ?thesis by simp
  next
    case (Some t)
    with same_step [OF Cons.prems, of c] have "anext c (abs s) = Some (abs t)" by simp
    with Some Cons.IH [OF ok_step [OF Cons.prems Some]] show ?thesis by simp
  qed
qed simp

lemma ok_runs: "ok s \<Longrightarrow> steps_with cnext cs s = Some t \<Longrightarrow> ok t"
proof (induction cs arbitrary: s)
  case (Cons c cs)
  then obtain u where u: "cnext c s = Some u" "steps_with cnext cs u = Some t" by (auto split: option.splits)
  from Cons.IH [OF ok_step [OF Cons.prems(1) u(1)] u(2)] show ?case .
qed simp

end

end
