(* ===== verification/Plugin.thy ===== *)
theory Plugin
  imports Report_Props Go_Fmt Transitions
begin

text \<open>
  The process (\<open>main.go\<close>): start-up, the two HTTP handlers, and the whole plugin as a machine in
  which the goroutine of the Docker client, HTTP requests, signals and the outside world take
  turns.

  The body of a request is a stream of bytes, decoded into the struct \<open>request\<close>; that of an answer
  is a string of bytes. \<open>net/http\<close> recovers a panic of a handler and closes the connection
  without an answer; it does not catch a panic of another goroutine.
\<close>

section \<open>Requests and answers\<close>

record request =
  NodeID :: string
  Control :: string

record response =
  Error :: string

definition request_fields :: "request fields" where
  "request_fields =
     [(''NodeID'', field NodeID (\<lambda>x r. r\<lparr>NodeID := x\<rparr>) decode_string),
      (''Control'', field Control (\<lambda>x r. r\<lparr>Control := x\<rparr>) decode_string)]"

definition decode_request :: "stream \<Rightarrow> error + request" where
  "decode_request body = json_Decode (decode_struct request_fields) body \<lparr>NodeID = [], Control = []\<rparr>"

definition encode_response :: "response \<Rightarrow> json" where
  "encode_response res = JObj (omit (Error res = []) ''error'' (encode_string (Error res)))"

record http_response =
  StatusCode :: int
  Body :: string

definition StatusOK :: int where "StatusOK = 200"
definition StatusBadRequest :: int where "StatusBadRequest = 400"
definition StatusInternalServerError :: int where "StatusInternalServerError = 500"

text \<open>\<open>http.Error\<close> writes the message and a newline.\<close>

definition http_Error :: "string \<Rightarrow> int \<Rightarrow> http_response" where
  "http_Error msg code = \<lparr>StatusCode = code, Body = msg @ [CHR 0x0A]\<rparr>"

text \<open>\<open>json.Marshal\<close> of a struct with one string does not fail.\<close>

definition marshal_response :: "response \<Rightarrow> error + string" where
  "marshal_response res = Inr (json_text (encode_response res))"

definition sendResponse :: "'w env \<Rightarrow> error option \<Rightarrow> http_response" where
  "sendResponse E err =
     (let res = \<lparr>Error = (case err of None \<Rightarrow> [] | Some e \<Rightarrow> err_text (unicode_IsPrint E) e)\<rparr>
      in case marshal_response res of
          Inl e \<Rightarrow> http_Error (err_text (unicode_IsPrint E) e) StatusInternalServerError
        | Inr raw \<Rightarrow> \<lparr>StatusCode = StatusOK, Body = raw\<rparr>)"

definition Plugin_report :: "'w env \<Rightarrow> nat \<Rightarrow> string list \<Rightarrow> ('w Process, http_response) go" where
  "Plugin_report E tid ids = go_bind (RawReport E tid ids) (\<lambda>r. go_return (case r of
      Inl err \<Rightarrow> http_Error (err_text (unicode_IsPrint E) (Errorf ''error: failed to get raw report: %v'' [ArgE err]))
        StatusInternalServerError
    | Inr raw \<Rightarrow> \<lparr>StatusCode = StatusOK, Body = raw\<rparr>))"

definition Plugin_control :: "'w env \<Rightarrow> nat \<Rightarrow> stream \<Rightarrow> ('w Process, http_response) go" where
  "Plugin_control E tid body = (case decode_request body of
      Inl err \<Rightarrow> go_return (http_Error (err_text (unicode_IsPrint E) err) StatusBadRequest)
    | Inr xreq \<Rightarrow> go_bind (GetHandler E tid (NodeID xreq) (Control xreq)) (\<lambda>r. case r of
        Inl err \<Rightarrow> go_return (sendResponse E (Some (Errorf ''failed to get handler: %v'' [ArgE err])))
      | Inr handler \<Rightarrow> go_bind handler (\<lambda>e. case e of
            Some err \<Rightarrow> go_return (sendResponse E (Some (Errorf ''handler failed: %v'' [ArgE err])))
          | None \<Rightarrow> go_return (sendResponse E None))))"

section \<open>The HTTP server\<close>

datatype http_request = HttpRequest string stream

datatype http_result = Answered http_response | Aborted | Unrouted

text \<open>What \<open>net/http\<close> makes of the outcome of a handler.\<close>

definition recovered :: "('s, http_response) go \<Rightarrow> ('s, http_result) go" where
  "recovered m = (\<lambda>s. case m s of (r, s') \<Rightarrow> (case r of
      Returns x \<Rightarrow> (Returns (Answered x), s')
    | Panics p \<Rightarrow> (Returns Aborted, s')
    | Exits n \<Rightarrow> (Exits n, s')
    | Blocks \<Rightarrow> (Blocks, s')))"

text \<open>The two patterns of the mux; \<open>tid\<close> is the OS thread the request's goroutine runs on and
  \<open>ids\<close> the order in which a report visits the store.\<close>

fun serve :: "'w env \<Rightarrow> nat \<Rightarrow> string list \<Rightarrow> http_request \<Rightarrow> ('w Process, http_result) go" where
  "serve E tid ids (HttpRequest path body) =
     (if path = ''/report'' then recovered (Plugin_report E tid ids)
      else if path = ''/control'' then recovered (Plugin_control E tid body)
      else go_return Unrouted)"

section \<open>Start-up\<close>

definition socketPath :: string where
  "socketPath = ''/var/run/scope/plugins/network-control/network-control.sock''"

definition setupSocket :: "'w env \<Rightarrow> string \<Rightarrow> (('w, 'z) kernel_scheme, error option) go" where
  "setupSocket E path =
     go_bind (call (os_RemoveAll E (path_dir path))) (\<lambda>_.
     go_bind (call (os_MkdirAll E (path_dir path))) (\<lambda>e. case e of
        Some err \<Rightarrow> go_return (Some (Errorf ''failed to create directory %q: %v'' [ArgS (path_dir path), ArgE err]))
      | None \<Rightarrow> go_bind (call (net_Listen E path)) (\<lambda>l. go_return (case l of
            Some err \<Rightarrow> Some (Errorf ''failed to listen on %q: %v'' [ArgS path, ArgE err])
          | None \<Rightarrow> None))))"

text \<open>The goroutine that \<open>setupSignals\<close> starts, once a signal has arrived.\<close>

definition on_signal :: "'w env \<Rightarrow> string \<Rightarrow> (('w, 'z) kernel_scheme, unit) go" where
  "on_signal E path = go_seq (call (os_RemoveAll E (path_dir path))) (go_exit 0)"

text \<open>\<open>NewPlugin\<close> returns the point at which the Docker client's goroutine starts.\<close>

definition NewPlugin :: "'w env \<Rightarrow> ('w Process, error + dc_pc) go" where
  "NewPlugin E = go_seq NewStore (go_bind (NewDockerClient E) (\<lambda>e. go_return (case e of
      Some err \<Rightarrow> Inl (Errorf ''failed to create a docker client: %v'' [ArgE err])
    | None \<Rightarrow> Inr Subscribe)))"

definition main_start :: "'w env \<Rightarrow> ('w Process, dc_pc) go" where
  "main_start E = go_bind (setupSocket E socketPath) (\<lambda>e. case e of
      Some err \<Rightarrow> go_exit 1
    | None \<Rightarrow> go_bind (NewPlugin E) (\<lambda>p. case p of
        Inl err \<Rightarrow> go_exit 1
      | Inr pc \<Rightarrow> go_seq (go_modify (\<lambda>s. s\<lparr>neworkControlStatusCache := Some Map.empty\<rparr>)) (go_return pc)))"

text \<open>The global variables of a process that has just been started are zero.\<close>

definition zero_globals :: "'w Process \<Rightarrow> bool" where
  "zero_globals s \<longleftrightarrow> trafficControlStatusCache s = None \<and> neworkControlStatusCache s = None"

section \<open>The plugin as a machine\<close>

datatype 'w plugin = Up dc_pc "'w Process" | Down int "'w Process"

text \<open>
  The steps: one step of the Docker client, whose panic ends the process; a request, which may
  end the process; a signal; the failure of the listener, on which \<open>main\<close> calls \<open>log.Fatalf\<close>;
  and any change of the world outside.
\<close>

inductive step :: "'w env \<Rightarrow> 'w plugin \<Rightarrow> 'w plugin \<Rightarrow> bool" for E :: "'w env" where
  docker: "Start_step E pc s = (Returns pc', s') \<Longrightarrow> step E (Up pc s) (Up pc' s')"
| docker_panic: "Start_step E pc s = (Panics p, s') \<Longrightarrow> step E (Up pc s) (Down 2 s')"
| request: "range_order ids (containers s) \<Longrightarrow> serve E tid ids req s = (Returns r, s') \<Longrightarrow>
    step E (Up pc s) (Up pc s')"
| request_exit: "range_order ids (containers s) \<Longrightarrow> serve E tid ids req s = (Exits n, s') \<Longrightarrow>
    step E (Up pc s) (Down n s')"
| signal: "on_signal E socketPath s = (Exits n, s') \<Longrightarrow> step E (Up pc s) (Down n s')"
| listener: "step E (Up pc s) (Down 1 s)"
| outside: "s' = s\<lparr>world := w\<rparr> \<Longrightarrow> step E (Up pc s) (Up pc s')"

inductive_cases step_UpE: "step E (Up pc s) p"
inductive_cases step_DownE: "step E (Down n s) p"

inductive reachable :: "'w env \<Rightarrow> 'w plugin \<Rightarrow> bool" for E :: "'w env" where
  start: "zero_globals s \<Longrightarrow> main_start E s = (Returns pc, s') \<Longrightarrow> reachable E (Up pc s')"
| fail: "zero_globals s \<Longrightarrow> main_start E s = (Exits n, s') \<Longrightarrow> reachable E (Down n s')"
| step: "reachable E p \<Longrightarrow> step E p p' \<Longrightarrow> reachable E p'"

end
