(* ===== verification/Plugin_Props.thy ===== *)
theory Plugin_Props
  imports Plugin
begin

text \<open>
  Properties of the plugin as a whole: start-up, the answers to control requests, and what
  holds in every state the plugin can reach.
\<close>

section \<open>Calls that come back\<close>

lemma nonblocking_netns [go_nonblock]:
  "nonblocking (IsNSorErr E p)" "nonblocking (GetNS E p)" "nonblocking (Close E n)" "nonblocking (Set E tid n)"
  unfolding IsNSorErr_def GetNS_def Close_def Set_def by (intro go_nonblock)+

lemma nonblocking_WithNetNSPath [go_nonblock]:
  "(\<And>t. nonblocking (f t)) \<Longrightarrow> nonblocking (WithNetNSPath E tid p f)"
  unfolding WithNetNSPath_def Do_def containedCall_def by (intro go_nonblock)

lemma nonblocking_exec_cmds [go_nonblock]: "nonblocking (exec_cmds E cmds t)"
proof (induction cmds)
  case Nil
  show ?case by (simp add: go_nonblock)
next
  case (Cons c cmds)
  then show ?case unfolding exec_cmds.simps exec_cmd_def by (intro go_nonblock)
qed

lemma nonblocking_parseAttribute [go_nonblock]: "nonblocking (parseAttribute r)"
proof -
  have v: "nonblocking (value_string v)" "nonblocking (value_number v)" for v
    by (cases v; simp add: value_string_def value_number_def go_nonblock)+
  have "nonblocking (case v of VString dpod \<Rightarrow> go_bind (cell xs 0 5) (\<lambda>sp.
                go_bind (value_string sp) (\<lambda>_. go_return dpod)) | _ \<Rightarrow> go_return ''-'')" for v xs
    by (cases v) (simp_all add: cell_def v go_nonblock)
  then show ?thesis unfolding parseAttribute_def Let_def cell_def by (intro go_nonblock v)
qed

lemma nonblocking_tc [go_nonblock]:
  "nonblocking (getNSID E p)" "nonblocking (random E a b)" "nonblocking (queryInfluxDB E d c)"
  "nonblocking (cache_store k st)"
  unfolding getNSID_def random_def queryInfluxDB_def cache_store_def by (intro go_nonblock)+

lemma nonblocking_status [go_nonblock]:
  "nonblocking (cache_update k l p)" "nonblocking (getPacketLoss E pid)"
  "nonblocking (applyTrafficControlRules E tid pid rules)"
  unfolding cache_update_def getPacketLoss_def getStatus_def applyTrafficControlRules_def Let_def
  by (intro go_nonblock)+

lemma nonblocking_handlers [go_nonblock]:
  "nonblocking (ApplyLatency E tid pid l)" "nonblocking (ApplyPacketLoss E tid pid l)"
  "nonblocking (ClearTrafficControlSettings E tid pid)"
  unfolding ApplyLatency_def ApplyPacketLoss_def ClearTrafficControlSettings_def Let_def
  by (intro go_nonblock)+

lemma nonblocking_node_callback [go_nonblock]: "nonblocking (node_callback E tid ts k c)"
proof -
  have "nonblocking (add_node E tid ts dead k)" for dead
    unfolding add_node_def getPod_def getStatusByPod_def made_up_status_def Let_def
    by (intro go_nonblock)
  then show ?thesis by (cases "State c") (simp_all add: node_callback_def go_nonblock)
qed

section \<open>The invariant of the process\<close>

definition plugin_inv :: "'w Process \<Rightarrow> bool" where
  "plugin_inv s \<longleftrightarrow> store_ok s \<and> trafficControlStatusCache s = None \<and> neworkControlStatusCache s = Some Map.empty"

lemma plugin_inv_world [simp]: "plugin_inv (s\<lparr>world := w\<rparr>) = plugin_inv s"
  by (simp add: plugin_inv_def)

lemma plugin_inv_free: "plugin_inv s \<Longrightarrow> \<not> lock s"
  by (simp add: plugin_inv_def)

text \<open>An operation that keeps every part of the state the invariant speaks of.\<close>

lemma plugin_inv_kept:
  assumes "plugin_inv s" and "\<not> lock s'" and "containers s' = containers s"
    and "trafficControlStatusCache s' = None \<longleftrightarrow> trafficControlStatusCache s = None"
    and "neworkControlStatusCache s' = neworkControlStatusCache s"
  shows "plugin_inv s'"
  using assms by (simp add: plugin_inv_def store_ok_def)

lemma main_start_inv:
  assumes "zero_globals s" and "main_start E s = (Returns pc, s')"
  shows "plugin_inv s' \<and> pc = Subscribe"
  using assms
  by (auto simp: main_start_def setupSocket_def NewPlugin_def NewDockerClient_def NewStore_def go_run
      zero_globals_def plugin_inv_def store_ok_def split: option.splits)

lemma Start_step_inv:
  assumes "plugin_inv s" and "Start_step E pc s = (Returns pc', s')"
  shows "plugin_inv s'"
proof -
  have k: "keeps trafficControlStatusCache (Start_step E pc :: ('w Process, dc_pc) go)"
      "keeps neworkControlStatusCache (Start_step E pc :: ('w Process, dc_pc) go)" for E :: "'w env"
    by (rule keeps_Start_step; simp)+
  have "store_ok (snd (Start_step E pc s))"
    by (rule conjunct1 [OF store_safeD [OF store_safe_Start_step]])
      (use assms(1) in \<open>simp add: plugin_inv_def\<close>)
  with assms keeps_snd [OF k(1), of E s] keeps_snd [OF k(2), of E s] show ?thesis
    by (simp add: plugin_inv_def)
qed

subsection \<open>Reports\<close>

lemma keeps_Plugin_report:
  assumes "\<And>s w. f (s\<lparr>world := w\<rparr>) = f s" and "\<And>s c. f (s\<lparr>captured_nodes := c\<rparr>) = f s"
    and "\<And>s b. f (s\<lparr>lock := b\<rparr>) = f s"
  shows "keeps f (Plugin_report E tid ids)"
  unfolding Plugin_report_def RawReport_def make_report_def getContainerNodes_def Let_def
  by (intro go_keeps assms keeps_callback)

lemma ForEach_comes_back:
  assumes "\<not> lock s" and "\<And>k c. nonblocking (callback k c)" and "ForEach ids callback s = (r, s')"
  shows "r \<noteq> Blocks \<and> ((\<forall>n. r \<noteq> Exits n) \<longrightarrow> \<not> lock s')"
proof -
  have "nonblocking (go_defer mutex_Unlock (go_for (\<lambda>k. go_bind (go_gets (\<lambda>s. containers s k)) (\<lambda>c. case c of
      None \<Rightarrow> go_return () | Some c \<Rightarrow> callback k c)) ids))"
    unfolding mutex_Unlock_def by (intro go_nonblock assms(2))
  from nonblockingD [OF this, of "s\<lparr>lock := True\<rparr>"] have "r \<noteq> Blocks"
    using assms(3) by (simp add: ForEach_def locked_run [OF assms(1)])
  with assms(1,3) show ?thesis by (auto simp: ForEach_def dest: locked_unlocks)
qed

lemma Plugin_report_comes_back:
  assumes "\<not> lock s" and "Plugin_report E tid ids s = (r, s')"
  shows "r \<noteq> Blocks \<and> ((\<forall>n. r \<noteq> Exits n) \<longrightarrow> \<not> lock s')"
proof -
  obtain ts w where t: "time_Now E (world s) = (ts, w)" by (cases "time_Now E (world s)")
  let ?s = "s\<lparr>captured_nodes := [], world := w\<rparr>"
  obtain q s1 where q: "ForEach ids (node_callback E tid ts) ?s = (q, s1)"
    by (cases "ForEach ids (node_callback E tid ts) ?s")
  have "q \<noteq> Blocks \<and> ((\<forall>n. q \<noteq> Exits n) \<longrightarrow> \<not> lock s1)"
    using ForEach_comes_back [OF _ nonblocking_node_callback q] assms(1) by simp
  with assms(2) q t show ?thesis
    by (cases q) (auto simp: Plugin_report_def RawReport_def make_report_def getContainerNodes_def go_run Let_def)
qed

subsection \<open>Control requests\<close>

lemma keeps_control_table:
  assumes "\<And>s w. f (s\<lparr>world := w\<rparr>) = f s" and "\<And>s l. f (s\<lparr>trace := l\<rparr>) = f s"
    and "\<And>s g. f (s\<lparr>thread_ns := g\<rparr>) = f s" and "\<And>k st. keeps f (cache_store k st)"
    and "\<And>s k. f (s\<lparr>trafficControlStatusCache := gomap_delete k (trafficControlStatusCache s)\<rparr>) = f s"
    and "map_of (control_table E tid pid) x = Some h"
  shows "keeps f h"
  using assms(6) keeps_handlers [where f = f, OF assms(1-5)]
  by (auto simp: control_table_def split: if_splits)

lemma nonblocking_control_table:
  "map_of (control_table E tid pid) x = Some h \<Longrightarrow> nonblocking h"
  by (auto simp: control_table_def go_nonblock split: if_splits)

text \<open>What a client makes of the body of an answer: the member \<open>error\<close>, empty if there is none.\<close>

definition response_fields :: "response fields" where
  "response_fields = [(''error'', field Error (\<lambda>x r. r\<lparr>Error := x\<rparr>) decode_string)]"

definition answer_error :: "http_response \<Rightarrow> error + string" where
  "answer_error a = map_sum id Error (json_Decode (decode_struct response_fields) (Body a, None) \<lparr>Error = []\<rparr>)"

lemma to_valid_Nil_iff [simp]: "to_valid s = [] \<longleftrightarrow> s = []"
  using rune_len_le [of s] by (subst to_valid.simps) (auto simp: Let_def)

interpretation jr: json_codec encode_response "decode_struct response_fields" "\<lambda>r. \<lparr>Error = to_valid (Error r)\<rparr>" "\<lparr>Error = []\<rparr>"
  by unfold_locales
    (simp_all add: encode_response_def omit_def encode_string_def response_fields_def find_field_def field_def to_valid_ascii)

lemma answer_sent [simp]:
  "StatusCode (sendResponse E err) = 200"
  "answer_error (sendResponse E err) = Inr (case err of None \<Rightarrow> [] | Some e \<Rightarrow> to_valid (err_text (unicode_IsPrint E) e))"
  by (simp_all add: sendResponse_def marshal_response_def StatusOK_def answer_error_def jr.decode_print split: option.split)

definition handler_answer :: "'w env \<Rightarrow> error option \<Rightarrow> http_response" where
  "handler_answer E e = sendResponse E (map_option (\<lambda>err. Errorf ''handler failed: %v'' [ArgE err]) e)"

lemma handler_answer_case:
  "case_option (go_return (sendResponse E None))
     (\<lambda>err. go_return (sendResponse E (Some (Errorf ''handler failed: %v'' [ArgE err])))) =
   (\<lambda>e. go_return (handler_answer E e))"
  by (rule ext) (simp add: handler_answer_def split: option.split)

definition refusal :: "'w env \<Rightarrow> error \<Rightarrow> http_response" where
  "refusal E e = sendResponse E (Some (Errorf ''failed to get handler: %v'' [ArgE e]))"

text \<open>The container and the handler that a request is for.\<close>

definition target :: "'w env \<Rightarrow> nat \<Rightarrow> request \<Rightarrow> 'w Process \<Rightarrow> ('w Process, error option) go option" where
  "target E tid req s = (case nodeIDToContainerID (NodeID req) of
      Inl _ \<Rightarrow> None
    | Inr k \<Rightarrow> (case containers s k of
        None \<Rightarrow> None
      | Some c \<Rightarrow> map_of (control_table E tid (PID c)) (Control req)))"

lemma GetHandler_target:
  assumes "\<not> lock s"
  shows "(case target E tid req s of
      None \<Rightarrow> \<exists>e. GetHandler E tid (NodeID req) (Control req) s = (Returns (Inl e), s)
    | Some h \<Rightarrow> GetHandler E tid (NodeID req) (Control req) s = (Returns (Inr h), s))"
  using find_handler_table [of _ "Control req" E tid]
  by (auto simp: GetHandler_run [OF assms] target_def split: sum.split option.split)
    (metis option.simps(8,9) option.distinct(1) option.inject)+

lemma Plugin_control_cases:
  assumes "\<not> lock s"
  obtains
    (malformed) err where "decode_request body = Inl err"
      "Plugin_control E tid body s = (Returns (http_Error (err_text (unicode_IsPrint E) err) StatusBadRequest), s)"
  | (refused) req e where "decode_request body = Inr req" "target E tid req s = None"
      "Plugin_control E tid body s = (Returns (refusal E e), s)"
  | (handled) req h where "decode_request body = Inr req" "target E tid req s = Some h"
      "Plugin_control E tid body s = go_bind h (\<lambda>e. go_return (handler_answer E e)) s"
proof (cases "decode_request body")
  case (Inl err)
  then show thesis by (intro malformed) (simp_all add: Plugin_control_def go_run)
next
  case (Inr req)
  show thesis
  proof (cases "target E tid req s")
    case None
    then obtain e where "GetHandler E tid (NodeID req) (Control req) s = (Returns (Inl e), s)"
      using GetHandler_target [OF assms, of E tid req] by auto
    with Inr None show ?thesis
      by (intro refused [of req e]) (simp_all add: Plugin_control_def refusal_def go_run)
  next
    case (Some h)
    then have g: "GetHandler E tid (NodeID req) (Control req) s = (Returns (Inr h), s)"
      using GetHandler_target [OF assms, of E tid req] by auto
    with Inr Some show ?thesis
      by (intro handled [of req h])
        (simp_all add: Plugin_control_def handler_answer_case go_bind_simps(1)
          [where m = "GetHandler E tid (NodeID req) (Control req)" and s = s, OF g])
  qed
qed

subsection \<open>Every step\<close>

lemma target_table:
  "target E tid req s = Some h \<Longrightarrow> \<exists>k c. NodeID req = containerIDToNodeID k \<and> containers s k = Some c
     \<and> map_of (control_table E tid (PID c)) (Control req) = Some h"
  by (auto simp: target_def nodeID_roundtrip split: sum.splits option.splits)

lemma target_keeps:
  assumes "target E tid req s = Some h"
  shows "keeps containers h" "keeps lock h" "keeps cache_nil h" "keeps neworkControlStatusCache h" "nonblocking h"
proof -
  obtain pid where t: "map_of (control_table E tid pid) (Control req) = Some h"
    using target_table [OF assms] by blast
  then show "nonblocking h" by (rule nonblocking_control_table)
  show "keeps containers h" "keeps lock h" "keeps neworkControlStatusCache h"
    by (rule keeps_control_table [OF _ _ _ _ _ t]; (rule keeps_cache_store)?; simp)+
  show "keeps cache_nil h"
    by (rule keeps_control_table [OF _ _ _ _ _ t]; (rule keeps_cache_nil_state)?; simp add: cache_nil_def)
qed

lemma serve_comes_back:
  assumes "plugin_inv s" and "serve E tid ids req s = (r, s')"
  shows "r \<noteq> Blocks \<and> ((\<exists>a. r = Returns a) \<longrightarrow> plugin_inv s')"
proof -
  obtain path body where req: "req = HttpRequest path body" by (cases req)
  have free: "\<not> lock s" using assms(1) by (rule plugin_inv_free)
  have rec: "r \<noteq> Blocks \<and> ((\<exists>a. r = Returns a) \<longrightarrow> plugin_inv s')"
    if "recovered m s = (r, s')" "\<And>q t. m s = (q, t) \<Longrightarrow> q \<noteq> Blocks \<and> ((\<forall>n. q \<noteq> Exits n) \<longrightarrow> plugin_inv t)" for m
    using that by (cases "m s"; cases "fst (m s)") (auto simp: recovered_def)
  have report: "q \<noteq> Blocks \<and> ((\<forall>n. q \<noteq> Exits n) \<longrightarrow> plugin_inv t)" if "Plugin_report E tid ids s = (q, t)" for q t
  proof -
    have "keeps containers (Plugin_report E tid ids)" "keeps trafficControlStatusCache (Plugin_report E tid ids)"
        "keeps neworkControlStatusCache (Plugin_report E tid ids)"
      by (rule keeps_Plugin_report; simp)+
    with that have "containers t = containers s" "trafficControlStatusCache t = trafficControlStatusCache s"
        "neworkControlStatusCache t = neworkControlStatusCache s"
      by (simp_all add: keepsD [where s = s])
    with Plugin_report_comes_back [OF free that] assms(1) show ?thesis
      by (auto intro: plugin_inv_kept)
  qed
  have control: "q \<noteq> Blocks \<and> ((\<forall>n. q \<noteq> Exits n) \<longrightarrow> plugin_inv t)" if "Plugin_control E tid body s = (q, t)" for q t
  proof (cases rule: Plugin_control_cases [OF free, of body E tid])
    case (3 req h)
    obtain u v where h: "h s = (u, v)" by (cases "h s")
    have "plugin_inv v"
      using free assms(1) keepsD [OF target_keeps(1) [OF 3(2)] h] keepsD [OF target_keeps(2) [OF 3(2)] h]
        keepsD [OF target_keeps(3) [OF 3(2)] h] keepsD [OF target_keeps(4) [OF 3(2)] h]
      by (auto intro: plugin_inv_kept simp: cache_nil_def)
    with 3(3) h that nonblockingD [OF target_keeps(5) [OF 3(2)], of s] show ?thesis
      by (cases u) (auto simp: go_run)
  qed (use that assms(1) in auto)
  show ?thesis
    using assms(2) assms(1) rec report control unfolding req serve.simps
    by (auto simp: go_run split: if_splits)
qed

text \<open>The plugin as a machine with an invariant: what \<open>main\<close> starts, and what holds while it is up.\<close>

definition boots :: "'w env \<Rightarrow> 'w plugin \<Rightarrow> bool" where
  "boots E p \<longleftrightarrow> (\<exists>s s'. zero_globals s \<and> ((\<exists>pc. main_start E s = (Returns pc, s') \<and> p = Up pc s')
     \<or> (\<exists>n. main_start E s = (Exits n, s') \<and> p = Down n s')))"

fun up_inv :: "'w plugin \<Rightarrow> bool" where
  "up_inv (Up pc s) = plugin_inv s"
| "up_inv (Down n s) = True"

lemma step_up_inv:
  assumes "step E (Up pc s) (Up pc' s')" and "plugin_inv s"
  shows "plugin_inv s'"
  using assms(1) by (cases rule: step_UpE) (use assms(2) serve_comes_back Start_step_inv in fastforce)+

interpretation plug: invariant_system "boots E" "step E" up_inv for E :: "'w env"
proof
  fix p
  assume "boots E p"
  then show "up_inv p" unfolding boots_def using main_start_inv [of _ E] by fastforce
next
  fix p p'
  assume "up_inv p" and "step E p p'"
  then show "up_inv p'" by (cases p; cases p') (auto intro: step_up_inv elim: step_DownE)
qed

lemma reachable_boots: "reachable E p \<Longrightarrow> \<exists>p0. boots E p0 \<and> (step E)\<^sup>*\<^sup>* p0 p"
proof (induction rule: reachable.induct)
  case (start s pc s')
  then have "boots E (Up pc s')" unfolding boots_def by blast
  then show ?case by blast
next
  case (fail s n s')
  then have "boots E (Down n s')" unfolding boots_def by blast
  then show ?case by blast
next
  case (step p p')
  then show ?case by (blast intro: rtranclp.rtrancl_into_rtrancl)
qed

lemma reachable_Up: "reachable E (Up pc s) \<Longrightarrow> plugin_inv s"
  using reachable_boots plug.reachable_inv by (metis up_inv.simps(1))

section \<open>Properties of the running plugin\<close>

text \<open>
  C1: the invariant of the plugin. In every state in which the plugin is up, whatever the
  Docker daemon, the kernel, the clients and the scheduler did before, the store's mutex is free,
  the store holds finitely many containers and none in the state \<open>Destroyed\<close>, so that a report has an order in which to visit them, and
  \<open>trafficControlStatusCache\<close> is still the nil map.
\<close>

theorem plugin_invariant:
  assumes "reachable E (Up pc s)"
  shows "\<not> lock s \<and> (\<forall>k c. containers s k = Some c \<longrightarrow> State c \<noteq> Destroyed)
    \<and> (\<exists>ids. range_order ids (containers s))
    \<and> trafficControlStatusCache s = None \<and> neworkControlStatusCache s = Some Map.empty"
proof -
  have inv: "plugin_inv s" using assms by (rule reachable_Up)
  then have "finite (dom (containers s))" by (simp add: plugin_inv_def store_ok_def)
  then have "\<exists>ids. set ids = dom (containers s) \<and> distinct ids" by (rule finite_distinct_list)
  then obtain ids where "set ids = dom (containers s)" "distinct ids" by (elim exE conjE)
  with inv show ?thesis by (auto simp: plugin_inv_def store_ok_def range_order_def)
qed

definition demo_boot :: "unit Process" where
  "demo_boot = (demo_process Map.empty)\<lparr>neworkControlStatusCache := None\<rparr>"

lemma demo_main_start: "main_start demo_E demo_boot = (Returns Subscribe, demo_process Map.empty)"
  by (simp add: main_start_def setupSocket_def NewPlugin_def NewDockerClient_def NewStore_def demo_boot_def
      demo_process_def go_run)

definition demo_synced :: "unit Process" where
  "demo_synced = demo_process [''c1'' \<mapsto> \<lparr>State = Running, PID = 42\<rparr>]"

lemma demo_reachable: "reachable demo_E (Up Listen demo_synced)"
proof -
  have "reachable demo_E (Up Subscribe (demo_process Map.empty))"
    by (rule start [OF _ demo_main_start]) (simp add: zero_globals_def demo_boot_def demo_process_def)
  moreover have "step demo_E (Up Subscribe (demo_process Map.empty)) (Up Sync (demo_process Map.empty))"
    by (rule docker) (simp add: go_run demo_process_def)
  moreover have "step demo_E (Up Sync (demo_process Map.empty)) (Up Listen demo_synced)"
    by (rule docker) (simp add: getContainers_def sync_container_def inspection_def demo_inspect_def demo_state_def
        inspected_state_def demo_process_def demo_synced_def go_run)
  ultimately show ?thesis by (blast intro: reachable.step)
qed

theorem plugin_invariant_witness:
  "trafficControlStatusCache demo_synced = None \<and> \<not> lock demo_synced
   \<and> containers demo_synced ''c1'' = Some \<lparr>State = Running, PID = 42\<rparr>"
  using plugin_invariant [OF demo_reachable] by (simp add: demo_synced_def)

text \<open>
  C17: no goroutine waits forever for the store's mutex. In every state in which the plugin is
  up, the next step of the Docker client and every HTTP request come back: they return, or
  panic, or end the process.
\<close>

theorem nothing_blocks:
  assumes "reachable E (Up pc s)"
  shows "fst (Start_step E pc s) \<noteq> Blocks \<and> fst (serve E tid ids req s) \<noteq> Blocks"
proof
  have inv: "plugin_inv s" using assms by (rule reachable_Up)
  have "ends_with (\<lambda>p. pc = Sync \<and> p = NilDeref) (fst (Start_step E pc s))"
    by (rule conjunct2 [OF store_safeD [OF store_safe_Start_step]]) (use inv in \<open>simp add: plugin_inv_def\<close>)
  then show "fst (Start_step E pc s) \<noteq> Blocks" by auto
  show "fst (serve E tid ids req s) \<noteq> Blocks"
    using serve_comes_back [OF inv, of E tid ids req] by (cases "serve E tid ids req s") auto
qed

theorem nothing_blocks_witness:
  "fst (serve demo_E 1 [''c1''] (HttpRequest ''/report'' ([], None)) demo_synced) \<noteq> Blocks"
  using nothing_blocks [OF demo_reachable] by blast

text \<open>
  C14: a control that sets a latency or a packet loss never succeeds. In no state that the
  plugin can reach does a request for one of the three speeds or for the packet drop get an
  answer without an error in it, because the map in which these handlers keep the settings is nil.
\<close>

theorem speed_controls_never_succeed:
  assumes "reachable E (Up pc s)"
    and "decode_request body = Inr req"
    and "Control req \<in> (@) networkControlTablePrefix ` {''slow'', ''medium'', ''fast'', ''pkt-drop-low''}"
    and "serve E tid ids (HttpRequest ''/control'' body) s = (Returns (Answered a), s')"
  shows "StatusCode a = 200 \<and> (\<exists>m. answer_error a = Inr m \<and> m \<noteq> [])"
proof -
  have inv: "plugin_inv s" using assms(1) by (rule reachable_Up)
  then have free: "\<not> lock s" and nil: "cache_nil s" by (simp_all add: plugin_inv_free) (simp add: plugin_inv_def cache_nil_def)
  from assms(4) have run: "Plugin_control E tid body s = (Returns a, s')"
    by (cases "Plugin_control E tid body s"; cases "fst (Plugin_control E tid body s)") (auto simp: recovered_def)
  show ?thesis
  proof (cases rule: Plugin_control_cases [OF free, of body E tid])
    case (1 err)
    with assms(2) show ?thesis by simp
  next
    case (2 rq e)
    with run show ?thesis by (auto simp: refusal_def)
  next
    case (3 rq h)
    with assms(2) have rq: "rq = req" by simp
    from 3(3) run obtain r where h: "h s = (Returns r, s')" and a: "a = handler_answer E r"
      by (auto simp: go_run split: prod.splits outcome.splits)
    obtain pid where "map_of (control_table E tid pid) (Control req) = Some h"
      using target_table [OF 3(2) [unfolded rq]] by blast
    with assms(3) have "(\<exists>l. l \<noteq> [] \<and> h = ApplyLatency E tid pid l) \<or> h = ApplyPacketLoss E tid pid ''10%''"
      by (auto simp: control_table_def split: if_splits)
    then have "r \<noteq> None"
      using h nil returns_withD [OF ApplyLatency_nil] returns_withD [OF ApplyPacketLoss_nil] by fastforce
    with a show ?thesis by (auto simp: handler_answer_def)
  qed
qed

definition demo_body :: "string \<Rightarrow> stream" where
  "demo_body x = (json_text (JObj [(''nodeID'', JStr ''c1;<container>''), (''Control'', JStr x)]), None)"

lemma request_names:
  "equal_fold ''NodeID'' k \<longleftrightarrow> map fold_case ''NodeID'' = map fold_case k"
  "equal_fold ''Control'' k \<longleftrightarrow> map fold_case ''Control'' = map fold_case k"
  by (simp_all add: equal_fold_def is_letter_def fold_case_def simpleLetterEqualFold_def)

lemma one_field: "equal_fold ''NodeID'' k \<Longrightarrow> \<not> equal_fold ''Control'' k"
  by (auto simp: request_names dest: arg_cong [where f = length])

lemma find_request_field:
  "find_field request_fields k =
     (if equal_fold ''NodeID'' k then Some (field NodeID (\<lambda>x r. r\<lparr>NodeID := x\<rparr>) decode_string)
      else if equal_fold ''Control'' k then Some (field Control (\<lambda>x r. r\<lparr>Control := x\<rparr>) decode_string)
      else None)"
  using one_field [of k] by (auto simp: find_field_def request_fields_def equal_fold_refl)

lemma demo_decode:
  assumes "\<forall>c \<in> set x. (of_char c :: nat) < 0x80"
  shows "decode_request (demo_body x) = Inr \<lparr>NodeID = ''c1;<container>'', Control = x\<rparr>"
proof -
  let ?v = "JObj [(''nodeID'', JStr ''c1;<container>''), (''Control'', JStr x)]"
  have "read_json (demo_body x) = Inr (valid_json ?v)" unfolding demo_body_def by (rule read_print) simp
  with assms show ?thesis
    by (simp add: decode_request_def to_valid_ascii find_request_field field_def request_names fold_case_def)
qed

lemma demo_target:
  "target demo_E tid \<lparr>NodeID = ''c1;<container>'', Control = x\<rparr> demo_synced = map_of (control_table demo_E tid 42) x"
  by (simp add: target_def nodeIDToContainerID_def nodeSuffix_def HasSuffix_def TrimSuffix_def demo_synced_def)

theorem speed_controls_never_succeed_witness:
  "\<exists>a s' m. serve demo_E 1 [''c1''] (HttpRequest ''/control'' (demo_body ''network-control-table-slow'')) demo_synced
     = (Returns (Answered a), s') \<and> answer_error a = Inr m \<and> m \<noteq> []"
proof -
  let ?b = "demo_body ''network-control-table-slow''"
  have free: "\<not> lock demo_synced" by (simp add: demo_synced_def)
  have "\<exists>a s'. serve demo_E 1 [''c1''] (HttpRequest ''/control'' ?b) demo_synced = (Returns (Answered a), s')"
  proof (cases rule: Plugin_control_cases [OF free, of ?b demo_E 1])
    case (3 req h)
    have "h = ApplyLatency demo_E 1 42 ''2000ms''"
      using 3(1,2) by (auto simp: demo_decode demo_target control_table_def networkControlTablePrefix_def)
    with 3(3) show ?thesis
      by (simp add: recovered_def ApplyLatency_def getPacketLoss_def getStatus_def queryInfluxDB_def
          parseAttribute_def demo_synced_def demo_process_def demo_run)
  qed (auto simp: recovered_def)
  then obtain a s' where "serve demo_E 1 [''c1''] (HttpRequest ''/control'' ?b) demo_synced = (Returns (Answered a), s')"
    by (elim exE)
  with speed_controls_never_succeed [OF demo_reachable demo_decode _ this] show ?thesis
    by (force simp: networkControlTablePrefix_def)
qed

text \<open>
  C27: the answers to control requests. A body that cannot be decoded gets status 400; a request
  for a node that is not a container of the store, or for an unknown control, gets status 200
  with an error; neither changes anything. Otherwise the control's handler is run on the
  container's process, once, and the answer has status 200 and an error exactly if the handler
  returned one.
\<close>

theorem control_answers:
  assumes "\<not> lock s"
  shows "case decode_request body of
      Inl err \<Rightarrow> Plugin_control E tid body s =
        (Returns \<lparr>StatusCode = 400, Body = err_text (unicode_IsPrint E) err @ [CHR 0x0A]\<rparr>, s)
    | Inr req \<Rightarrow> (case target E tid req s of
        None \<Rightarrow> \<exists>a m. Plugin_control E tid body s = (Returns a, s) \<and> StatusCode a = 200
          \<and> answer_error a = Inr (''failed to get handler: '' @ m)
      | Some h \<Rightarrow> (case h s of (r, s') \<Rightarrow> (case r of
            Returns e \<Rightarrow> \<exists>a. Plugin_control E tid body s = (Returns a, s') \<and> StatusCode a = 200
              \<and> answer_error a = Inr (case e of
                    None \<Rightarrow> []
                  | Some err \<Rightarrow> ''handler failed: '' @ to_valid (err_text (unicode_IsPrint E) err))
          | Panics p \<Rightarrow> Plugin_control E tid body s = (Panics p, s')
          | Exits n \<Rightarrow> Plugin_control E tid body s = (Exits n, s')
          | Blocks \<Rightarrow> Plugin_control E tid body s = (Blocks, s'))))"
proof (cases rule: Plugin_control_cases [OF assms, of body E tid])
  case (1 err)
  then show ?thesis by (simp add: StatusBadRequest_def http_Error_def)
next
  case (2 req e)
  then show ?thesis by (auto simp: refusal_def to_valid_ascii_Cons)
next
  case (3 req h)
  then show ?thesis
    by (auto simp: handler_answer_def go_run to_valid_ascii_Cons split: prod.split outcome.split option.split)
qed

theorem control_answers_witness:
  "\<exists>a m. Plugin_control demo_E 1 (demo_body ''network-control-table-nonsense'') demo_synced = (Returns a, demo_synced)
     \<and> answer_error a = Inr (''failed to get handler: '' @ m)"
proof -
  have "\<not> lock demo_synced" by (simp add: demo_synced_def)
  from control_answers [OF this, where body = "demo_body ''network-control-table-nonsense''" and E = demo_E and tid = 1] show ?thesis
    by (auto simp: demo_decode demo_target control_table_def networkControlTablePrefix_def)
qed

section \<open>Start-up\<close>

lemma socket_dir: "path_dir socketPath = ''/var/run/scope/plugins/network-control''"
  by (simp add: path_dir_def socketPath_def)

text \<open>
  Start-up. The plugin clears and recreates the directory of its socket, listens on the
  socket and connects to Docker, in this order, and ends with status 1 at the first of these
  that fails (failing to clear is ignored). If none fails it runs with an empty store, the
  Docker client about to subscribe, one of its caches made and the other still nil. A signal
  later removes the same directory and ends the process with status 0.
\<close>

lemma startup:
  "let dir = ''/var/run/scope/plugins/network-control'';
       w1 = snd (os_RemoveAll E dir (world s));
       (made, w2) = os_MkdirAll E dir w1;
       (listening, w3) = net_Listen E (dir @ ''/network-control.sock'') w2;
       (connected, w4) = docker_NewClient E ''unix:///var/run/docker.sock'' w3;
       empty = s\<lparr>lock := False, containers := Map.empty\<rparr>
   in main_start E s =
       (if made \<noteq> None then (Exits 1, s\<lparr>world := w2\<rparr>)
        else if listening \<noteq> None then (Exits 1, s\<lparr>world := w3\<rparr>)
        else if connected \<noteq> None then (Exits 1, empty\<lparr>world := w4\<rparr>)
        else (Returns Subscribe, empty\<lparr>world := w4, neworkControlStatusCache := Some Map.empty\<rparr>))
     \<and> on_signal E socketPath s = (Exits 0, s\<lparr>world := w1\<rparr>)"
proof -
  have path: "socketPath = ''/var/run/scope/plugins/network-control'' @ ''/network-control.sock''"
    by (simp add: socketPath_def)
  show ?thesis
    unfolding main_start_def setupSocket_def NewPlugin_def NewDockerClient_def NewStore_def on_signal_def
      socket_dir Let_def path [symmetric]
    by (auto simp: go_run split: prod.split option.split)
qed

section \<open>Stale entries\<close>

lemma keeps_other_container:
  "k \<noteq> k' \<Longrightarrow> keeps (\<lambda>s. containers s k) (updateContainer k' st pid)"
  unfolding updateContainer_def SetContainer_def DeleteContainer_def
  by (intro go_keeps keeps_locked) simp_all

lemma keeps_other_sync: "k \<notin> set ids \<Longrightarrow> keeps (\<lambda>s. containers s k) (go_for (sync_container E) ids)"
proof (induction ids)
  case Nil
  show ?case by (simp add: go_keeps)
next
  case (Cons i ids)
  have "keeps (\<lambda>s. containers s k) (sync_container E i)"
    unfolding sync_container_def by (intro go_keeps keeps_other_container) (use Cons.prems in auto)
  with Cons show ?case by (auto intro: go_keeps)
qed

text \<open>Docker has forgotten a container: it sends no event about it, does not list it and does
  not answer an inspection of it.\<close>

definition forgotten :: "'w env \<Rightarrow> string \<Rightarrow> bool" where
  "forgotten E k \<longleftrightarrow> (\<forall>w ev. fst (docker_receive E w) = Received ev \<longrightarrow> ev_ID ev \<noteq> k)
     \<and> (\<forall>w ids. fst (docker_ListContainers E w) = Inr ids \<longrightarrow> k \<notin> set ids)
     \<and> (\<forall>w. \<exists>e. fst (docker_InspectContainer E k w) = Inl e)"

lemma Start_step_forgotten:
  assumes "forgotten E k"
  shows "containers (snd (Start_step E pc s)) k = containers s k"
proof (cases pc)
  case Sync
  obtain r w where r: "docker_ListContainers E (world s) = (r, w)" by (cases "docker_ListContainers E (world s)")
  have "containers (snd (getContainers E s)) k = containers s k"
  proof (cases r)
    case (Inl e)
    with r show ?thesis by (simp add: getContainers_def go_run)
  next
    case (Inr ids)
    with assms r have "k \<notin> set ids" unfolding forgotten_def by (metis fst_conv)
    then have "keeps (\<lambda>s. containers s k) (go_seq (go_for (sync_container E) ids) (go_return None))"
      by (intro go_keeps keeps_other_sync)
    from keeps_snd [OF this, of "s\<lparr>world := w\<rparr>"] r Inr show ?thesis
      by (simp add: getContainers_def go_bind_call)
  qed
  with Sync show ?thesis
    by (cases "getContainers E s"; cases "fst (getContainers E s)") (simp_all add: go_run)
next
  case Listen
  obtain r w where r: "docker_receive E (world s) = (r, w)" by (cases "docker_receive E (world s)")
  show ?thesis
  proof (cases r)
    case ChanClosed
    with r Listen show ?thesis by (simp add: go_run)
  next
    case (Received ev)
    with assms r have "ev_ID ev \<noteq> k" unfolding forgotten_def by (metis fst_conv)
    then have "keeps (\<lambda>s. containers s k) (go_seq (handleEvent E ev) (go_return Listen))"
      unfolding handleEvent_def by (intro go_keeps keeps_other_container) auto
    from keeps_snd [OF this, of "s\<lparr>world := w\<rparr>"] r Received Listen show ?thesis
      by (simp add: go_bind_call)
  qed
qed (simp_all add: go_run)

lemma serve_keeps_containers:
  assumes "plugin_inv s"
  shows "containers (snd (serve E tid ids req s)) = containers s"
proof -
  obtain path body where req: "req = HttpRequest path body" by (cases req)
  have rec: "snd (recovered m s) = snd (m s)" for m :: "('a Process, http_response) go"
    by (simp add: recovered_def split: prod.split outcome.split)
  have "keeps containers (Plugin_report E tid ids)" by (rule keeps_Plugin_report) simp_all
  moreover have "containers (snd (Plugin_control E tid body s)) = containers s"
  proof (cases rule: Plugin_control_cases [OF plugin_inv_free [OF assms], of body E tid])
    case (3 rq h)
    have "keeps containers (go_bind h (\<lambda>e. go_return (handler_answer E e)))"
      by (intro go_keeps target_keeps(1) [OF 3(2)])
    with 3(3) show ?thesis by (simp add: keeps_snd)
  qed simp_all
  ultimately show ?thesis by (simp add: req rec keeps_snd go_run)
qed

lemma step_forgotten:
  assumes "forgotten E k" and "step E (Up pc s) (Up pc' s')" and "plugin_inv s"
  shows "containers s' k = containers s k"
  using assms(2)
proof (cases rule: step.cases)
  case docker
  with Start_step_forgotten [OF assms(1), of pc s] show ?thesis by simp
next
  case (request ids tid req r)
  with serve_keeps_containers [OF assms(3), of E tid ids req] show ?thesis by simp
qed simp_all

lemma steps_forgotten:
  assumes "(step E)\<^sup>*\<^sup>* (Up pc s) p" and "forgotten E k" and "plugin_inv s"
  shows "p = Up pc' s' \<Longrightarrow> plugin_inv s' \<and> containers s' k = containers s k"
  using assms(1)
proof (induction arbitrary: pc' s' rule: rtranclp_induct)
  case base
  then show ?case using assms(3) by simp
next
  case (step p p')
  show ?case
  proof (cases p)
    case (Up pc1 s1)
    with step have "plugin_inv s1" "containers s1 k = containers s k" by blast+
    with step Up show ?thesis by (metis step_up_inv step_forgotten assms(2))
  next
    case (Down n s1)
    with step show ?thesis by (blast elim: step_DownE)
  qed
qed

text \<open>
  C15: an entry for a container that is gone stays, and it stops every report. Suppose the
  plugin reached some state with a running or stopped container in its store, and from then on
  Docker has forgotten that container (its \<open>destroy\<close> event was lost, say, while the event
  listener was disconnected). Then however the plugin goes on, reconnecting and reading the list
  of containers included, the entry is still there and every request for a report is aborted.
\<close>

theorem stale_entry_is_forever:
  assumes "reachable E (Up pc s)" and "containers s k = Some c" and "State c \<in> {Running, Stopped}"
    and "rand_spec E'" and "forgotten E' k" and "(step E')\<^sup>*\<^sup>* (Up pc s) (Up pc' s')"
    and "range_order ids (containers s')"
  shows "containers s' k = Some c
    \<and> fst (serve E' tid ids (HttpRequest ''/report'' body) s') = Returns Aborted"
proof -
  have "plugin_inv s" using assms(1) by (rule reachable_Up)
  with assms(5,6) have s': "plugin_inv s'" "containers s' k = Some c"
    using steps_forgotten [of E' pc s "Up pc' s'" k pc' s'] assms(2) by auto
  have "\<exists>t. RawReport E' tid ids s' = (Panics NilDeref, t) \<and> containers t = containers s' \<and> \<not> lock t"
    using assms(4) plugin_inv_free [OF s'(1)] assms(7) s'(2) assms(3)
    by (rule RawReport_stale) (use assms(5) in \<open>simp add: forgotten_def\<close>)
  then obtain t where "RawReport E' tid ids s' = (Panics NilDeref, t)" by blast
  with s'(2) show ?thesis by (simp add: Plugin_report_def recovered_def go_run)
qed

theorem stale_entry_is_forever_witness:
  "fst (serve (demo_env [] (\<lambda>k. Inl (NoSuchContainer k))) 1 [''c1''] (HttpRequest ''/report'' ([], None))
     demo_synced) = Returns Aborted"
proof -
  let ?E' = "demo_env [] (\<lambda>k. Inl (NoSuchContainer k))"
  have "containers demo_synced ''c1'' = Some \<lparr>State = Running, PID = 42\<rparr>" by (simp add: demo_synced_def)
  moreover have "State \<lparr>State = Running, PID = 42\<rparr> \<in> {Running, Stopped}" by simp
  moreover have "rand_spec ?E'" by (auto simp: rand_spec_def)
  moreover have "forgotten ?E' ''c1''" by (simp add: forgotten_def)
  moreover have "range_order [''c1''] (containers demo_synced)" by (simp add: range_order_def demo_synced_def)
  ultimately show ?thesis
    using stale_entry_is_forever [OF demo_reachable, where E' = ?E' and k = "''c1''" and ids = "[''c1'']"] by blast
qed

section \<open>Decoding a control request\<close>

definition strings_for :: "string \<Rightarrow> (string \<times> json) list \<Rightarrow> string list" where
  "strings_for name kvs = List.map_filter (\<lambda>(k, v). case v of
      JStr x \<Rightarrow> if equal_fold name k then Some x else None | _ \<Rightarrow> None) kvs"

definition last_string :: "string \<Rightarrow> (string \<times> json) list \<Rightarrow> string" where
  "last_string name kvs = (if strings_for name kvs = [] then [] else last (strings_for name kvs))"

definition ill_typed :: "(string \<times> json) list \<Rightarrow> bool" where
  "ill_typed kvs \<longleftrightarrow> list_ex (\<lambda>(k, v). (equal_fold ''NodeID'' k \<or> equal_fold ''Control'' k)
     \<and> (case v of JStr _ \<Rightarrow> False | JNull \<Rightarrow> False | _ \<Rightarrow> True)) kvs"

lemma strings_for_snoc:
  "strings_for name (kvs @ [(k, v)]) = strings_for name kvs @
     (case v of JStr x \<Rightarrow> if equal_fold name k then [x] else [] | _ \<Rightarrow> [])"
  by (simp add: strings_for_def List.map_filter_def split: json.split)

lemma decode_request_fields:
  "decode_fields request_fields kvs \<lparr>NodeID = [], Control = []\<rparr> =
     (if ill_typed kvs then Inl unmarshal_error
      else Inr \<lparr>NodeID = last_string ''NodeID'' kvs, Control = last_string ''Control'' kvs\<rparr>)"
proof (induction kvs rule: rev_induct)
  case Nil
  show ?case by (simp add: last_string_def strings_for_def List.map_filter_def ill_typed_def)
next
  case (snoc kv kvs)
  obtain k v where kv: "kv = (k, v)" by (cases kv)
  with snoc show ?case
    by (cases v) (auto simp: decode_fields_append find_request_field field_def last_string_def
        strings_for_snoc ill_typed_def dest: one_field)
qed

text \<open>
  What a control request says. From a JSON object the node ID and the control are the last
  strings under a key that is the field's name up to case, empty if there is none; null and
  other keys are ignored, and a value of another type under either name makes the request
  malformed. A body that is null is an empty request; every other body is malformed.
\<close>

lemma request_decoding:
  "read_json body = Inr (JObj kvs) \<Longrightarrow> decode_request body =
     (if ill_typed kvs then Inl unmarshal_error
      else Inr \<lparr>NodeID = last_string ''NodeID'' kvs, Control = last_string ''Control'' kvs\<rparr>)"
  "read_json body = Inr JNull \<Longrightarrow> decode_request body = Inr \<lparr>NodeID = [], Control = []\<rparr>"
  "read_json body = Inl err \<Longrightarrow> decode_request body = Inl err"
  "read_json body = Inr v \<Longrightarrow> v \<in> range JBool \<union> range JNum \<union> range JStr \<union> range JArr \<Longrightarrow>
     decode_request body = Inl unmarshal_error"
  by (auto simp: decode_request_def decode_request_fields)

end
