(* ===== verification/Confinement.thy ===== *)
theory Confinement
  imports Plugin_Props
begin

text \<open>
  Where the commands run that the plugin executes. A command is recorded with the namespace it ran
  in (\<open>trace\<close>); a namespace was \<open>opened\<close> for a process if opening the file \<open>/proc/<pid>/ns/net\<close> of the
  process has yielded it. Each handler only adds commands in namespaces opened for its process,
  and nothing else in the plugin adds any.
\<close>

definition opened :: "'w env \<Rightarrow> int \<Rightarrow> nat \<Rightarrow> bool" where
  "opened E pid i \<longleftrightarrow> (\<exists>tbl w. fst (os_Open E tbl (netns_path pid) w) = Inr i)"

fun runs_in :: "'w env \<Rightarrow> int \<Rightarrow> effect \<Rightarrow> bool" where
  "runs_in E pid (Exec i cmd ok) = opened E pid i"

definition confined :: "'w env \<Rightarrow> int \<Rightarrow> effect list \<Rightarrow> ('w, 'z) kernel_scheme \<Rightarrow> bool" where
  "confined E pid old s \<longleftrightarrow> (\<exists>new. trace s = old @ new \<and> (\<forall>e \<in> set new. runs_in E pid e))"

lemma confined_start: "confined E pid (trace s) s"
  by (simp add: confined_def)

lemma confined_extend:
  "confined E pid old s \<Longrightarrow> trace s' = trace s @ new \<Longrightarrow> \<forall>e \<in> set new. runs_in E pid e \<Longrightarrow> confined E pid old s'"
  by (force simp: confined_def)

lemma maintains_confined: "keeps trace m \<Longrightarrow> maintains (confined E pid old) m"
  by (rule maintains_keeps [where f = trace]) (simp_all add: confined_def)

lemma exec_log_runs_in:
  assumes "x \<noteq> None \<and> new = [] \<or> (\<exists>i w0. fst (os_Open E tbl (netns_path pid) w0) = Inr i \<and> exec_log i cmds x new)"
    and "e \<in> set new"
  shows "runs_in E pid e"
proof -
  from assms obtain i w0 where "fst (os_Open E tbl (netns_path pid) w0) = Inr i" "exec_log i cmds x new" by auto
  then have "opened E pid i" unfolding opened_def by blast
  with exec_log_in_namespace [OF \<open>exec_log i cmds x new\<close> assms(2)] show ?thesis by auto
qed

text \<open>The one call that runs commands.\<close>

lemma maintains_confined_exec:
  assumes "\<forall>c \<in> set cmds. c \<noteq> []"
  shows "maintains (confined E pid old) (WithNetNSPath E tid (netns_path pid) (exec_cmds E cmds))"
  unfolding maintains_def
proof (intro allI impI)
  fix s
  assume old: "confined E pid old s"
  obtain x w tbl new where W: "WithNetNSPath E tid (netns_path pid) (exec_cmds E cmds) s =
      (Returns x, s\<lparr>world := w, thread_ns := tbl, trace := trace s @ new\<rparr>)"
    and n: "x \<noteq> None \<and> new = [] \<or>
       (\<exists>i w0. fst (os_Open E (thread_ns s) (netns_path pid) w0) = Inr i \<and> exec_log i cmds x new)"
    using WithNetNSPath_exec [OF assms, where E = E and tid = tid and p = "netns_path pid" and s = s]
    by (elim exE conjE)
  from old show "confined E pid old (snd (WithNetNSPath E tid (netns_path pid) (exec_cmds E cmds) s))"
    by (rule confined_extend) (use W exec_log_runs_in [OF n] in auto)
qed

lemma handlers_confined:
  "maintains (confined E pid old) (ApplyLatency E tid pid l)"
  "maintains (confined E pid old) (ApplyPacketLoss E tid pid l)"
  "maintains (confined E pid old) (ClearTrafficControlSettings E tid pid)"
proof -
  have exec: "maintains (confined E pid old) (WithNetNSPath E tid (netns_path pid) (exec_cmds E [replace_cmd, change_cmd @ rules]))"
    "maintains (confined E pid old) (WithNetNSPath E tid (netns_path pid) (exec_cmds E [replace_cmd]))" for rules
    by (rule maintains_confined_exec; use cmds_not_Nil in auto)+
  have kept: "keeps trace (getPacketLoss E pid)" "keeps trace (random E a b)" "keeps trace (cache_update k u v)"
    "keeps trace (getNSID E p)" "keeps trace (go_modify (\<lambda>s. s\<lparr>trafficControlStatusCache := gomap_delete k (trafficControlStatusCache s)\<rparr>))"
    for a b k u v p
    by (intro go_keeps; simp)+
  have apply_rules: "maintains (confined E pid old) (applyTrafficControlRules E tid pid rules)" for rules
    unfolding applyTrafficControlRules_def Let_def
    by (intro go_maintains exec maintains_confined kept)
  show "maintains (confined E pid old) (ApplyLatency E tid pid l)"
    unfolding ApplyLatency_def Let_def by (intro go_maintains apply_rules maintains_confined kept)
  show "maintains (confined E pid old) (ApplyPacketLoss E tid pid l)"
    unfolding ApplyPacketLoss_def Let_def by (intro go_maintains apply_rules maintains_confined kept)
  show "maintains (confined E pid old) (ClearTrafficControlSettings E tid pid)"
    unfolding ClearTrafficControlSettings_def Let_def by (intro go_maintains exec maintains_confined kept)
qed

section \<open>Every step\<close>

fun process :: "'w plugin \<Rightarrow> 'w Process" where
  "process (Up pc s) = s"
| "process (Down n s) = s"

lemma snd_recovered [simp]: "snd (recovered m s) = snd (m s)"
  by (simp add: recovered_def split: prod.split outcome.split)

lemma target_confined:
  assumes "target E tid req s = Some h"
  shows "\<exists>k c. NodeID req = containerIDToNodeID k \<and> containers s k = Some c \<and> confined E (PID c) (trace s) (snd (h s))"
proof -
  obtain k c where "NodeID req = containerIDToNodeID k" "containers s k = Some c"
    and h: "map_of (control_table E tid (PID c)) (Control req) = Some h"
    using target_table [OF assms] by blast
  moreover have "maintains (confined E (PID c) (trace s)) h"
    using h handlers_confined [of E "PID c" "trace s" tid] by (auto simp: control_table_def split: if_splits)
  then have "confined E (PID c) (trace s) (snd (h s))"
    using confined_start [of E "PID c" s] by (simp add: maintains_def)
  ultimately show ?thesis by blast
qed

lemma serve_confined:
  assumes "\<not> lock s"
  shows "trace (snd (serve E tid ids hr s)) = trace s \<or>
    (\<exists>body req k c. hr = HttpRequest ''/control'' body \<and> decode_request body = Inr req
       \<and> NodeID req = containerIDToNodeID k \<and> containers s k = Some c
       \<and> confined E (PID c) (trace s) (snd (serve E tid ids hr s)))"
proof -
  obtain path body where hr: "hr = HttpRequest path body" by (cases hr)
  have report: "keeps trace (Plugin_report E tid ids)" by (rule keeps_Plugin_report) simp_all
  show ?thesis
  proof (cases "path = ''/control''")
    case True
    show ?thesis
    proof (cases rule: Plugin_control_cases [OF assms, of body E tid])
      case (3 req h)
      have "snd (go_bind h (\<lambda>e. go_return (handler_answer E e)) s) = snd (h s)"
        by (cases "h s"; cases "fst (h s)") (simp_all add: go_run)
      with target_confined [OF 3(2)] 3 True show ?thesis by (auto simp: hr)
    qed (simp_all add: hr True)
  qed (simp add: hr keeps_snd [OF report] go_run)
qed

text \<open>
  C2: where commands run. A step of the running plugin that executes any command is a control
  request whose node ID is that of a container in the store, and each command it executes runs in
  a network namespace that was opened through the file \<open>/proc/<pid>/ns/net\<close> of that container's
  process. Reports, Docker events, synchronisation, signals and refused requests execute nothing.
\<close>

theorem commands_confined:
  assumes "reachable E (Up pc s)" and "step E (Up pc s) p"
  shows "trace (process p) = trace s \<or>
    (\<exists>tid ids body r req k c new. serve E tid ids (HttpRequest ''/control'' body) s = (r, process p)
       \<and> decode_request body = Inr req \<and> NodeID req = containerIDToNodeID k \<and> containers s k = Some c
       \<and> trace (process p) = trace s @ new \<and> (\<forall>e \<in> set new. runs_in E (PID c) e))"
proof -
  have free: "\<not> lock s" using reachable_Up [OF assms(1)] by (rule plugin_inv_free)
  have k: "keeps trace (Start_step E pc)" by (rule keeps_Start_step) simp_all
  have served: ?thesis if "serve E tid ids hr s = (r, process p)" for tid ids hr r
    using serve_confined [OF free, of E tid ids hr] that unfolding confined_def by fastforce
  from assms(2) show ?thesis
  proof (cases rule: step.cases)
    case (request ids tid req r s')
    then show ?thesis by (intro served [of tid ids req "Returns r"]) simp
  next
    case (request_exit ids tid req n s')
    then show ?thesis by (intro served [of tid ids req "Exits n"]) simp
  qed (use keeps_snd [OF k, of s] in \<open>auto simp: on_signal_def go_run\<close>)
qed

theorem commands_confined_witness:
  "\<exists>s'. step demo_E (Up Listen demo_synced) (Up Listen s')
     \<and> trace s' = [Exec 7 replace_cmd True] \<and> opened demo_E 42 7"
proof -
  let ?h = "HttpRequest ''/control'' (demo_body ''network-control-table-clear'')"
  let ?s = "snd (serve demo_E 1 [''c1''] ?h demo_synced)"
  have free: "\<not> lock demo_synced" by (simp add: demo_synced_def)
  have run: "(\<exists>r. serve demo_E 1 [''c1''] ?h demo_synced = (Returns r, ?s)) \<and> trace ?s = [Exec 7 replace_cmd True]"
  proof (cases rule: Plugin_control_cases [OF free, of "demo_body ''network-control-table-clear''" demo_E 1])
    case (3 req h)
    have "h = ClearTrafficControlSettings demo_E 1 42"
      using 3(1,2) by (auto simp: demo_decode demo_target control_table_def networkControlTablePrefix_def)
    with 3(3) show ?thesis
      by (simp add: recovered_def ClearTrafficControlSettings_def demo_synced_def demo_process_def demo_run)
  qed (auto simp: demo_decode demo_target control_table_def networkControlTablePrefix_def)
  then obtain r where "serve demo_E 1 [''c1''] ?h demo_synced = (Returns r, ?s)" by blast
  moreover have "range_order [''c1''] (containers demo_synced)" by (simp add: range_order_def demo_synced_def)
  ultimately have st: "step demo_E (Up Listen demo_synced) (Up Listen ?s)" by (blast intro: step.request)
  have "trace demo_synced = []" by (simp add: demo_synced_def demo_process_def)
  with commands_confined [OF demo_reachable st] run
  obtain k c where "containers demo_synced k = Some c" "runs_in demo_E (PID c) (Exec 7 replace_cmd True)"
    by auto
  then have "opened demo_E 42 7" by (auto simp: demo_synced_def split: if_splits)
  with st run show ?thesis by blast
qed

end
