(* ===== verification/NetNS_Concurrent.thy ===== *)
theory NetNS_Concurrent
  imports Confinement
begin

text \<open>
  Control requests that overlap. Each runs \<open>tc\<close> inside \<open>ns.WithNetNSPath\<close>, which switches an OS
  thread to the namespace of a container and back. Here a call of it is cut into its calls to the
  kernel, and any number of them are interleaved, with changes of the world and with the creation of
  OS threads by the Go runtime.

  A goroutine runs on a thread that no other goroutine has locked with \<open>runtime.LockOSThread\<close>; a
  thread is unlocked when the goroutine that locked it ends. A new thread is in the namespace of the
  thread that created it. From Go 1.10 on, threads are not created by locked threads; before, they are
  (\<open>old\<close>), and the Makefile builds the plugin with Go 1.6.

  The cut call has the result and the effect of \<open>WithNetNSPath\<close> when nothing comes in between.
\<close>

section \<open>A call in small steps\<close>

datatype ns_call =
    Open_target string "string list list"
  | Open_host netNS "string list list"
  | Start_goroutine netNS netNS "string list list"
  | Open_thread nat netNS netNS "string list list"
  | Switch nat netNS netNS netNS "string list list"
  | Run nat netNS netNS netNS "string list list"
  | Switch_back nat netNS netNS netNS "error option"
  | Close_thread nat netNS netNS netNS "error option"
  | Close_host netNS netNS "error option"
  | Close_target netNS "error option"
  | Finished "error option"

text \<open>\<open>t\<close> is the thread of the calling goroutine.\<close>

fun turn :: "'w env \<Rightarrow> nat \<Rightarrow> ns_call \<Rightarrow> (('w, 'z) kernel_scheme, ns_call) go" where
  "turn E t (Open_target p cmds) = go_bind (GetNS E p) (\<lambda>r. go_return (case r of
      Inl err \<Rightarrow> Finished (Some err)
    | Inr n \<Rightarrow> Open_host n cmds))"
| "turn E t (Open_host n cmds) = (case errorIfClosed n of
      Some err \<Rightarrow> go_return (Close_target n (Some err))
    | None \<Rightarrow> go_bind (GetNS E (getCurrentThreadNetNSPath E t)) (\<lambda>r. go_return (case r of
          Inl err \<Rightarrow> Close_target n (Some (Errorf ''Failed to open current namespace: %v'' [ArgE err]))
        | Inr h \<Rightarrow> Start_goroutine n h cmds)))"
| "turn E t (Start_goroutine n h cmds) = go_bind (call (go_thread E)) (\<lambda>t'. go_return (Open_thread t' n h cmds))"
| "turn E t (Open_thread t' n h cmds) =
     go_bind (GetNS E (getCurrentThreadNetNSPath E t')) (\<lambda>r. go_return (case r of
        Inl err \<Rightarrow> Close_host n h (Some (Errorf ''failed to open current netns: %v'' [ArgE err]))
      | Inr th \<Rightarrow> Switch t' n h th cmds))"
| "turn E t (Switch t' n h th cmds) = go_bind (Set E t' n) (\<lambda>e. go_return (case e of
      Some err \<Rightarrow> Close_thread t' n h th (Some (Errorf ''error switching to ns %v: %v'' [ArgS (ns_name n), ArgE err]))
    | None \<Rightarrow> Run t' n h th cmds))"
| "turn E t (Run t' n h th []) = go_return (Switch_back t' n h th None)"
| "turn E t (Run t' n h th (cmd # cmds)) = go_bind (exec_cmd E t' cmd) (\<lambda>e. go_return (case e of
      Some err \<Rightarrow> Switch_back t' n h th (Some (Errorf ''failed to execute command: %v'' [ArgE err]))
    | None \<Rightarrow> Run t' n h th cmds))"
| "turn E t (Switch_back t' n h th r) = go_bind (Set E t' th) (\<lambda>_. go_return (Close_thread t' n h th r))"
| "turn E t (Close_thread t' n h th r) = go_bind (Close E th) (\<lambda>_. go_return (Close_host n h r))"
| "turn E t (Close_host n h r) = go_bind (Close E h) (\<lambda>_. go_return (Close_target n r))"
| "turn E t (Close_target n r) = go_bind (Close E n) (\<lambda>_. go_return (Finished r))"
| "turn E t (Finished r) = go_return (Finished r)"

primrec turns :: "'w env \<Rightarrow> nat \<Rightarrow> nat \<Rightarrow> ns_call \<Rightarrow> (('w, 'z) kernel_scheme, ns_call) go" where
  "turns E t 0 c = go_return c"
| "turns E t (Suc k) c = go_bind (turn E t c) (turns E t k)"

text \<open>The steps that are left of a call, at most.\<close>

fun steps_left :: "ns_call \<Rightarrow> nat" where
  "steps_left (Open_target p cmds) = 10 + length cmds"
| "steps_left (Open_host n cmds) = 9 + length cmds"
| "steps_left (Start_goroutine n h cmds) = 8 + length cmds"
| "steps_left (Open_thread t n h cmds) = 7 + length cmds"
| "steps_left (Switch t n h th cmds) = 6 + length cmds"
| "steps_left (Run t n h th cmds) = 5 + length cmds"
| "steps_left (Switch_back t n h th r) = 4"
| "steps_left (Close_thread t n h th r) = 3"
| "steps_left (Close_host n h r) = 2"
| "steps_left (Close_target n r) = 1"
| "steps_left (Finished r) = 0"

fun commands_left :: "ns_call \<Rightarrow> string list list" where
  "commands_left (Open_target p cmds) = cmds"
| "commands_left (Open_host n cmds) = cmds"
| "commands_left (Start_goroutine n h cmds) = cmds"
| "commands_left (Open_thread t n h cmds) = cmds"
| "commands_left (Switch t n h th cmds) = cmds"
| "commands_left (Run t n h th cmds) = cmds"
| "commands_left _ = []"

section \<open>A call that is not interrupted\<close>

definition returns_always :: "('s, 'a) go \<Rightarrow> bool" where
  "returns_always m \<longleftrightarrow> (\<forall>s. \<exists>x s'. m s = (Returns x, s'))"

lemma returns_bind: "returns_always m \<Longrightarrow> (\<And>x. returns_always (f x)) \<Longrightarrow> returns_always (go_bind m f)"
  unfolding returns_always_def by (metis go_bind_simps(1))

lemma returns_prim:
  "returns_always (go_return x)" "returns_always (call c)" "returns_always (go_gets f)" "returns_always (go_modify g)"
  "returns_always (log_effect e)"
  by (simp_all add: returns_always_def go_run log_effect_def)

lemma returns_seq: "returns_always m \<Longrightarrow> returns_always n \<Longrightarrow> returns_always (go_seq m n)"
  unfolding go_seq_def by (rule returns_bind)

lemma returns_option:
  "returns_always m \<Longrightarrow> (\<And>x. returns_always (g x)) \<Longrightarrow> returns_always (case v of None \<Rightarrow> m | Some x \<Rightarrow> g x)"
  by (cases v) auto

lemma returns_if: "returns_always m \<Longrightarrow> returns_always n \<Longrightarrow> returns_always (if b then m else n)"
  by simp

lemma returns_sum:
  "(\<And>x. returns_always (f x)) \<Longrightarrow> (\<And>x. returns_always (g x)) \<Longrightarrow> returns_always (case v of Inl x \<Rightarrow> f x | Inr x \<Rightarrow> g x)"
  by (cases v) auto

lemma returns_defer: "returns_always d \<Longrightarrow> returns_always m \<Longrightarrow> returns_always (go_defer d m)"
  unfolding returns_always_def
proof
  fix s
  assume d: "\<forall>s. \<exists>x s'. d s = (Returns x, s')" and m: "\<forall>s. \<exists>x s'. m s = (Returns x, s')"
  from m obtain x s1 where m: "m s = (Returns x, s1)" by blast
  from d obtain y s2 where "d s1 = (Returns y, s2)" by blast
  with m have "go_defer d m s = (Returns x, s2)" by (simp add: go_defer_simps go_seq_simps go_prim_simps)
  then show "\<exists>x s'. go_defer d m s = (Returns x, s')" by blast
qed

lemmas returns_rules = returns_bind returns_prim returns_seq returns_option returns_if returns_sum returns_defer

lemma returns_netns: "returns_always (GetNS E p)" "returns_always (Close E n)" "returns_always (Set E t n)"
  unfolding GetNS_def IsNSorErr_def Close_def Set_def by (intro returns_rules)+

lemma returns_exec_cmd: "cmd \<noteq> [] \<Longrightarrow> returns_always (exec_cmd E t cmd)"
  unfolding exec_cmd_def by (simp add: returns_rules)

lemma returns_exec_cmds: "[] \<notin> set cmds \<Longrightarrow> returns_always (exec_cmds E cmds t)"
  by (induction cmds) (auto intro!: returns_rules returns_exec_cmd)

lemma defer_returns: "returns_always m \<Longrightarrow> go_defer d m = go_bind m (\<lambda>x. go_bind d (\<lambda>_. go_return x))"
proof
  fix s
  assume "returns_always m"
  then obtain x s' where "m s = (Returns x, s')" unfolding returns_always_def by blast
  then show "go_defer d m s = go_bind m (\<lambda>x. go_bind d (\<lambda>_. go_return x)) s"
    by (simp add: go_defer_simps go_bind_simps go_seq_def)
qed

lemma wait_returns: "returns_always m \<Longrightarrow> go_wait m = m"
proof
  fix s
  assume "returns_always m"
  then obtain x s' where "m s = (Returns x, s')" unfolding returns_always_def by blast
  then show "go_wait m s = m s" by (simp add: go_wait_simps)
qed

lemma bind_return: "go_bind (go_return x) f = f x"
  by (rule ext) (simp add: go_run)

lemma bind_cong: "(\<And>x. f x = g x) \<Longrightarrow> go_bind m f = go_bind m g"
  by (rule arg_cong [where f = "go_bind m"]) (rule ext)

lemma bind_cases:
  "go_bind (case v of None \<Rightarrow> m | Some e \<Rightarrow> n e) f = (case v of None \<Rightarrow> go_bind m f | Some e \<Rightarrow> go_bind (n e) f)"
  "go_bind (case w of Inl x \<Rightarrow> a x | Inr y \<Rightarrow> b y) g = (case w of Inl x \<Rightarrow> go_bind (a x) g | Inr y \<Rightarrow> go_bind (b y) g)"
  by (simp_all split: option.split sum.split)

lemma turns_Finished [simp]: "turns E t k (Finished r) = go_return (Finished r)"
  by (induction k) (simp_all add: bind_return)

lemma turns_close:
  "1 \<le> k \<Longrightarrow> turns E t k (Close_target n r) = go_bind (Close E n) (\<lambda>_. go_return (Finished r))"
  "2 \<le> k \<Longrightarrow> turns E t k (Close_host n h r) = go_bind (Close E h) (\<lambda>_. go_bind (Close E n) (\<lambda>_. go_return (Finished r)))"
  "3 \<le> k \<Longrightarrow> turns E t k (Close_thread t' n h th r) = go_bind (Close E th) (\<lambda>_.
     go_bind (Close E h) (\<lambda>_. go_bind (Close E n) (\<lambda>_. go_return (Finished r))))"
  "4 \<le> k \<Longrightarrow> turns E t k (Switch_back t' n h th r) = go_bind (Set E t' th) (\<lambda>_. go_bind (Close E th) (\<lambda>_.
     go_bind (Close E h) (\<lambda>_. go_bind (Close E n) (\<lambda>_. go_return (Finished r)))))"
proof -
  show 1: "1 \<le> k \<Longrightarrow> turns E t k (Close_target n r) = go_bind (Close E n) (\<lambda>_. go_return (Finished r))" for k
    by (cases k) (simp_all add: go_bind_assoc bind_return)
  show 2: "2 \<le> k \<Longrightarrow> turns E t k (Close_host n h r) = go_bind (Close E h) (\<lambda>_. go_bind (Close E n) (\<lambda>_. go_return (Finished r)))" for k
    by (cases k) (simp_all add: go_bind_assoc bind_return 1)
  show 3: "3 \<le> k \<Longrightarrow> turns E t k (Close_thread t' n h th r) = go_bind (Close E th) (\<lambda>_.
     go_bind (Close E h) (\<lambda>_. go_bind (Close E n) (\<lambda>_. go_return (Finished r))))" for k
    by (cases k) (simp_all add: go_bind_assoc bind_return 2)
  show "4 \<le> k \<Longrightarrow> turns E t k (Switch_back t' n h th r) = go_bind (Set E t' th) (\<lambda>_. go_bind (Close E th) (\<lambda>_.
     go_bind (Close E h) (\<lambda>_. go_bind (Close E n) (\<lambda>_. go_return (Finished r)))))"
    by (cases k) (simp_all add: go_bind_assoc bind_return 3)
qed

lemma turns_Run:
  "5 + length cmds \<le> k \<Longrightarrow> turns E t k (Run t' n h th cmds) =
     go_bind (exec_cmds E cmds t') (\<lambda>r. turns E t 4 (Switch_back t' n h th r))"
proof (induction cmds arbitrary: k)
  case Nil
  then show ?case by (cases k) (simp_all add: bind_return turns_close)
next
  case (Cons cmd cmds)
  then obtain k' where k: "k = Suc k'" "5 + length cmds \<le> k'" by (cases k) simp_all
  from k(2) show ?case unfolding k(1)
    by (auto simp: Cons.IH go_bind_assoc bind_return turns_close intro!: bind_cong split: option.split)
qed

lemma turns_Switch:
  "6 + length cmds \<le> k \<Longrightarrow> turns E t k (Switch t' n h th cmds) = go_bind (Set E t' n) (\<lambda>e. case e of
      Some err \<Rightarrow> turns E t 3 (Close_thread t' n h th (Some (Errorf ''error switching to ns %v: %v'' [ArgS (ns_name n), ArgE err])))
    | None \<Rightarrow> go_bind (exec_cmds E cmds t') (\<lambda>r. turns E t 4 (Switch_back t' n h th r)))"
  by (cases k) (auto simp: go_bind_assoc bind_return turns_Run turns_close intro!: bind_cong split: option.split)

lemma returns_closure:
  assumes "[] \<notin> set cmds"
  shows "returns_always (containedCall E t n (exec_cmds E cmds))" "returns_always (Do E t n (exec_cmds E cmds))"
proof -
  show c: "returns_always (containedCall E t n (exec_cmds E cmds))" for t
    unfolding containedCall_def by (intro returns_rules returns_netns returns_exec_cmds assms)
  show "returns_always (Do E t n (exec_cmds E cmds))"
    unfolding Do_def wait_returns [OF c] by (intro returns_rules returns_netns c)
qed

lemma turns_Open_thread:
  assumes "[] \<notin> set cmds" and "7 + length cmds \<le> k"
  shows "turns E t k (Open_thread t' n h cmds) =
    go_bind (containedCall E t' n (exec_cmds E cmds)) (\<lambda>r. turns E t 2 (Close_host n h r))"
proof -
  note d = defer_returns [OF returns_exec_cmds [OF assms(1)]]
  have r: "returns_always (go_bind (Set E t' n) (\<lambda>e. case e of
      Some err \<Rightarrow> go_return (Some (Errorf ''error switching to ns %v: %v'' [ArgS (ns_name n), ArgE err]))
    | None \<Rightarrow> go_bind (exec_cmds E cmds t') (\<lambda>x. go_bind (Set E t' th) (\<lambda>_. go_return x))))" for th
    by (intro returns_rules returns_netns returns_exec_cmds assms)
  obtain k' where "k = Suc k'" "6 + length cmds \<le> k'" using assms(2) by (cases k) simp_all
  then show ?thesis
    by (auto simp: containedCall_def defer_returns [OF r] d go_bind_assoc bind_return turns_Switch turns_close
        intro!: bind_cong split: option.split sum.split)
qed

lemma turns_Open_host:
  assumes "[] \<notin> set cmds" and "9 + length cmds \<le> k"
  shows "turns E t k (Open_host n cmds) = go_bind (Do E t n (exec_cmds E cmds)) (\<lambda>r. turns E t 1 (Close_target n r))"
proof -
  note c = returns_closure(1) [OF assms(1)]
  have r: "returns_always (go_bind (call (go_thread E)) (\<lambda>t'. containedCall E t' n (exec_cmds E cmds)))"
    by (intro returns_rules c)
  obtain k' where "k = Suc (Suc k')" "7 + length cmds \<le> k'" using assms(2) by (cases k; cases "k - 1") simp_all
  then show ?thesis
    by (auto simp: Do_def wait_returns [OF c] defer_returns [OF r] turns_Open_thread [OF assms(1)] go_bind_assoc bind_return
        turns_close intro!: bind_cong split: option.split sum.split)
qed

text \<open>Without interruption the steps of a call are \<open>WithNetNSPath\<close>.\<close>

lemma turns_WithNetNSPath:
  assumes "[] \<notin> set cmds"
  shows "turns E t (10 + length cmds) (Open_target p cmds) =
    go_bind (WithNetNSPath E t p (exec_cmds E cmds)) (\<lambda>r. go_return (Finished r))"
proof -
  obtain k where k: "10 + length cmds = Suc k" "9 + length cmds \<le> k" by simp
  from k(2) show ?thesis unfolding k(1)
    by (auto simp: WithNetNSPath_def defer_returns [OF returns_closure(2) [OF assms]] turns_Open_host [OF assms]
        go_bind_assoc bind_return turns_close intro!: bind_cong split: sum.split)
qed

section \<open>Calls that overlap\<close>

text \<open>The thread a call has locked, the thread and the namespace it is switched to, and the namespace
  it was made for.\<close>

fun owns :: "ns_call \<Rightarrow> nat option" where
  "owns (Open_thread t n h cmds) = Some t"
| "owns (Switch t n h th cmds) = Some t"
| "owns (Run t n h th cmds) = Some t"
| "owns (Switch_back t n h th r) = Some t"
| "owns (Close_thread t n h th r) = Some t"
| "owns _ = None"

fun inside :: "ns_call \<Rightarrow> (nat \<times> nat) option" where
  "inside (Run t n h th cmds) = Some (t, ns_ino n)"
| "inside (Switch_back t n h th r) = Some (t, ns_ino n)"
| "inside _ = None"

fun target_of :: "ns_call \<Rightarrow> netNS option" where
  "target_of (Open_host n cmds) = Some n"
| "target_of (Start_goroutine n h cmds) = Some n"
| "target_of (Open_thread t n h cmds) = Some n"
| "target_of (Switch t n h th cmds) = Some n"
| "target_of (Run t n h th cmds) = Some n"
| "target_of _ = None"

fun thread_file :: "ns_call \<Rightarrow> netNS option" where
  "thread_file (Switch t n h th cmds) = Some th"
| "thread_file (Run t n h th cmds) = Some th"
| "thread_file (Switch_back t n h th r) = Some th"
| "thread_file _ = None"

record 'w ns_system = "'w kernel" +
  ns_calls :: "nat \<Rightarrow> ns_call"

text \<open>Goroutine \<open>g\<close> may run on thread \<open>t\<close>.\<close>

definition available :: "'w ns_system \<Rightarrow> nat \<Rightarrow> nat \<Rightarrow> bool" where
  "available S g t \<longleftrightarrow> (\<forall>g'. g' \<noteq> g \<longrightarrow> owns (ns_calls S g') \<noteq> Some t)"

inductive ns_step :: "'w env \<Rightarrow> bool \<Rightarrow> 'w ns_system \<Rightarrow> 'w ns_system \<Rightarrow> bool" for E :: "'w env" and old :: bool where
  begin_call: "ns_calls S g = Finished r \<Longrightarrow> [] \<notin> set cmds \<Longrightarrow>
    ns_step E old S (S\<lparr>ns_calls := (ns_calls S)(g := Open_target p cmds)\<rparr>)"
| take_turn: "available S g t \<Longrightarrow> turn E t (ns_calls S g) S = (Returns c, S') \<Longrightarrow>
    (\<And>t'. owns c = Some t' \<Longrightarrow> available S g t') \<Longrightarrow>
    ns_step E old S (S'\<lparr>ns_calls := (ns_calls S)(g := c)\<rparr>)"
| new_thread: "(\<And>g. owns (ns_calls S g) \<noteq> Some t) \<Longrightarrow> old \<or> (\<forall>g. owns (ns_calls S g) \<noteq> Some p) \<Longrightarrow>
    ns_step E old S (S\<lparr>thread_ns := (thread_ns S)(t := thread_ns S p)\<rparr>)"
| outside: "ns_step E old S (S\<lparr>world := w\<rparr>)"

text \<open>What a turn does to the threads and to the log of commands.\<close>

lemma GetNS_Returns:
  assumes "GetNS E p S = (Returns r, S')"
  shows "\<exists>w. S' = S\<lparr>world := w\<rparr> \<and> (\<forall>n. r = Inr n \<longrightarrow> ns_name n = p \<and> \<not> ns_closed n
    \<and> (\<exists>w. fst (os_Open E (thread_ns S) p w) = Inr (ns_ino n)))"
  using assms by (cases rule: GetNS_cases [of E p S]) auto

lemma Set_Returns:
  assumes "Set E t n S = (Returns e, S')"
  shows "\<exists>w. S' = S\<lparr>world := w, thread_ns := (if e = None then (thread_ns S)(t := ns_ino n) else thread_ns S)\<rparr>
    \<and> (e \<noteq> None \<longrightarrow> ns_closed n \<or> (\<exists>w. fst (sys_setns E (ns_ino n) w) \<noteq> None))"
proof (cases "ns_closed n")
  case True
  with assms show ?thesis by (intro exI [of _ "world S"]) (auto simp: Set_def errorIfClosed_def go_run)
next
  case False
  with assms show ?thesis by (cases rule: Set_cases [OF False, of E t S]) auto
qed

lemma Close_Returns: "Close E n S = (Returns r, S') \<Longrightarrow> \<exists>w. S' = S\<lparr>world := w\<rparr>"
  by (cases rule: Close_cases [of E n S]) auto

lemma exec_Returns:
  assumes "exec_cmd E t cmd S = (Returns e, S')"
  shows "\<exists>w ok. S' = S\<lparr>world := w, trace := trace S @ [Exec (thread_ns S t) cmd ok]\<rparr>"
  using assms by (cases "exec_Command E (thread_ns S t) cmd (world S)")
    (auto simp: exec_cmd_def go_run log_effect_def split: if_splits)

inductive turn_effect :: "'w env \<Rightarrow> ns_call \<Rightarrow> ('w, 'z) kernel_scheme \<Rightarrow> ns_call \<Rightarrow> ('w, 'z) kernel_scheme \<Rightarrow> bool"
  for E :: "'w env" where
  other: "inside c' = None \<Longrightarrow> inside c = None \<Longrightarrow> owns c' = None \<or> owns c = None \<or> owns c' = owns c \<Longrightarrow>
    S' = S\<lparr>world := w\<rparr> \<Longrightarrow>
    (\<And>n. target_of c' = Some n \<Longrightarrow> target_of c = Some n \<or>
      (\<exists>tbl w. fst (os_Open E tbl (ns_name n) w) = Inr (ns_ino n))) \<Longrightarrow>
    (\<And>th. thread_file c' = Some th \<Longrightarrow> \<not> ns_closed th \<and> (\<exists>t w. owns c = Some t \<and>
       fst (os_Open E (thread_ns S) (getCurrentThreadNetNSPath E t) w) = Inr (ns_ino th))) \<Longrightarrow>
    turn_effect E c S c' S'"
| switched: "c = Switch t n h th cmds \<Longrightarrow> c' = Run t n h th cmds \<Longrightarrow>
    S' = S\<lparr>world := w, thread_ns := (thread_ns S)(t := ns_ino n)\<rparr> \<Longrightarrow> turn_effect E c S c' S'"
| ran: "c = Run t n h th (cmd # cmds) \<Longrightarrow> c' = Run t n h th cmds \<or> (\<exists>r. c' = Switch_back t n h th r) \<Longrightarrow>
    S' = S\<lparr>world := w, trace := trace S @ [Exec (thread_ns S t) cmd ok]\<rparr> \<Longrightarrow> turn_effect E c S c' S'"
| run_done: "c = Run t n h th [] \<Longrightarrow> c' = Switch_back t n h th None \<Longrightarrow> turn_effect E c S c' S"
| switched_back: "c = Switch_back t n h th r \<Longrightarrow> c' = Close_thread t n h th r \<Longrightarrow>
    S' = S\<lparr>world := w, thread_ns := tbl\<rparr> \<Longrightarrow>
    tbl = (thread_ns S)(t := ns_ino th) \<or>
      tbl = thread_ns S \<and> (ns_closed th \<or> (\<exists>w. fst (sys_setns E (ns_ino th) w) \<noteq> None)) \<Longrightarrow>
    turn_effect E c S c' S'"

lemma turn_effect:
  assumes "turn E t c S = (Returns c', S')"
  shows "turn_effect E c S c' S'"
proof (cases c)
  case (Open_target p cmds)
  with assms obtain r where "GetNS E p S = (Returns r, S')" and c': "c' = (case r of Inl err \<Rightarrow> Finished (Some err) | Inr n \<Rightarrow> Open_host n cmds)"
    by (auto elim!: go_bind_ReturnsE simp: go_prim_simps)
  with GetNS_Returns [of E p S r S'] Open_target show ?thesis
    by (cases r) (auto intro!: turn_effect.other)
next
  case (Open_host n cmds)
  show ?thesis
  proof (cases "ns_closed n")
    case True
    with assms Open_host show ?thesis
      by (intro turn_effect.other [where w = "world S"]) (auto simp: errorIfClosed_def go_prim_simps)
  next
    case False
    with assms Open_host obtain r where r: "GetNS E (getCurrentThreadNetNSPath E t) S = (Returns r, S')"
      and "c' = (case r of Inl err \<Rightarrow> Close_target n (Some (Errorf ''Failed to open current namespace: %v'' [ArgE err]))
        | Inr h \<Rightarrow> Start_goroutine n h cmds)"
      by (auto simp: errorIfClosed_def go_prim_simps elim!: go_bind_ReturnsE)
    with GetNS_Returns [OF r] Open_host show ?thesis by (cases r) (auto intro!: turn_effect.other)
  qed
next
  case (Start_goroutine n h cmds)
  with assms show ?thesis
    by (intro turn_effect.other [where w = "snd (go_thread E (world S))"]) (auto simp: go_run)
next
  case (Open_thread u n h cmds)
  with assms obtain r where r: "GetNS E (getCurrentThreadNetNSPath E u) S = (Returns r, S')"
    and "c' = (case r of Inl err \<Rightarrow> Close_host n h (Some (Errorf ''failed to open current netns: %v'' [ArgE err]))
        | Inr th \<Rightarrow> Switch u n h th cmds)"
    by (auto simp: go_prim_simps elim!: go_bind_ReturnsE)
  with GetNS_Returns [OF r] Open_thread show ?thesis
    by (cases r) (auto intro!: turn_effect.other)
next
  case (Switch u n h th cmds)
  with assms obtain e where e: "Set E u n S = (Returns e, S')"
    and c': "c' = (case e of Some err \<Rightarrow> Close_thread u n h th (Some (Errorf ''error switching to ns %v: %v'' [ArgS (ns_name n), ArgE err]))
        | None \<Rightarrow> Run u n h th cmds)"
    by (auto simp: go_prim_simps elim!: go_bind_ReturnsE)
  from Set_Returns [OF e] Switch c' show ?thesis
    by (cases e) (auto intro: turn_effect.other turn_effect.switched)
next
  case (Run u n h th cmds)
  show ?thesis
  proof (cases cmds)
    case Nil
    with assms Run show ?thesis by (auto simp: go_prim_simps intro: turn_effect.run_done)
  next
    case (Cons cmd rest)
    with assms Run obtain e where e: "exec_cmd E u cmd S = (Returns e, S')"
      and c': "c' = (case e of Some err \<Rightarrow> Switch_back u n h th (Some (Errorf ''failed to execute command: %v'' [ArgE err]))
        | None \<Rightarrow> Run u n h th rest)"
      by (auto simp: go_prim_simps elim!: go_bind_ReturnsE)
    from exec_Returns [OF e] c' Run Cons show ?thesis
      by (cases e) (auto intro: turn_effect.ran)
  qed
next
  case (Switch_back u n h th r)
  with assms obtain e where e: "Set E u th S = (Returns e, S')" and c': "c' = Close_thread u n h th r"
    by (auto simp: go_prim_simps elim!: go_bind_ReturnsE)
  from Set_Returns [OF e] Switch_back c' show ?thesis
    by (cases e) (auto intro!: turn_effect.switched_back)
next
  case (Finished r)
  with assms show ?thesis by (intro turn_effect.other [where w = "world S"]) (auto simp: go_prim_simps)
qed (use assms in \<open>auto simp: go_prim_simps elim!: go_bind_ReturnsE dest!: Close_Returns intro!: turn_effect.other\<close>)

section \<open>What holds whatever the order of the steps\<close>

definition idle :: "nat \<Rightarrow> 'w ns_system \<Rightarrow> bool" where
  "idle host S \<longleftrightarrow> thread_ns S = (\<lambda>_. host) \<and> (\<forall>g. \<exists>r. ns_calls S g = Finished r)"

text \<open>No thread is locked by two calls; a call that is switched is where it should be; its
  namespace was opened under its path.\<close>

definition ns_inv :: "'w env \<Rightarrow> 'w ns_system \<Rightarrow> bool" where
  "ns_inv E S \<longleftrightarrow>
     (\<forall>g g' t. owns (ns_calls S g) = Some t \<and> owns (ns_calls S g') = Some t \<longrightarrow> g = g')
     \<and> (\<forall>g t i. inside (ns_calls S g) = Some (t, i) \<longrightarrow> thread_ns S t = i)
     \<and> (\<forall>g n. target_of (ns_calls S g) = Some n \<longrightarrow> (\<exists>tbl w. fst (os_Open E tbl (ns_name n) w) = Inr (ns_ino n)))"

text \<open>With a runtime that keeps new threads out of it, a thread is in another namespace only while it is
  switched.\<close>

definition host_inv :: "nat \<Rightarrow> 'w ns_system \<Rightarrow> bool" where
  "host_inv host S \<longleftrightarrow>
     (\<forall>t. (\<forall>g i. inside (ns_calls S g) \<noteq> Some (t, i)) \<longrightarrow> thread_ns S t = host)
     \<and> (\<forall>g th. thread_file (ns_calls S g) = Some th \<longrightarrow> ns_ino th = host \<and> \<not> ns_closed th)"

lemma inside_owns: "inside c = Some (t, i) \<Longrightarrow> owns c = Some t"
  by (cases c) auto

lemma keeps_turn_calls: "keeps ns_calls (turn E t c)"
proof -
  have k: "keeps ns_calls (Set E u n)" "keeps ns_calls (exec_cmd E u cmd)" for u n cmd
    unfolding Set_def exec_cmd_def by (intro go_keeps; simp)+
  have "keeps ns_calls (turn E t (Run u n h th cmds))" for u n h th cmds
    by (cases cmds) (auto intro!: go_keeps k)
  then show ?thesis by (cases c) (auto intro!: go_keeps k simp del: turn.simps(6,7))
qed

lemma turn_owns:
  "turn_effect E c S c' S' \<Longrightarrow> owns c' = None \<or> owns c = None \<or> owns c' = owns c"
  by (induction rule: turn_effect.induct) auto

lemma turn_threads:
  "turn_effect E c S c' S' \<Longrightarrow> owns c \<noteq> Some t \<Longrightarrow> thread_ns S' t = thread_ns S t"
  by (induction rule: turn_effect.induct) auto

lemma turn_inside:
  "turn_effect E c S c' S' \<Longrightarrow> (\<forall>t i. inside c = Some (t, i) \<longrightarrow> thread_ns S t = i) \<Longrightarrow>
   inside c' = Some (t, i) \<Longrightarrow> thread_ns S' t = i"
  by (induction rule: turn_effect.induct) auto

lemma turn_target:
  "turn_effect E c S c' S' \<Longrightarrow> target_of c' = Some n \<Longrightarrow> target_of c = Some n \<or>
     (\<exists>tbl w. fst (os_Open E tbl (ns_name n) w) = Inr (ns_ino n))"
  by (induction rule: turn_effect.induct) auto

lemma ns_inv_step:
  assumes "ns_step E old S T" and "ns_inv E S"
  shows "ns_inv E T"
  using assms(1)
proof (cases rule: ns_step.cases)
  case (begin_call g r cmds p)
  with assms(2) show ?thesis by (auto simp: ns_inv_def)
next
  case (take_turn g t c S')
  note e = turn_effect [OF take_turn(3)]
  have calls: "ns_calls S' = ns_calls S" using keepsD [OF keeps_turn_calls take_turn(3)] .
  have others: "owns (ns_calls S g') \<noteq> Some u" if "owns c = Some u" "g' \<noteq> g" for g' u
    using take_turn(4) [OF that(1)] that(2) by (simp add: available_def)
  have "thread_ns S' u = i" if "g' \<noteq> g" "inside (ns_calls S g') = Some (u, i)" for g' u i
  proof -
    from inside_owns [OF that(2)] assms(2) that(1) have "owns (ns_calls S g) \<noteq> Some u" by (auto simp: ns_inv_def)
    from turn_threads [OF e this] assms(2) that(2) show ?thesis by (auto simp: ns_inv_def)
  qed
  moreover have "thread_ns S' u = i" if "inside c = Some (u, i)" for u i
    using turn_inside [OF e _ that] assms(2) by (auto simp: ns_inv_def)
  moreover have "\<exists>tbl w. fst (os_Open E tbl (ns_name n) w) = Inr (ns_ino n)" if "target_of c = Some n" for n
    using turn_target [OF e that] assms(2) by (auto simp: ns_inv_def)
  ultimately show ?thesis
    using assms(2) others unfolding take_turn(1) ns_inv_def by (simp add: calls) metis
next
  case (new_thread t p)
  have "inside (ns_calls S g) \<noteq> Some (t, i)" for g i using new_thread(2) inside_owns by blast
  with assms(2) show ?thesis unfolding new_thread(1) ns_inv_def by auto
next
  case (outside w)
  with assms(2) show ?thesis by (simp add: ns_inv_def)
qed

lemma host_inv_step:
  assumes "ns_step E False S T" and "ns_inv E S" and "host_inv host S" and "kernel_rules E (\<lambda>_. host)"
  shows "host_inv host T"
  using assms(1)
proof (cases rule: ns_step.cases)
  case (begin_call g r cmds p)
  then have "inside (ns_calls S g) = None" by simp
  with assms(3) show ?thesis unfolding begin_call(1) host_inv_def
    by (simp add: fun_upd_apply) (metis option.distinct(1))
next
  case (take_turn g t c S')
  note e = turn_effect [OF take_turn(3)]
  have calls: "ns_calls S' = ns_calls S" using keepsD [OF keeps_turn_calls take_turn(3)] .
  have away: "thread_ns S u = host" if "\<forall>g' i. g' \<noteq> g \<longrightarrow> inside (ns_calls S g') \<noteq> Some (u, i)"
      "\<forall>i. inside (ns_calls S g) \<noteq> Some (u, i)" for u
    using assms(3) that unfolding host_inv_def by metis
  have threads: "thread_ns S' u = host"
    if u: "\<forall>g' i. g' \<noteq> g \<longrightarrow> inside (ns_calls S g') \<noteq> Some (u, i)" "\<forall>i. inside c \<noteq> Some (u, i)" for u
    using e
  proof (cases rule: turn_effect.cases)
    case (switched_back v n h th r tbl w)
    have "ns_ino th = host" "\<not> ns_closed th"
      using assms(3) switched_back(1) unfolding host_inv_def by (metis thread_file.simps(3))+
    with switched_back(4) assms(4) have "tbl = (thread_ns S)(v := host)" by (auto simp: kernel_rules_def)
    with away [OF u(1)] switched_back show ?thesis by (cases "u = v") auto
  qed (use away [OF u(1)] u(2) in auto)
  have saved: "ns_ino th = host \<and> \<not> ns_closed th" if "thread_file (ns_calls S g) = Some th" for th
    using assms(3) that unfolding host_inv_def by metis
  have "ns_ino th = host \<and> \<not> ns_closed th" if "thread_file c = Some th" for th
    using e
  proof (cases rule: turn_effect.cases)
    case (other w)
    from other(6) [OF that] obtain u v where c: "\<not> ns_closed th" "owns (ns_calls S g) = Some u"
      and "fst (os_Open E (thread_ns S) (getCurrentThreadNetNSPath E u) v) = Inr (ns_ino th)" by blast
    with assms(4) have "ns_ino th = thread_ns S u" by (auto simp: kernel_rules_def)
    moreover have "inside (ns_calls S g') \<noteq> Some (u, i)" if "g' \<noteq> g" for g' i
      using assms(2) c(2) that inside_owns unfolding ns_inv_def by metis
    then have "thread_ns S u = host" using other(2) by (intro away) auto
    ultimately show ?thesis using c(1) by simp
  qed (use saved [of th] that in auto)
  with threads show ?thesis
    using assms(3) unfolding take_turn(1) host_inv_def by (simp add: calls)
next
  case (new_thread t p)
  then have "inside (ns_calls S g) \<noteq> Some (p, i)" for g i using inside_owns by blast
  with assms(3) show ?thesis unfolding new_thread(1) host_inv_def by auto
next
  case (outside w)
  with assms(3) show ?thesis by (simp add: host_inv_def)
qed

interpretation namespaces: invariant_system "idle host" "ns_step E old" "ns_inv E"
  for host :: nat and E :: "'w env" and old :: bool
proof
  fix S :: "'w ns_system"
  assume "idle host S"
  then have "\<exists>r. ns_calls S g = Finished r" for g by (simp add: idle_def)
  then have "owns (ns_calls S g) = None" "inside (ns_calls S g) = None" "target_of (ns_calls S g) = None" for g
    by (metis owns.simps(11) inside.simps(11) target_of.simps(11))+
  then show "ns_inv E S" by (simp add: ns_inv_def)
qed (rule ns_inv_step)

interpretation host_threads: invariant_system "idle host" "ns_step E False"
  "\<lambda>S. ns_inv E S \<and> (kernel_rules E (\<lambda>_. host) \<longrightarrow> host_inv host S)"
  for host :: nat and E :: "'w env"
proof
  fix S :: "'w ns_system"
  assume i: "idle host S"
  then have "\<exists>r. ns_calls S g = Finished r" for g by (simp add: idle_def)
  then have "thread_file (ns_calls S g) = None" for g by (metis thread_file.simps(11))
  with i namespaces.init_inv [OF i] show "ns_inv E S \<and> (kernel_rules E (\<lambda>_. host) \<longrightarrow> host_inv host S)"
    by (simp add: host_inv_def idle_def)
qed (blast intro: ns_inv_step host_inv_step)

text \<open>
  C3: requests that overlap do not meet in a namespace. Whatever the order in which any number of
  calls of \<open>WithNetNSPath\<close> take their steps and threads are created, a command is run by a call that has
  its thread for itself, in the namespace that was opened under the path of that very call. And if
  new threads are not created by switched ones, as from Go 1.10 on, every thread is in the namespace of
  the host when the calls have finished.
\<close>

theorem overlapping_requests:
  assumes "idle host S0" and "(ns_step E old)\<^sup>*\<^sup>* S0 S"
  shows "(\<forall>T. ns_step E old S T \<longrightarrow> trace T = trace S \<or>
      (\<exists>g t n h th cmd cmds ok. ns_calls S g = Run t n h th (cmd # cmds) \<and> available S g t
         \<and> trace T = trace S @ [Exec (ns_ino n) cmd ok] \<and> (\<exists>tbl w. fst (os_Open E tbl (ns_name n) w) = Inr (ns_ino n))))
    \<and> (\<not> old \<and> kernel_rules E (\<lambda>_. host) \<and> (\<forall>g. \<exists>r. ns_calls S g = Finished r) \<longrightarrow> thread_ns S = (\<lambda>_. host))"
proof (intro conjI allI impI)
  have inv: "ns_inv E S" using assms by (rule namespaces.reachable_inv)
  fix T
  assume "ns_step E old S T"
  then show "trace T = trace S \<or>
      (\<exists>g t n h th cmd cmds ok. ns_calls S g = Run t n h th (cmd # cmds) \<and> available S g t
         \<and> trace T = trace S @ [Exec (ns_ino n) cmd ok] \<and> (\<exists>tbl w. fst (os_Open E tbl (ns_name n) w) = Inr (ns_ino n)))"
  proof (cases rule: ns_step.cases)
    case (take_turn g t c S')
    from turn_effect [OF take_turn(3)] show ?thesis
    proof (cases rule: turn_effect.cases)
      case (ran t n h th cmd cmds ok w)
      have "available S g t" using inv ran(1) unfolding ns_inv_def available_def by (metis owns.simps(3))
      moreover have "thread_ns S t = ns_ino n" using inv ran(1) unfolding ns_inv_def by (metis inside.simps(1))
      moreover have "\<exists>tbl w. fst (os_Open E tbl (ns_name n) w) = Inr (ns_ino n)"
        using inv ran(1) unfolding ns_inv_def by (metis target_of.simps(5))
      moreover have "trace T = trace S @ [Exec (thread_ns S t) cmd ok]" using ran(3) by (simp add: take_turn(1))
      ultimately show ?thesis using ran(1) by metis
    qed (simp_all add: take_turn(1))
  qed simp_all
next
  assume r: "\<not> old \<and> kernel_rules E (\<lambda>_. host) \<and> (\<forall>g. \<exists>r. ns_calls S g = Finished r)"
  with assms(2) have "host_inv host S" using host_threads.reachable_inv [OF assms(1), of E S] by simp
  moreover from r have "inside (ns_calls S g) = None" for g by (metis inside.simps(11))
  ultimately show "thread_ns S = (\<lambda>_. host)" by (auto simp: host_inv_def)
qed

text \<open>States of one call, for the witnesses.\<close>

definition demo_ns :: "(nat \<Rightarrow> nat) \<Rightarrow> effect list \<Rightarrow> ns_call \<Rightarrow> unit ns_system" where
  "demo_ns tbl log c = \<lparr>world = (), thread_ns = tbl, trace = log, ns_calls = (\<lambda>_. Finished None)(0 := c)\<rparr>"

lemma demo_turn:
  assumes "turn demo_E 1 c (demo_ns tbl log c) = (Returns c', demo_ns tbl' log' c)"
  shows "ns_step demo_E old (demo_ns tbl log c) (demo_ns tbl' log' c')"
proof -
  have "available (demo_ns tbl log c) 0 t" for t by (simp add: available_def demo_ns_def)
  from ns_step.take_turn [OF this, of demo_E 1 c' "demo_ns tbl' log' c" old] assms this
  show ?thesis by (simp add: demo_ns_def fun_upd_upd)
qed

definition demo_target :: netNS where
  "demo_target = \<lparr>ns_name = ''/proc/42/ns/net'', ns_ino = 7, ns_mounted = False, ns_closed = False\<rparr>"

definition demo_thread :: "string \<Rightarrow> netNS" where
  "demo_thread t = \<lparr>ns_name = ''/proc/100/task/'' @ t @ ''/ns/net'', ns_ino = 1, ns_mounted = False, ns_closed = False\<rparr>"

lemma demo_running:
  "(ns_step demo_E old)\<^sup>*\<^sup>* (demo_ns (\<lambda>_. 1) [] (Finished None))
     (demo_ns ((\<lambda>_. 1)(3 := 7)) [] (Run 3 demo_target (demo_thread ''1'') (demo_thread ''3'') [replace_cmd]))"
proof -
  let ?c = "[replace_cmd]" and ?s = "demo_ns (\<lambda>_. 1) []"
  have p: "getCurrentThreadNetNSPath demo_E 1 = ''/proc/100/task/1/ns/net''"
    "getCurrentThreadNetNSPath demo_E 3 = ''/proc/100/task/3/ns/net''"
    by (simp_all add: getCurrentThreadNetNSPath_def) code_simp+
  note d = demo_target_def demo_thread_def GetNS_def IsNSorErr_def NSFS_MAGIC_def PROCFS_MAGIC_def
    errorIfClosed_def Set_def p go_run demo_ns_def
  have "[] \<notin> set ?c" by (simp add: replace_cmd_def) code_simp
  then have "ns_step demo_E old (?s (Finished None)) (?s (Open_target ''/proc/42/ns/net'' ?c))"
    using ns_step.begin_call [of "?s (Finished None)" 0 None ?c demo_E old] by (simp add: demo_ns_def fun_upd_upd)
  moreover have "ns_step demo_E old (?s (Open_target ''/proc/42/ns/net'' ?c)) (?s (Open_host demo_target ?c))"
    by (rule demo_turn) (simp add: d)
  moreover have "ns_step demo_E old (?s (Open_host demo_target ?c)) (?s (Start_goroutine demo_target (demo_thread ''1'') ?c))"
    by (rule demo_turn) (simp add: d del: One_nat_def)
  moreover have "ns_step demo_E old (?s (Start_goroutine demo_target (demo_thread ''1'') ?c))
      (?s (Open_thread 3 demo_target (demo_thread ''1'') ?c))"
    by (rule demo_turn) (simp add: d)
  moreover have "ns_step demo_E old (?s (Open_thread 3 demo_target (demo_thread ''1'') ?c))
      (?s (Switch 3 demo_target (demo_thread ''1'') (demo_thread ''3'') ?c))"
    by (rule demo_turn) (simp add: d)
  moreover have "ns_step demo_E old (?s (Switch 3 demo_target (demo_thread ''1'') (demo_thread ''3'') ?c))
      (demo_ns ((\<lambda>_. 1)(3 := 7)) [] (Run 3 demo_target (demo_thread ''1'') (demo_thread ''3'') ?c))"
    by (rule demo_turn) (simp add: d)
  ultimately show ?thesis by (meson converse_rtranclp_into_rtranclp rtranclp.rtrancl_refl)
qed

lemma demo_idle: "idle 1 (demo_ns (\<lambda>_. 1) [] (Finished None))"
  by (simp add: idle_def demo_ns_def)

theorem overlapping_requests_witness:
  "\<exists>T. ns_step demo_E True (demo_ns ((\<lambda>_. 1)(3 := 7)) []
        (Run 3 demo_target (demo_thread ''1'') (demo_thread ''3'') [replace_cmd])) T
     \<and> trace T = [Exec 7 replace_cmd True] \<and> (\<exists>tbl w. fst (os_Open demo_E tbl ''/proc/42/ns/net'' w) = Inr 7)"
proof -
  let ?c = "Run 3 demo_target (demo_thread ''1'') (demo_thread ''3'')"
  let ?S = "demo_ns ((\<lambda>_. 1)(3 := 7)) [] (?c [replace_cmd])" and ?T = "demo_ns ((\<lambda>_. 1)(3 := 7)) [Exec 7 replace_cmd True] (?c [])"
  have "replace_cmd \<noteq> []" by (simp add: replace_cmd_def) code_simp
  then have st: "ns_step demo_E True ?S ?T"
    by (intro demo_turn) (simp add: demo_ns_def exec_cmd_def demo_env_def log_effect_def go_run)
  have "trace ?T \<noteq> trace ?S" by (simp add: demo_ns_def)
  with conjunct1 [OF overlapping_requests [OF demo_idle demo_running], rule_format, OF st]
  obtain g t n h th cmd cmds where "ns_calls ?S g = Run t n h th (cmd # cmds)"
    "\<exists>tbl w. fst (os_Open demo_E tbl (ns_name n) w) = Inr (ns_ino n)" by blast
  moreover from this(1) have "n = demo_target" by (simp add: demo_ns_def split: if_splits)
  ultimately have "\<exists>tbl w. fst (os_Open demo_E tbl ''/proc/42/ns/net'' w) = Inr 7" by (simp add: demo_target_def)
  moreover have "trace ?T = [Exec 7 replace_cmd True]" by (simp add: demo_ns_def)
  ultimately show ?thesis using st by blast
qed

section \<open>Threads that stay in a container\<close>

text \<open>A call whose thread is locked can finish, and changes the namespace of no other thread.\<close>

lemma turn_returns: "[] \<notin> set (commands_left c) \<Longrightarrow> returns_always (turn E t c)"
proof -
  assume c: "[] \<notin> set (commands_left c)"
  show "returns_always (turn E t c)"
  proof (cases c)
    case (Run u n h th cmds)
    with c show ?thesis by (cases cmds) (auto intro!: returns_rules returns_exec_cmd)
  qed (auto intro!: returns_rules returns_netns)
qed

text \<open>The thread is locked, or the goroutine that locked it has ended.\<close>

definition late :: "ns_call \<Rightarrow> nat \<Rightarrow> bool" where
  "late c t \<longleftrightarrow> owns c = Some t \<or> steps_left c \<le> 2"

lemma turn_late:
  assumes "turn E t c S = (Returns c', S')" and "\<And>r. c \<noteq> Finished r" and "late c t"
  shows "steps_left c' < steps_left c \<and> set (commands_left c') \<subseteq> set (commands_left c) \<and> late c' t"
proof (cases c)
  case (Run u n h th cmds)
  with assms show ?thesis
    by (cases cmds) (auto simp: late_def go_prim_simps elim!: go_bind_ReturnsE split: option.splits)
qed (use assms in \<open>auto simp: late_def go_prim_simps elim!: go_bind_ReturnsE split: option.splits sum.splits\<close>)

lemma call_finishes:
  "late (ns_calls S g) t \<Longrightarrow> available S g t \<Longrightarrow> [] \<notin> set (commands_left (ns_calls S g)) \<Longrightarrow>
   \<exists>T r. (ns_step E old)\<^sup>*\<^sup>* S T \<and> ns_calls T = (ns_calls S)(g := Finished r) \<and> (\<forall>u. u \<noteq> t \<longrightarrow> thread_ns T u = thread_ns S u)"
proof (induction "steps_left (ns_calls S g)" arbitrary: S rule: less_induct)
  case less
  show ?case
  proof (cases "\<exists>r. ns_calls S g = Finished r")
    case True
    then show ?thesis by (metis fun_upd_triv rtranclp.rtrancl_refl)
  next
    case False
    obtain c S' where tr: "turn E t (ns_calls S g) S = (Returns c, S')"
      using turn_returns [OF less.prems(3)] unfolding returns_always_def by blast
    let ?T = "S'\<lparr>ns_calls := (ns_calls S)(g := c)\<rparr>"
    have l: "steps_left c < steps_left (ns_calls S g)" "set (commands_left c) \<subseteq> set (commands_left (ns_calls S g))" "late c t"
      using turn_late [OF tr _ less.prems(1)] False by auto
    have "owns c = Some u \<Longrightarrow> u = t" for u using l(3) by (cases c) (auto simp: late_def)
    then have st: "ns_step E old S ?T" by (intro ns_step.take_turn [OF less.prems(2) tr]) (use less.prems(2) in auto)
    have "owns (ns_calls S g) = None \<or> owns (ns_calls S g) = Some t"
      using less.prems(1) by (cases "ns_calls S g") (auto simp: late_def)
    then have thr: "thread_ns S' u = thread_ns S u" if "u \<noteq> t" for u
      using turn_threads [OF turn_effect [OF tr], of u] that by auto
    obtain T r where "(ns_step E old)\<^sup>*\<^sup>* ?T T" "ns_calls T = (ns_calls ?T)(g := Finished r)"
      "\<forall>u. u \<noteq> t \<longrightarrow> thread_ns T u = thread_ns ?T u"
      using less.hyps [of ?T] l less.prems(2,3) by (fastforce simp: available_def)
    with st thr show ?thesis
      by (intro exI [of _ T] exI [of _ r]) (auto intro: converse_rtranclp_into_rtranclp)
  qed
qed

text \<open>
  C16: a thread of the plugin can be left in the namespace of a container. With a Go runtime before 1.10,
  while the closure runs \<open>tc\<close> (\<open>CombinedOutput\<close> starts goroutines), a thread may be created by
  the switched one; it is in the container's namespace, and still is when the call has finished
  and has switched its own thread back.
\<close>

theorem thread_left_in_container:
  assumes "idle host S0" and "(ns_step E True)\<^sup>*\<^sup>* S0 S" and "ns_calls S g = Run t n h th cmds" and "[] \<notin> set cmds"
    and "\<forall>g. owns (ns_calls S g) \<noteq> Some fresh"
  shows "\<exists>T r. (ns_step E True)\<^sup>*\<^sup>* S T \<and> ns_calls T = (ns_calls S)(g := Finished r) \<and> thread_ns T fresh = ns_ino n"
proof -
  have inv: "ns_inv E S" using assms(1,2) by (rule namespaces.reachable_inv)
  then have t: "thread_ns S t = ns_ino n" using assms(3) unfolding ns_inv_def by (metis inside.simps(1))
  let ?S = "S\<lparr>thread_ns := (thread_ns S)(fresh := thread_ns S t)\<rparr>"
  have st: "ns_step E True S ?S" by (rule ns_step.new_thread) (use assms(5) in auto)
  have "available ?S g t" using inv assms(3) unfolding ns_inv_def available_def
    by (metis (no_types, lifting) owns.simps(3) ns_system.select_convs(1) ns_system.surjective kernel.update_convs(2))
  moreover have "late (ns_calls ?S g) t" "[] \<notin> set (commands_left (ns_calls ?S g))" using assms(3,4) by (simp_all add: late_def)
  ultimately obtain T r where "(ns_step E True)\<^sup>*\<^sup>* ?S T" "ns_calls T = (ns_calls ?S)(g := Finished r)"
    "\<forall>u. u \<noteq> t \<longrightarrow> thread_ns T u = thread_ns ?S u"
    using call_finishes [of ?S g t E True] by blast
  moreover have "fresh \<noteq> t" using assms(3,5) by (metis owns.simps(3))
  ultimately show ?thesis using st t
    by (intro exI [of _ T] exI [of _ r]) (auto intro: converse_rtranclp_into_rtranclp)
qed

theorem thread_left_in_container_witness:
  "\<exists>T r. (ns_step demo_E True)\<^sup>*\<^sup>* (demo_ns (\<lambda>_. 1) [] (Finished None)) T \<and> ns_calls T 0 = Finished r \<and> thread_ns T 5 = 7"
proof -
  let ?S = "demo_ns ((\<lambda>_. 1)(3 := 7)) [] (Run 3 demo_target (demo_thread ''1'') (demo_thread ''3'') [replace_cmd])"
  have c: "ns_calls ?S 0 = Run 3 demo_target (demo_thread ''1'') (demo_thread ''3'') [replace_cmd]"
    "\<forall>g. owns (ns_calls ?S g) \<noteq> Some 5" by (auto simp: demo_ns_def)
  have "[] \<notin> set [replace_cmd]" by (simp add: replace_cmd_def) code_simp
  from thread_left_in_container [OF demo_idle demo_running c(1) this c(2)]
  obtain T r where "(ns_step demo_E True)\<^sup>*\<^sup>* ?S T" "ns_calls T = (ns_calls ?S)(0 := Finished r)" "thread_ns T 5 = 7"
    by (auto simp: demo_target_def)
  with demo_running [of True] show ?thesis by (intro exI [of _ T] exI [of _ r]) (auto intro: rtranclp_trans)
qed

end
