(* ===== verification/NetNS_New.thy ===== *)
theory NetNS_New
  imports NetNS Go_Fmt
begin

text \<open>
  The rest of the vendored \<open>ns.go\<close>, which the plugin does not call: handles of the namespace a thread is in,
  and \<open>NewNS\<close>, which makes a namespace and mounts it on a file. A goroutine on a thread of its own
  leaves its namespace for the new one and is switched back, so that no thread has moved in the end.
\<close>

text \<open>The calls that only \<open>NewNS\<close> makes: random bytes, creating a file, a new network namespace for the
  thread (the answer is the namespace), and a bind mount, which sees the threads' namespaces like \<open>os_Open\<close>.\<close>

record 'w new_ns_env =
  rand_Read :: "('w, error + nat list) ext"
  os_Create :: "string \<Rightarrow> ('w, error option) ext"
  sys_Unshare :: "('w, error + nat) ext"
  sys_Mount :: "(nat \<Rightarrow> nat) \<Rightarrow> string \<Rightarrow> string \<Rightarrow> ('w, error option) ext"

definition GetCurrentNS :: "'w env \<Rightarrow> nat \<Rightarrow> (('w, 'z) kernel_scheme, error + netNS) go" where
  "GetCurrentNS E tid = GetNS E (getCurrentThreadNetNSPath E tid)"

definition ns_Path :: "netNS \<Rightarrow> string" where
  "ns_Path n = ns_name n"

definition nsRunDir :: string where
  "nsRunDir = ''/var/run/netns''"

text \<open>\<open>cni-%x-%x-%x-%x-%x\<close> with 4, 2, 2, 2 and the remaining bytes.\<close>

definition hex_bytes :: "nat list \<Rightarrow> string" where
  "hex_bytes bs = concat (map (hex_digits 2) bs)"

definition nsName :: "nat list \<Rightarrow> string" where
  "nsName b = ''cni-'' @ Join (map hex_bytes
     [take 4 b, take 2 (drop 4 b), take 2 (drop 6 b), take 2 (drop 8 b), drop 10 b]) ''-''"

text \<open>The goroutine: the answer is the namespace of the file opened at the mount point, or the error.\<close>

definition make_namespace ::
  "'w env \<Rightarrow> 'w new_ns_env \<Rightarrow> nat \<Rightarrow> string \<Rightarrow> (('w, 'z) kernel_scheme, error + nat) go" where
  "make_namespace E N tid nsPath =
     go_bind (GetNS E (getCurrentThreadNetNSPath E tid)) (\<lambda>r. case r of
        Inl err \<Rightarrow> go_return (Inl err)
      | Inr origNS \<Rightarrow> go_defer (Close E origNS)
          (go_bind (call (sys_Unshare N)) (\<lambda>u. case u of
              Inl err \<Rightarrow> go_return (Inl err)
            | Inr ino \<Rightarrow> go_seq (go_modify (\<lambda>s. s\<lparr>thread_ns := (thread_ns s)(tid := ino)\<rparr>))
                (go_defer (Set E tid origNS)
                  (go_bind (go_gets thread_ns) (\<lambda>tbl.
                    go_bind (call (sys_Mount N tbl (getCurrentThreadNetNSPath E tid) nsPath)) (\<lambda>m. case m of
                       Some err \<Rightarrow> go_return (Inl err)
                     | None \<Rightarrow> call (os_Open E tbl nsPath))))))))"

definition NewNS :: "'w env \<Rightarrow> 'w new_ns_env \<Rightarrow> (('w, 'z) kernel_scheme, error + netNS) go" where
  "NewNS E N = go_bind (call (rand_Read N)) (\<lambda>b. case b of
      Inl err \<Rightarrow> go_return (Inl (Errorf ''failed to generate random netns name: %v'' [ArgE err]))
    | Inr bytes \<Rightarrow> go_bind (call (os_MkdirAll E nsRunDir)) (\<lambda>d. case d of
        Some err \<Rightarrow> go_return (Inl err)
      | None \<Rightarrow>
          (let nsPath = nsRunDir @ ''/'' @ nsName bytes in
           go_bind (call (os_Create N nsPath)) (\<lambda>c. case c of
             Some err \<Rightarrow> go_return (Inl err)
           | None \<Rightarrow> go_bind (call (os_Close E nsPath)) (\<lambda>_.
               go_defer (call (os_RemoveAll E nsPath))
                 (go_bind (call (go_thread E)) (\<lambda>tid.
                   go_bind (go_wait (make_namespace E N tid nsPath)) (\<lambda>r. case r of
                      Inl err \<Rightarrow> go_bind (call (sys_Unmount E nsPath)) (\<lambda>_.
                        go_return (Inl (Errorf ''failed to create namespace: %v'' [ArgE err])))
                    | Inr ino \<Rightarrow> go_return (Inr \<lparr>ns_name = nsPath, ns_ino = ino, ns_mounted = True, ns_closed = False\<rparr>)))))))))"

text \<open>A call that returns an answer as described and has changed nothing but the world.\<close>

definition settles :: "(('w, 'z) kernel_scheme, 'a) go \<Rightarrow> ('w, 'z) kernel_scheme \<Rightarrow> ('a \<Rightarrow> bool) \<Rightarrow> bool" where
  "settles m s P \<longleftrightarrow> (\<exists>r w. m s = (Returns r, s\<lparr>world := w\<rparr>) \<and> P r)"

lemma settles_return: "P x \<Longrightarrow> settles (go_return x) s P"
  unfolding settles_def by (intro exI [of _ x] exI [of _ "world s"]) (simp add: go_prim_simps)

lemma settles_call: "(\<And>x. P x) \<Longrightarrow> settles (call c) s P"
  unfolding settles_def by (auto simp: call_run)

lemma settles_bind:
  assumes "settles m s Q" and "\<And>x w. Q x \<Longrightarrow> settles (f x) (s\<lparr>world := w\<rparr>) P"
  shows "settles (go_bind m f) s P"
proof -
  from assms(1) obtain x w where m: "m s = (Returns x, s\<lparr>world := w\<rparr>)" "Q x" unfolding settles_def by blast
  from assms(2) [OF m(2), of w] obtain r v where "f x (s\<lparr>world := w\<rparr>) = (Returns r, s\<lparr>world := v\<rparr>)" "P r"
    unfolding settles_def by auto
  with m(1) show ?thesis unfolding settles_def by (auto simp: go_bind_simps)
qed

lemma settles_gets: "settles (go_gets f) s (\<lambda>_. True)"
  unfolding settles_def by (intro exI [of _ "f s"] exI [of _ "world s"]) (simp add: go_prim_simps)

lemma settles_ask: "(\<And>x w. settles (f x) (s\<lparr>world := w\<rparr>) P) \<Longrightarrow> settles (go_bind (call c) f) s P"
  by (rule settles_bind [where Q = "\<lambda>_. True"]) (auto intro: settles_call)

lemma settles_defer:
  assumes "settles m s P" and "\<And>w. settles d (s\<lparr>world := w\<rparr>) (\<lambda>_. True)"
  shows "settles (go_defer d m) s P"
proof -
  from assms(1) obtain x w where m: "m s = (Returns x, s\<lparr>world := w\<rparr>)" "P x" unfolding settles_def by blast
  from assms(2) [of w] obtain r v where "d (s\<lparr>world := w\<rparr>) = (Returns r, s\<lparr>world := v\<rparr>)" unfolding settles_def by auto
  with m show ?thesis unfolding settles_def by (auto simp: go_defer_simps go_seq_simps go_prim_simps)
qed

lemma settles_wait: "settles m s P \<Longrightarrow> settles (go_wait m) s P"
  unfolding settles_def by (auto simp: go_wait_simps)

lemma settles_Close: "settles (Close E n) s (\<lambda>_. True)"
  unfolding settles_def by (rule Close_cases [of E n s]) blast

text \<open>Making a namespace touches neither the log of commands nor, when what \<open>/proc\<close> shows for a thread is the
  namespace it is in and the kernel lets it return there, the namespace of any thread.\<close>

lemma make_namespace_settles:
  assumes proc: "\<And>tbl t w j. fst (os_Open E tbl (getCurrentThreadNetNSPath E t) w) = Inr j \<Longrightarrow> j = tbl t"
    and swb: "\<And>t w. fst (sys_setns E (thread_ns s t) w) = None"
  shows "settles (make_namespace E N t p) s (\<lambda>_. True)"
proof -
  define Q :: "error + netNS \<Rightarrow> bool" where "Q = (\<lambda>r. case r of Inl e \<Rightarrow> True | Inr n \<Rightarrow> \<not> ns_closed n \<and> ns_ino n = thread_ns s t)"
  have "settles (GetNS E (getCurrentThreadNetNSPath E t)) s Q"
    by (rule GetNS_cases [of E "getCurrentThreadNetNSPath E t" s]) (auto simp: settles_def Q_def dest: proc)
  then show ?thesis unfolding make_namespace_def
  proof (rule settles_bind)
    fix r w assume "Q r"
    show "settles (case r of Inl err \<Rightarrow> go_return (Inl err)
      | Inr origNS \<Rightarrow> go_defer (Close E origNS)
          (go_bind (call (sys_Unshare N)) (\<lambda>u. case u of
              Inl err \<Rightarrow> go_return (Inl err)
            | Inr ino \<Rightarrow> go_seq (go_modify (\<lambda>s. s\<lparr>thread_ns := (thread_ns s)(t := ino)\<rparr>))
                (go_defer (Set E t origNS)
                  (go_bind (go_gets thread_ns) (\<lambda>tbl.
                    go_bind (call (sys_Mount N tbl (getCurrentThreadNetNSPath E t) p)) (\<lambda>m. case m of
                       Some err \<Rightarrow> go_return (Inl err)
                     | None \<Rightarrow> call (os_Open E tbl p)))))))) (s\<lparr>world := w\<rparr>) (\<lambda>_. True)"
    proof (cases r)
      case (Inr n)
      with \<open>Q r\<close> have n: "\<not> ns_closed n" "ns_ino n = thread_ns s t" by (simp_all add: Q_def)
      let ?inner = "go_bind (go_gets thread_ns) (\<lambda>tbl.
          go_bind (call (sys_Mount N tbl (getCurrentThreadNetNSPath E t) p)) (\<lambda>m. case m of
             Some err \<Rightarrow> go_return (Inl err)
           | None \<Rightarrow> call (os_Open E tbl p)))"
      have restored: "settles (go_seq (go_modify (\<lambda>s. s\<lparr>thread_ns := (thread_ns s)(t := ino)\<rparr>)) (go_defer (Set E t n) ?inner))
          (s\<lparr>world := v\<rparr>) (\<lambda>_. True)" for ino v
      proof -
        let ?s1 = "s\<lparr>world := v, thread_ns := (thread_ns s)(t := ino)\<rparr>"
        have "settles ?inner ?s1 (\<lambda>_. True)"
          by (auto intro!: settles_bind [OF settles_gets] settles_ask settles_return settles_call split: option.split)
        then obtain r u where i: "?inner ?s1 = (Returns r, ?s1\<lparr>world := u\<rparr>)" unfolding settles_def by blast
        obtain v' where "Set E t n (?s1\<lparr>world := u\<rparr>) = (Returns None, s\<lparr>world := v'\<rparr>)"
          by (rule Set_cases [OF n(1), of E t "?s1\<lparr>world := u\<rparr>"]) (use swb n(2) in auto)
        with i show ?thesis by (auto simp: settles_def go_defer_simps go_seq_simps go_prim_simps)
      qed
      show ?thesis unfolding Inr sum.case
        by (auto intro!: settles_defer settles_ask settles_return settles_Close restored split: sum.split)
    qed (simp add: settles_return)
  qed
qed

lemma NewNS_restores:
  assumes proc: "\<And>tbl t w j. fst (os_Open E tbl (getCurrentThreadNetNSPath E t) w) = Inr j \<Longrightarrow> j = tbl t"
    and swb: "\<And>t w. fst (sys_setns E (thread_ns s t) w) = None"
  shows "settles (NewNS E N) s (\<lambda>r. case r of Inl e \<Rightarrow> True | Inr n \<Rightarrow> ns_mounted n \<and> \<not> ns_closed n)"
proof -
  have m: "settles (make_namespace E N t p) (s\<lparr>world := w\<rparr>) (\<lambda>_. True)" for t p w
    using proc swb by (intro make_namespace_settles) simp_all
  show ?thesis
    unfolding NewNS_def Let_def
    by (auto intro!: settles_defer settles_ask settles_return settles_call settles_bind [OF settles_wait [OF m]]
        split: sum.split option.split)
qed

end
