(* ===== verification/Report_Types.thy ===== *)
theory Report_Types
  imports Report_Props
begin

text \<open>
  What makes a report well formed: the references between its parts. A node may only offer
  controls that the topology defines; the key of a definition is the ID in it; a row of a node
  belongs to one of the tables. The loop over the store is shown to keep this of the nodes it has
  made so far, whatever Docker, the clock and the random numbers do.
\<close>

section \<open>Well-formed topologies\<close>

definition node_refs :: "(string \<times> control) list \<Rightarrow> (string \<times> tableTemplate) list \<Rightarrow> string \<Rightarrow> node \<Rightarrow> bool" where
  "node_refs controls tables x n \<longleftrightarrow> HasSuffix x nodeSuffix
     \<and> list_all (\<lambda>(k, _). map_of controls k \<noteq> None) (LatestControls n)
     \<and> list_all (\<lambda>(k, _). list_ex (\<lambda>(_, t). HasPrefix k (tt_Prefix t)) tables) (Latest n)"

definition topology_refs :: "topology \<Rightarrow> bool" where
  "topology_refs t \<longleftrightarrow>
     list_all (\<lambda>(x, n). node_refs (Controls t) (TableTemplates t) x n) (Nodes t)
     \<and> list_all (\<lambda>(k, c). ct_ID c = k) (Controls t)
     \<and> list_all (\<lambda>(k, m). mt_ID m = k) (MetadataTemplates t)
     \<and> list_all (\<lambda>(k, tt). tt_ID tt = k) (TableTemplates t)"

text \<open>A metadata row of a node gets a value: its template reads the member \<open>latest\<close> under its ID.\<close>

definition metadata_filled :: "metadataTemplate \<Rightarrow> node \<Rightarrow> bool" where
  "metadata_filled m n \<longleftrightarrow> mt_From m = ''latest'' \<and> map_of (Latest n) (mt_ID m) \<noteq> None"

section \<open>The loop over the store\<close>

lemma maintains_for: "(\<And>x. maintains I (f x)) \<Longrightarrow> maintains I (go_for f xs)"
  by (induction xs) (auto intro: go_maintains)

lemma maintains_defer:
  fixes d :: "('s, 'b) go" and m :: "('s, 'a) go"
  assumes "maintains I d" and "maintains I m"
  shows "maintains I (go_defer d m)"
  unfolding maintains_def
proof (intro allI impI)
  fix s
  assume "I s"
  obtain r s1 where m: "m s = (r, s1)" by (cases "m s")
  with assms(2) \<open>I s\<close> have "I s1" by (rule maintainsD)
  moreover have "I (snd (go_seq d (go_return x :: ('s, 'a) go) s1))" "I (snd (go_seq d (go_panic p :: ('s, 'a) go) s1))" for x p
    using maintains_seq [OF assms(1), of "go_return x :: ('s, 'a) go"]
      maintains_seq [OF assms(1), of "go_panic p :: ('s, 'a) go"] \<open>I s1\<close>
    by (simp_all add: maintains_def go_prim_simps)
  ultimately show "I (snd (go_defer d m s))"
    using m by (cases r) (simp_all add: go_defer_simps)
qed

lemma maintains_ForEach:
  assumes "\<And>k c. maintains I (callback k c)" and "\<And>s b. I (s\<lparr>lock := b\<rparr>) = I s"
  shows "maintains I (ForEach ids callback)"
proof -
  have "maintains I mutex_Lock" "maintains I mutex_Unlock"
    by (simp_all add: maintains_def mutex_Lock_def mutex_Unlock_def go_run assms(2))
  moreover have "maintains I (go_gets f)" for f :: "_ \<Rightarrow> 'c" by (simp add: maintains_def go_run)
  ultimately show ?thesis
    unfolding ForEach_def locked_def by (intro maintains_defer maintains_for go_maintains assms(1))
qed

lemma control_maps:
  "getTrafficControls E tid = map (\<lambda>c. (ct_ID (ec_control c), ec_control c)) (getControls E tid)"
  "getTrafficNodeControls E tid ts dead =
     map (\<lambda>c. (ct_ID (ec_control c), \<lparr>ce_Timestamp = ts, ce_Value = \<lparr>cd_Dead = dead\<rparr>\<rparr>)) (getControls E tid)"
  by (simp_all add: getTrafficControls_def getTrafficNodeControls_def control_lists networkControlTablePrefix_def Let_def)

definition node_ok :: "'w env \<Rightarrow> nat \<Rightarrow> string \<times> node \<Rightarrow> bool" where
  "node_ok E tid = (\<lambda>(x, n). node_refs (getTrafficControls E tid) getTableTemplate x n
     \<and> list_all (\<lambda>(_, m). \<not> metadata_filled m n) getMetadataTemplate)"

lemma make_node_ok: "node_ok E tid (containerIDToNodeID k, make_node E tid ts dead st)"
  by (auto simp: node_ok_def node_refs_def make_node_def metadata_filled_def getMetadataTemplate_def getTableTemplate_def
      control_maps control_lists networkControlTablePrefix_def HasPrefix_def HasSuffix_iff containerIDToNodeID_def)

lemma set_update: "set (AList.update k v m) \<subseteq> insert (k, v) (set m)"
  by (induction m) auto

lemma maintains_callback:
  "maintains (\<lambda>s. list_all (node_ok E tid) (captured_nodes s)) (node_callback E tid ts k c)"
proof -
  let ?I = "\<lambda>s. list_all (node_ok E tid) (captured_nodes s)"
  have "maintains ?I (getPod E k)" "maintains ?I (getStatusByPod E pod)" for pod
    unfolding getPod_def getStatusByPod_def made_up_status_def random_def Let_def
    by (rule maintains_part [where f = captured_nodes]; intro go_keeps; simp)+
  moreover have "maintains ?I (go_modify (\<lambda>s. s\<lparr>captured_nodes :=
      AList.update (containerIDToNodeID k) (make_node E tid ts dead st) (captured_nodes s)\<rparr>))" for dead st
    using set_update make_node_ok by (fastforce simp: maintains_def go_run list_all_iff)
  moreover have "maintains ?I (go_exit n :: ('a Process, unit) go)" "maintains ?I (go_panic p :: ('a Process, unit) go)" for n p
    by (simp_all add: maintains_def go_run)
  ultimately have "maintains ?I (add_node E tid ts dead k)" for dead
    unfolding add_node_def Let_def by (intro go_maintains)
  then show ?thesis by (cases "State c") (simp_all add: node_callback_def maintains_return)
qed

lemma getContainerNodes_ok:
  assumes "getContainerNodes E tid ids s = (Returns nodes, s')"
  shows "list_all (node_ok E tid) nodes"
proof -
  obtain ts w where t: "time_Now E (world s) = (ts, w)" by (cases "time_Now E (world s)")
  let ?s = "s\<lparr>captured_nodes := [], world := w\<rparr>" and ?loop = "ForEach ids (node_callback E tid ts)"
  from assms t have "go_seq ?loop (go_gets captured_nodes) ?s = (Returns nodes, s')"
    by (simp add: getContainerNodes_def go_run)
  then obtain x s1 where run: "?loop ?s = (Returns x, s1)" and "go_gets captured_nodes s1 = (Returns nodes, s')"
    by (rule go_seq_ReturnsE)
  then have n: "nodes = captured_nodes s1" by (auto simp: go_run)
  have "maintains (\<lambda>s. list_all (node_ok E tid) (captured_nodes s)) ?loop"
    by (rule maintains_ForEach [OF maintains_callback]) simp
  from maintainsD [OF this _ run] show ?thesis by (simp add: n)
qed

section \<open>Reports\<close>

text \<open>
  C6: the references of a report. Whatever the environment does, every report that is made is
  well formed: a node ID is that of a container; every control that a node offers is defined by
  the topology, every row of a node belongs to a table that the report declares, and every
  definition stands under its own ID. But no node has a value for either of the two metadata
  rows that the report declares (latency and packet loss): they stay empty.
\<close>

theorem report_references:
  assumes "make_report E tid ids s = (Returns rpt, s')"
  shows "topology_refs (rp_Container rpt)
    \<and> list_all (\<lambda>(x, n). list_all (\<lambda>(_, m). \<not> metadata_filled m n) (MetadataTemplates (rp_Container rpt)))
        (Nodes (rp_Container rpt))"
proof -
  from assms obtain nodes where nodes: "getContainerNodes E tid ids s = (Returns nodes, s')"
    and r: "rp_Container rpt = \<lparr>Nodes = nodes, Controls = getTrafficControls E tid,
      MetadataTemplates = getMetadataTemplate, TableTemplates = getTableTemplate\<rparr>"
    unfolding make_report_def by (rule go_bind_ReturnsE) (auto simp: go_prim_simps)
  have "list_all (\<lambda>(k, c). ct_ID c = k) (getTrafficControls E tid)" by (simp add: control_maps list_all_iff)
  moreover have "list_all (\<lambda>(k, m). mt_ID m = k) getMetadataTemplate" "list_all (\<lambda>(k, tt). tt_ID tt = k) getTableTemplate"
    by (simp_all add: getMetadataTemplate_def getTableTemplate_def)
  ultimately show ?thesis
    using getContainerNodes_ok [OF nodes] unfolding r topology_refs_def
    by (auto simp: node_ok_def list_all_iff)
qed

theorem report_references_witness:
  "\<exists>rpt s' n. make_report demo_E 1 [''c1''] (demo_process [''c1'' \<mapsto> \<lparr>State = Running, PID = 42\<rparr>]) = (Returns rpt, s')
     \<and> map_of (Nodes (rp_Container rpt)) ''c1;<container>'' = Some n \<and> topology_refs (rp_Container rpt)"
proof -
  let ?s = "demo_process [''c1'' \<mapsto> \<lparr>State = Running, PID = 42\<rparr>]"
  have n: "containerIDToNodeID ''c1'' = ''c1;<container>''" by (simp add: containerIDToNodeID_def nodeSuffix_def)
  have h: "\<not> lock ?s" "range_order [''c1''] (containers ?s)" "inspectable demo_E demo_D (containers ?s)"
    "year_ok (local_offset demo_E (fst (time_Now demo_E (world ?s)))) (fst (time_Now demo_E (world ?s)))"
    using demo_report_hyps(5) by (auto simp: range_order_def inspectable_def demo_D_def demo_inspect_def split: if_splits)
  obtain rpt s' where run: "make_report demo_E 1 [''c1''] ?s = (Returns rpt, s')"
    and iff: "\<forall>x. map_of (Nodes (rp_Container rpt)) x \<noteq> None \<longleftrightarrow>
         (\<exists>k c. x = containerIDToNodeID k \<and> containers ?s k = Some c \<and> State c \<in> {Running, Stopped})"
    using report_run [OF demo_report_hyps(1,2) h, where tid = 1] by (elim exE conjE)
  from iff have "map_of (Nodes (rp_Container rpt)) (containerIDToNodeID ''c1'') \<noteq> None" by force
  with run report_references [OF run] show ?thesis unfolding n by auto
qed

end
