(* ===== verification/Report_Wire.thy ===== *)
theory Report_Wire
  imports Plugin_Props Report_Types
begin

text \<open>
  The report as the bytes that Scope receives, and requests as the bytes that it sends. What a
  reader of the bytes finds is looked up along paths of member names (\<open>json_at\<close>).
\<close>

section \<open>Looking into a value\<close>

fun json_member :: "string \<Rightarrow> json \<Rightarrow> json option" where
  "json_member k (JObj kvs) = map_of kvs k"
| "json_member k _ = None"

fun json_at :: "string list \<Rightarrow> json \<Rightarrow> json option" where
  "json_at [] v = Some v"
| "json_at (k # ks) v = (case json_member k v of None \<Rightarrow> None | Some u \<Rightarrow> json_at ks u)"

lemma json_at_append: "json_at (ks @ ls) v = (case json_at ks v of None \<Rightarrow> None | Some u \<Rightarrow> json_at ls u)"
  by (induction ks v rule: json_at.induct) (auto split: option.split)

text \<open>Reading keeps the members whose names are ASCII.\<close>

lemma map_of_valid:
  assumes "\<forall>k \<in> set (map fst kvs). ascii k"
  shows "map_of (map (\<lambda>kv. (to_valid (fst kv), valid_json (snd kv))) kvs) k = map_option valid_json (map_of kvs k)"
  using assms by (induction kvs) auto

lemma map_of_sort_key:
  assumes "distinct (map fst m)"
  shows "map_of (sort_key fst m) k = map_of m k"
proof -
  from assms have "distinct (map fst (sort_key fst m))" by (simp add: distinct_map)
  with assms have "map_of (sort_key fst m) k = Some v \<longleftrightarrow> map_of m k = Some v" for v
    by (simp add: map_of_eq_Some_iff)
  then show ?thesis by (metis not_Some_eq)
qed

lemma map_of_enc: "map_of (map (\<lambda>(k, x). (k, enc x)) m) k = map_option enc (map_of m k)"
  by (induction m) auto

lemma member_map [simp]:
  assumes "distinct (map fst m)" and "\<forall>k \<in> set (map fst m). ascii k"
  shows "json_member k (valid_json (encode_map enc m)) = map_option (valid_json \<circ> enc) (map_of m k)"
proof -
  have "\<forall>k \<in> set (map fst (map (\<lambda>(k, x). (k, enc x)) (sort_key fst m))). ascii k" using assms(2) by auto
  from map_of_valid [OF this, of k] assms(1) show ?thesis
    by (simp add: encode_map_def map_of_enc map_of_sort_key option.map_comp)
qed

section \<open>Where a reader finds the parts of a report\<close>

lemma member_report:
  "json_at (''Container'' # ''nodes'' # ks) (valid_json (encode_report zone r)) =
     json_at ks (valid_json (encode_map (encode_node zone) (Nodes (rp_Container r))))"
  "json_at (''Container'' # ''controls'' # ks) (valid_json (encode_report zone r)) =
     json_at ks (valid_json (encode_map encode_control (Controls (rp_Container r))))"
  "json_at (''Container'' # ''metadata_templates'' # k # ks) (valid_json (encode_report zone r)) =
     json_at (k # ks) (valid_json (encode_map encode_metadataTemplate (MetadataTemplates (rp_Container r))))"
  by (simp_all add: encode_report_def encode_topology_def omit_def ascii_def encode_map_def)

lemma member_node:
  "json_at (''latestControls'' # k # ks) (valid_json (encode_node zone n)) =
     json_at (k # ks) (valid_json (encode_map (encode_controlEntry zone) (LatestControls n)))"
  "json_at (''latest'' # k # ks) (valid_json (encode_node zone n)) =
     json_at (k # ks) (valid_json (encode_map (encode_stringEntry zone) (Latest n)))"
  by (simp_all add: encode_node_def omit_def ascii_def encode_map_def)

lemma at_map:
  assumes "distinct (map fst m)" and "\<forall>k \<in> set (map fst m). ascii k"
  shows "json_at (k # ks) (valid_json (encode_map enc m)) =
    (case map_of m k of None \<Rightarrow> None | Some x \<Rightarrow> json_at ks (valid_json (enc x)))"
  by (simp add: member_map [OF assms] del: map_map split: option.split)

lemma at_leaf:
  "json_at [''value'', ''dead''] (valid_json (encode_controlEntry zone ce)) = Some (JBool (cd_Dead (ce_Value ce)))"
  "json_at [''value''] (valid_json (encode_stringEntry zone se)) = Some (JStr (to_valid (se_Value se)))"
  "json_at [''timestamp''] (valid_json (encode_stringEntry zone se)) =
     Some (JStr (to_valid (RFC3339Nano (zone (se_Timestamp se)) (se_Timestamp se))))"
  "json_at [''id''] (valid_json (encode_control c)) = Some (JStr (to_valid (ct_ID c)))"
  by (simp_all add: encode_controlEntry_def encode_controlData_def encode_stringEntry_def encode_control_def
      encode_bool_def encode_string_def encode_time_def to_valid_ascii)

declare json_at.simps(2) [simp del]

section \<open>The report as Scope reads it\<close>

lemma ascii_nodeID [simp]: "ascii (containerIDToNodeID k) = ascii k"
  by (simp add: containerIDToNodeID_def nodeSuffix_def)

definition control_names :: "string list" where
  "control_names = [''slow'', ''medium'', ''fast'', ''pkt-drop-low'', ''clear'']"

lemma control_keys:
  "distinct (map fst (getTrafficControls E tid))" "\<forall>k \<in> set (map fst (getTrafficControls E tid)). ascii k"
  "distinct (map fst (getTrafficNodeControls E tid ts dead))"
  "\<forall>k \<in> set (map fst (getTrafficNodeControls E tid ts dead)). ascii k"
  by (simp_all add: control_maps control_lists networkControlTablePrefix_def)

lemma control_found:
  assumes "x \<in> set control_names"
  shows "\<exists>c. map_of (getTrafficControls E tid) (networkControlTablePrefix @ x) = Some c
      \<and> ct_ID c = networkControlTablePrefix @ x"
    and "map_of (getTrafficNodeControls E tid ts dead) (networkControlTablePrefix @ x) =
      Some \<lparr>ce_Timestamp = ts, ce_Value = \<lparr>cd_Dead = dead\<rparr>\<rparr>"
  using assms by (auto simp: control_maps control_lists control_names_def networkControlTablePrefix_def)

lemma ascii_control: "x \<in> set control_names \<Longrightarrow> ascii (networkControlTablePrefix @ x)"
  by (auto simp: control_names_def networkControlTablePrefix_def)

lemma wire_control:
  assumes "x \<in> set control_names" and "Controls (rp_Container r) = getTrafficControls E tid"
  shows "json_at [''Container'', ''controls'', networkControlTablePrefix @ x, ''id''] (valid_json (encode_report zone r)) =
    Some (JStr (networkControlTablePrefix @ x))"
proof -
  obtain c where "map_of (getTrafficControls E tid) (networkControlTablePrefix @ x) = Some c"
    and "ct_ID c = networkControlTablePrefix @ x" using control_found(1) [OF assms(1)] by blast
  with ascii_control [OF assms(1)] show ?thesis
    by (simp add: member_report assms(2) at_map [OF control_keys(1,2)] at_leaf del: ascii_simps)
qed

text \<open>What the JSON form of a node says.\<close>

lemma wire_node:
  assumes "node_shows E tid ts c d n"
  shows "json_at [''latest'', networkControlTablePrefix @ ''dst-pod'', ''value''] (valid_json (encode_node zone n)) =
      Some (JStr (to_valid (fst (parsePodName (dc_Name d)))))"
    and "json_at [''latest'', networkControlTablePrefix @ ''dst-pod'', ''timestamp''] (valid_json (encode_node zone n)) =
      Some (JStr (RFC3339Nano (zone ts) ts))"
    and "x \<in> set control_names \<Longrightarrow>
      json_at [''latestControls'', networkControlTablePrefix @ x, ''value'', ''dead''] (valid_json (encode_node zone n)) =
      Some (JBool (State c = Stopped))"
proof -
  from assms obtain l p where n: "LatestControls n = getTrafficNodeControls E tid ts (State c = Stopped)"
    "Latest n = [(networkControlTablePrefix @ ''dst-pod'', \<lparr>se_Timestamp = ts, se_Value = fst (parsePodName (dc_Name d))\<rparr>),
       (networkControlTablePrefix @ ''net-bandwidth'', \<lparr>se_Timestamp = ts, se_Value = Itoa l\<rparr>),
       (networkControlTablePrefix @ ''net-packet'', \<lparr>se_Timestamp = ts, se_Value = Itoa p\<rparr>)]"
    unfolding node_shows_def by blast
  have keys: "distinct (map fst (Latest n))" "\<forall>k \<in> set (map fst (Latest n)). ascii k"
    by (simp_all add: n networkControlTablePrefix_def)
  show "json_at [''latest'', networkControlTablePrefix @ ''dst-pod'', ''value''] (valid_json (encode_node zone n)) =
      Some (JStr (to_valid (fst (parsePodName (dc_Name d)))))"
    and "json_at [''latest'', networkControlTablePrefix @ ''dst-pod'', ''timestamp''] (valid_json (encode_node zone n)) =
      Some (JStr (RFC3339Nano (zone ts) ts))"
    by (simp_all add: member_node at_map [OF keys] at_leaf) (simp_all add: n at_leaf)
  show "json_at [''latestControls'', networkControlTablePrefix @ x, ''value'', ''dead''] (valid_json (encode_node zone n)) =
      Some (JBool (State c = Stopped))" if "x \<in> set control_names"
    by (simp add: member_node n at_map [OF control_keys(3,4)] control_found(2) [OF that] at_leaf)
qed

text \<open>What Scope should read about a container.\<close>

definition node_says :: "int \<Rightarrow> Container \<Rightarrow> docker_container \<Rightarrow> json \<Rightarrow> bool" where
  "node_says ts c d u \<longleftrightarrow>
     json_at [''latest'', networkControlTablePrefix @ ''dst-pod'', ''value''] u = Some (JStr (to_valid (fst (parsePodName (dc_Name d)))))
     \<and> (\<exists>t. json_at [''latest'', networkControlTablePrefix @ ''dst-pod'', ''timestamp''] u = Some (JStr t) \<and> read_rfc3339 t = ts)
     \<and> list_all (\<lambda>x. json_at [''latestControls'', networkControlTablePrefix @ x, ''value'', ''dead''] u =
          Some (JBool (State c = Stopped))) control_names"

lemma wire_nodes:
  assumes "distinct (map fst (Nodes (rp_Container r)))"
    and "\<forall>x. map_of (Nodes (rp_Container r)) x \<noteq> None \<longrightarrow> ascii x"
  shows "json_at (''Container'' # ''nodes'' # x # ks) (valid_json (encode_report zone r)) =
    (case map_of (Nodes (rp_Container r)) x of None \<Rightarrow> None | Some n \<Rightarrow> json_at ks (valid_json (encode_node zone n)))"
proof -
  have "\<forall>k \<in> set (map fst (Nodes (rp_Container r))). ascii k" using assms(2) by (auto simp: map_of_eq_None_iff)
  with assms(1) show ?thesis by (simp add: member_report at_map)
qed

text \<open>
  C5: the report as Scope reads it. In every state of the plugin, while Docker answers and the
  clock and the time zone are ordinary ones, the request \<open>/report\<close> is answered with status 200
  and bytes that are one JSON text. A reader of the bytes finds a node for the running and the
  stopped containers and for no others, with the name of the pod, with the instant at which the
  report was made, to the nanosecond, and with the five controls, dead for a stopped container
  and alive for a running one; and it finds each of these controls defined under its ID.
\<close>

theorem report_on_the_wire:
  assumes "reachable E (Up pc s)" and "rand_spec E" and "docker_up E" and "range_order ids (containers s)"
    and "inspectable E D (containers s)"
    and "ts = fst (time_Now E (world s))" and "year_ok (local_offset E ts) ts"
    and "60 dvd local_offset E ts" and "\<bar>local_offset E ts\<bar> < 360000"
    and "\<forall>k c. containers s k = Some c \<longrightarrow> ascii k"
  shows "\<exists>raw s' v. serve E tid ids (HttpRequest ''/report'' body) s =
      (Returns (Answered \<lparr>StatusCode = 200, Body = raw\<rparr>), s') \<and> containers s' = containers s
    \<and> read_json (raw, None) = Inr v
    \<and> (\<forall>x. json_at [''Container'', ''nodes'', x] v \<noteq> None \<longleftrightarrow>
         (\<exists>k c. x = containerIDToNodeID k \<and> containers s k = Some c \<and> State c \<in> {Running, Stopped}))
    \<and> (\<forall>k c u. containers s k = Some c \<and> json_at [''Container'', ''nodes'', containerIDToNodeID k] v = Some u \<longrightarrow>
         node_says ts c (D k) u)
    \<and> list_all (\<lambda>x. json_at [''Container'', ''controls'', networkControlTablePrefix @ x, ''id''] v =
         Some (JStr (networkControlTablePrefix @ x))) control_names"
proof -
  have free: "\<not> lock s" using assms(1) by (rule plugin_inv_free [OF reachable_Up])
  let ?zone = "local_offset E"
  obtain rpt s' where raw: "RawReport E tid ids s = (Returns (Inr (json_text (encode_report ?zone rpt))), s')"
    and s': "containers s' = containers s" and dn: "distinct (map fst (Nodes (rp_Container rpt)))"
    and iff: "\<forall>x. map_of (Nodes (rp_Container rpt)) x \<noteq> None \<longleftrightarrow>
         (\<exists>k c. x = containerIDToNodeID k \<and> containers s k = Some c \<and> State c \<in> {Running, Stopped})"
    and sh: "\<forall>k c n. containers s k = Some c \<and> map_of (Nodes (rp_Container rpt)) (containerIDToNodeID k) = Some n \<longrightarrow>
         node_shows E tid ts c (D k) n"
    and ctl: "Controls (rp_Container rpt) = getTrafficControls E tid"
    using report_run [OF assms(2,3) free assms(4,5) assms(7) [unfolded assms(6)], where tid = tid]
    unfolding assms(6) [symmetric] by (elim exE conjE)
  let ?v = "valid_json (encode_report ?zone rpt)"
  have asc: "\<forall>x. map_of (Nodes (rp_Container rpt)) x \<noteq> None \<longrightarrow> ascii x"
    using iff assms(10) by auto
  note at = wire_nodes [OF dn asc, where zone = "local_offset E"]
  have nodes: "json_at [''Container'', ''nodes'', x] ?v =
      map_option (\<lambda>n. valid_json (encode_node ?zone n)) (map_of (Nodes (rp_Container rpt)) x)" for x
    by (simp add: at split: option.split)
  have says: "node_says ts c (D k) u"
    if "containers s k = Some c" "json_at [''Container'', ''nodes'', containerIDToNodeID k] ?v = Some u" for k c u
  proof -
    from that(2) obtain n where n: "map_of (Nodes (rp_Container rpt)) (containerIDToNodeID k) = Some n"
      and u: "u = valid_json (encode_node ?zone n)" unfolding nodes by blast
    from sh that(1) n have "node_shows E tid ts c (D k) n" by blast
    from wire_node [OF this, where zone = "local_offset E"] show ?thesis
      by (simp add: node_says_def u list_all_iff read_RFC3339Nano [OF assms(7-9)])
  qed
  have "serve E tid ids (HttpRequest ''/report'' body) s =
      (Returns (Answered \<lparr>StatusCode = 200, Body = json_text (encode_report ?zone rpt)\<rparr>), s')"
    using raw by (simp add: Plugin_report_def recovered_def StatusOK_def go_run)
  moreover have "read_json (json_text (encode_report ?zone rpt), None) = Inr ?v" by simp
  moreover have "\<forall>x. json_at [''Container'', ''nodes'', x] ?v \<noteq> None \<longleftrightarrow>
      (\<exists>k c. x = containerIDToNodeID k \<and> containers s k = Some c \<and> State c \<in> {Running, Stopped})"
    using iff unfolding nodes by (simp add: map_option_is_None)
  moreover have "list_all (\<lambda>x. json_at [''Container'', ''controls'', networkControlTablePrefix @ x, ''id''] ?v =
      Some (JStr (networkControlTablePrefix @ x))) control_names"
    using wire_control [OF _ ctl] by (simp add: list_all_iff)
  ultimately show ?thesis using says s' by blast
qed

theorem report_on_the_wire_witness:
  "\<exists>raw s' v u t. serve demo_E 1 [''c1''] (HttpRequest ''/report'' ([], None)) demo_synced =
      (Returns (Answered \<lparr>StatusCode = 200, Body = raw\<rparr>), s') \<and> read_json (raw, None) = Inr v
    \<and> json_at [''Container'', ''nodes'', ''c1;<container>''] v = Some u
    \<and> json_at [''latest'', ''network-control-table-dst-pod'', ''timestamp''] u = Some (JStr t)
    \<and> read_rfc3339 t = 1500000000000000000"
proof -
  have n: "containerIDToNodeID ''c1'' = ''c1;<container>''" by (simp add: containerIDToNodeID_def nodeSuffix_def)
  have c: "containers demo_synced ''c1'' = Some \<lparr>State = Running, PID = 42\<rparr>" by (simp add: demo_synced_def)
  have h: "range_order [''c1''] (containers demo_synced)" "inspectable demo_E demo_D (containers demo_synced)"
    by (auto simp: demo_synced_def range_order_def inspectable_def demo_D_def demo_inspect_def split: if_splits)
  have t: "1500000000000000000 = fst (time_Now demo_E (world demo_synced))"
    "year_ok (local_offset demo_E 1500000000000000000) 1500000000000000000"
    "60 dvd local_offset demo_E 1500000000000000000" "\<bar>local_offset demo_E 1500000000000000000\<bar> < 360000"
    "\<forall>k c. containers demo_synced k = Some c \<longrightarrow> ascii k"
    using demo_report_hyps(5) by (auto simp: demo_synced_def split: if_splits)
  obtain raw s' v where run: "serve demo_E 1 [''c1''] (HttpRequest ''/report'' ([], None)) demo_synced =
      (Returns (Answered \<lparr>StatusCode = 200, Body = raw\<rparr>), s')" "read_json (raw, None) = Inr v"
    and iff: "\<forall>x. json_at [''Container'', ''nodes'', x] v \<noteq> None \<longleftrightarrow>
         (\<exists>k c. x = containerIDToNodeID k \<and> containers demo_synced k = Some c \<and> State c \<in> {Running, Stopped})"
    and says: "\<forall>k c u. containers demo_synced k = Some c
         \<and> json_at [''Container'', ''nodes'', containerIDToNodeID k] v = Some u \<longrightarrow> node_says 1500000000000000000 c (demo_D k) u"
    using report_on_the_wire [OF demo_reachable demo_report_hyps(1,2) h t, where tid = 1 and body = "([], None)"]
    by (elim exE conjE)
  from iff c have "json_at [''Container'', ''nodes'', containerIDToNodeID ''c1''] v \<noteq> None" by fastforce
  then obtain u where u: "json_at [''Container'', ''nodes'', containerIDToNodeID ''c1''] v = Some u" by blast
  with says c have "node_says 1500000000000000000 \<lparr>State = Running, PID = 42\<rparr> (demo_D ''c1'') u" by blast
  then obtain t where "json_at [''latest'', ''network-control-table-dst-pod'', ''timestamp''] u = Some (JStr t)"
    "read_rfc3339 t = 1500000000000000000"
    by (auto simp: node_says_def networkControlTablePrefix_def)
  with run u show ?thesis unfolding n by blast
qed

end
