(* ===== verification/Go_Json_Cut.thy ===== *)
theory Go_Json_Cut
  imports Go_Json_Text
begin

text \<open>
  A text that was cut off. A value that ends with its bracket is complete only when that bracket
  has been read: no proper prefix of the text of an array or an object is read as a value.

  \<open>close\<close> finds the end of such a value by counting brackets and skipping strings. The reader stops
  where \<open>close\<close> does, and \<open>close\<close> does not look beyond that place.
\<close>

datatype scan_mode = Plain | InString | Escaped

fun close :: "scan_mode \<Rightarrow> nat \<Rightarrow> string \<Rightarrow> string option" where
  "close m d [] = None"
| "close Plain d (c # r) =
     (if c = CHR 0x22 then close InString d r
      else if c = CHR ''['' \<or> c = CHR ''{'' then close Plain (Suc d) r
      else if c = CHR '']'' \<or> c = CHR ''}'' then (if d \<le> 1 then Some r else close Plain (d - 1) r)
      else close Plain d r)"
| "close InString d (c # r) =
     (if c = CHR 0x22 then close Plain d r
      else if c = CHR 0x5C then close Escaped d r
      else close InString d r)"
| "close Escaped d (c # r) = close InString d r"

lemma close_append: "close m d s = Some r \<Longrightarrow> close m d (s @ t) = Some (r @ t)"
  by (induction m d s rule: close.induct) (auto split: if_splits)

section \<open>Strings\<close>

definition unquoted :: "string \<Rightarrow> bool" where
  "unquoted s \<longleftrightarrow> CHR 0x22 \<notin> set s \<and> CHR 0x5C \<notin> set s"

lemma close_unquoted: "unquoted u \<Longrightarrow> close InString d (u @ r) = close InString d r"
  by (induction u) (auto simp: unquoted_def)

lemma close_hex: "scan_hex n acc s = Parsed u r \<Longrightarrow> close InString d s = close InString d r"
proof (induction n acc s rule: scan_hex.induct)
  case (3 n acc c s)
  then have "c \<noteq> CHR 0x22" "c \<noteq> CHR 0x5C" by (auto simp: hex_value_def)
  with 3 show ?case by (auto split: option.splits)
qed auto

lemma close_unit: "next_unit s = Some (u, r) \<Longrightarrow> close InString d s = close InString d r"
  by (auto simp: next_unit_def split: list.splits if_splits parsed.splits dest: close_hex)

lemma close_decode: "decode_unit u r = (x, r') \<Longrightarrow> close InString d r = close InString d r'"
  by (auto simp: decode_unit_def split: if_splits option.splits dest: close_unit)

lemma bytes_match_unquoted: "bytes_match rs s \<Longrightarrow> list_all (\<lambda>(lo, hi). 0x80 \<le> lo) rs \<Longrightarrow> unquoted (take (length rs) s)"
  by (induction rs s rule: bytes_match.induct) (auto simp: unquoted_def byte_in_def)

lemma rune_unquoted:
  assumes "c \<noteq> CHR 0x22" and "c \<noteq> CHR 0x5C"
  shows "unquoted (take (rune_len (c # s)) (c # s))"
proof (cases "continuation c")
  case None
  then show ?thesis by (simp add: rune_len.simps unquoted_def)
next
  case (Some rs)
  then have "list_all (\<lambda>(lo, hi). 0x80 \<le> lo) rs" by (auto simp: continuation_def Let_def split: if_splits)
  with Some assms bytes_match_unquoted [of rs s] show ?thesis by (auto simp: rune_len.simps unquoted_def)
qed

lemma close_string: "scan_string s = Parsed x r \<Longrightarrow> close InString d s = close Plain d r"
proof (induction "length s" arbitrary: s x r rule: less_induct)
  case less
  from less.prems obtain c t where s: "s = c # t" by (cases s) (simp_all add: scan_string.simps)
  consider (quote) "c = CHR 0x22" | (escape) "c = CHR 0x5C" | (rune) "c \<noteq> CHR 0x22" "c \<noteq> CHR 0x5C" by blast
  then show ?case
  proof cases
    case quote
    with less.prems s show ?thesis by (simp add: scan_string.simps)
  next
    case escape
    with less.prems s obtain e t' where t: "t = e # t'" by (cases t) (simp_all add: scan_string.simps)
    show ?thesis
    proof (cases "e = CHR ''u''")
      case True
      with less.prems s t escape obtain u r1 y r2 z where "scan_hex 4 0 t' = Parsed u r1" "decode_unit u r1 = (y, r2)"
        "scan_string r2 = Parsed z r"
        by (subst (asm) scan_string.simps) (auto simp: map_parsed_Parsed split: parsed.splits prod.splits)
      with less.hyps [of r2 z r] scan_hex_shorter [of 4 0 t' u r1] decode_unit_shorter [of u r1 y r2] s t escape
        close_hex [of 4 0 t' u r1 d] close_decode [of u r1 y r2 d]
      show ?thesis by simp
    next
      case False
      with less.prems s t escape obtain z where "scan_string t' = Parsed z r"
        by (subst (asm) scan_string.simps) (auto simp: map_parsed_Parsed split: option.splits)
      with less.hyps [of t' z r] s t escape show ?thesis by simp
    qed
  next
    case rune
    let ?n = "rune_len s"
    define m where "m = (if ?n = 0 then 1 else ?n)"
    from less.prems s rune obtain z where z: "scan_string (drop m s) = Parsed z r"
      by (subst (asm) scan_string.simps) (auto simp: map_parsed_Parsed Let_def m_def split: if_splits)
    have "unquoted (take m s)" using rune rune_unquoted [OF rune, of t] by (auto simp: m_def s unquoted_def)
    from close_unquoted [OF this, of d "drop m s"] have "close InString d s = close InString d (drop m s)" by simp
    with less.hyps [OF _ z] show ?thesis by (simp add: m_def s)
  qed
qed

section \<open>Values\<close>

lemma close_space: "close Plain d (skip_space s) = close Plain d s"
  by (induction s) (auto simp: skip_space_def is_space_def)

lemma close_skipped: "skip_space s = c # r \<Longrightarrow> close Plain d s = close Plain d (c # r)"
  by (metis close_space)

definition bracket_free :: "string \<Rightarrow> bool" where
  "bracket_free s \<longleftrightarrow> set s \<inter> set (CHR 0x22 # ''[]{}'') = {}"

lemma close_free: "bracket_free u \<Longrightarrow> close Plain d (u @ r) = close Plain d r"
  by (induction u) (auto simp: bracket_free_def)

lemma scan_number_free: "scan_number st s = Parsed x r \<Longrightarrow> s = x @ r \<and> bracket_free x"
proof (induction s arbitrary: st x)
  case Nil
  then show ?case by (simp add: bracket_free_def split: if_splits)
next
  case (Cons c s)
  show ?case
  proof (cases "num_next st c")
    case None
    with Cons.prems show ?thesis by (simp add: bracket_free_def split: if_splits)
  next
    case (Some st')
    then have "c \<notin> set (CHR 0x22 # ''[]{}'')"
      by (cases st) (auto simp: is_digit_def digit_val_def split: if_splits)
    with Some Cons show ?thesis by (fastforce simp: map_parsed_Parsed bracket_free_def)
  qed
qed

lemma scan_literal_free: "scan_literal l s = Parsed x r \<Longrightarrow> s = l @ r"
  by (induction l s rule: scan_literal.induct) (auto split: if_splits)

lemma close_scalar:
  assumes "scan_scalar c s = Parsed v r" and "c \<noteq> CHR ''[''" and "c \<noteq> CHR ''{''"
  shows "close Plain d (c # s) = close Plain d r"
proof -
  consider (string) x where "c = CHR 0x22" "scan_string s = Parsed x r"
    | (literal) l where "c \<notin> set (CHR 0x22 # ''[]{}'')" "bracket_free l" "s = l @ r"
  proof (cases "c = CHR 0x22 \<or> c = CHR ''t'' \<or> c = CHR ''f'' \<or> c = CHR ''n''")
    case True
    with assms(1) show thesis
      by (elim disjE) (auto simp: scan_scalar_def map_parsed_Parsed bracket_free_def
          dest!: scan_literal_free intro: string literal [of "''rue''"] literal [of "''alse''"] literal [of "''ull''"])
  next
    case False
    with assms(1) obtain st t where "num_start c = Some st" "scan_number st s = Parsed t r"
      by (auto simp: scan_scalar_def map_parsed_Parsed split: option.splits)
    moreover from this have "c \<notin> set (CHR 0x22 # ''[]{}'')"
      by (auto simp: num_start_def is_digit_def digit_val_def split: if_splits)
    ultimately show thesis using scan_number_free literal by blast
  qed
  then show ?thesis
  proof cases
    case string
    then show ?thesis by (simp add: close_string)
  next
    case literal
    with close_free [OF literal(2)] show ?thesis by simp
  qed
qed

text \<open>The reader stops where the brackets close.\<close>

definition opens :: "string \<Rightarrow> bool" where
  "opens s \<longleftrightarrow> (\<exists>c r. skip_space s = c # r \<and> (c = CHR ''['' \<or> c = CHR ''{''))"

lemma parse_close:
  "parse_value st s = Parsed v r \<Longrightarrow> st \<noteq> [] \<or> opens s \<Longrightarrow> close Plain (length st) s = Some r"
  "end_value st x s = Parsed v r \<Longrightarrow> (if st = [] then r = s else close Plain (length st) s = Some r)"
  "parse_key st kvs s = Parsed v r \<Longrightarrow> close Plain (Suc (length st)) s = Some r"
proof (induction st s and st x s and st kvs s arbitrary: v r and v r and v r rule: parse_value_end_value_parse_key.induct)
  case (1 st s)
  from 1(6) obtain c t where s: "skip_space s = c # t" by (cases "skip_space s") (simp_all add: parse_value.simps [of st s])
  consider (arr) "c = CHR ''[''" | (obj) "c = CHR ''{''" | (scalar) "c \<noteq> CHR ''[''" "c \<noteq> CHR ''{''" by blast
  then show ?case
  proof cases
    case arr
    with 1(6) s obtain d t' where t: "skip_space t = d # t'" by (cases "skip_space t") (simp_all add: parse_value.simps [of st s])
    have "close Plain (length st) s = close Plain (Suc (length st)) t" by (simp add: close_skipped [OF s] arr)
    moreover have "close Plain (Suc (length st)) t = close Plain (Suc (length st)) (d # t')" by (rule close_skipped [OF t])
    moreover have "(if d = CHR '']'' then end_value st (JArr []) t' else parse_value (OpenArr [] # st) t) = Parsed v r"
      using 1(6) by (simp add: parse_value.simps [of st s] s t arr)
    ultimately show ?thesis
      using 1(1) [OF s arr t, of v r] 1(2) [OF s arr t, of v r] by (cases "d = CHR '']''"; cases st) simp_all
  next
    case obj
    with 1(6) s obtain d t' where t: "skip_space t = d # t'" by (cases "skip_space t") (simp_all add: parse_value.simps [of st s])
    have "close Plain (length st) s = close Plain (Suc (length st)) t" by (simp add: close_skipped [OF s] obj)
    moreover have "close Plain (Suc (length st)) t = close Plain (Suc (length st)) (d # t')" by (rule close_skipped [OF t])
    moreover have "(if d = CHR ''}'' then end_value st (JObj []) t' else parse_key st [] t) = Parsed v r"
      using 1(6) by (simp add: parse_value.simps [of st s] s t obj)
    moreover have "c \<noteq> CHR ''[''" using obj by simp
    ultimately show ?thesis
      using 1(3) [OF s _ obj t, of v r] 1(4) [OF s _ obj t, of v r] by (cases "d = CHR ''}''"; cases st) simp_all
  next
    case scalar
    with 1(6) s obtain w t' where sc: "scan_scalar c t = Parsed w t'" and "end_value st w t' = Parsed v r"
      by (auto simp: parse_value.simps [of st s] split: parsed.splits)
    moreover from 1(7) scalar s have "st \<noteq> []" by (auto simp: opens_def)
    ultimately show ?thesis using 1(5) [OF s scalar sc] close_scalar [OF sc scalar] by (simp add: close_skipped [OF s])
  qed
next
  case (2 x s)
  then show ?case by simp
next
  case (3 vs st x s)
  from 3(3) obtain c t where s: "skip_space s = c # t" by (cases "skip_space s") (simp_all add: end_value.simps)
  from 3(1) [OF s] 3(2) [OF s] 3(3) s show ?case
    by (auto simp: end_value.simps close_skipped [OF s] split: if_splits)
next
  case (4 kvs k st x s)
  from 4(3) obtain c t where s: "skip_space s = c # t" by (cases "skip_space s") (simp_all add: end_value.simps)
  from 4(1) [OF s] 4(2) [OF s] 4(3) s show ?case
    by (auto simp: end_value.simps close_skipped [OF s] split: if_splits)
next
  case (5 st kvs s)
  from 5(2) obtain t k u where s: "skip_space s = CHR 0x22 # t" and k: "scan_string t = Parsed k u"
    by (cases "skip_space s") (auto simp: parse_key.simps [of st kvs s] split: if_splits parsed.splits)
  from 5(2) s k obtain w where u: "skip_space u = CHR '':'' # w" and "parse_value (OpenObj kvs k # st) w = Parsed v r"
    by (cases "skip_space u") (auto simp: parse_key.simps [of st kvs s] split: if_splits)
  with 5(1) [OF s _ k u, of v r] close_string [OF k] show ?case
    by (simp add: close_skipped [OF s] close_skipped [OF u])
qed

text \<open>Nothing is read from less than the whole text.\<close>

lemma cut_text:
  assumes "printable v" and "bracketed v" and "json_text v = p @ q" and "q \<noteq> []"
  shows "\<exists>err. read_json (p, e) = Inl err"
proof (cases "parse_value [] p")
  case (Parsed w r)
  obtain c t where c: "json_text v = c # t" "c = CHR ''['' \<or> c = CHR ''{''" using assms(2) by (cases v) auto
  have "p \<noteq> []" using Parsed by (auto simp: parse_value.simps [of "[]" "[]"] skip_space_def)
  then obtain p' where p: "p = c # p'" using assms(3) c(1) by (cases p) auto
  have o: "opens p" "opens (p @ q)" using c(2) by (auto simp: opens_def p is_space_def)
  from parse_close(1) [OF Parsed] o have "close Plain 0 p = Some r" by simp
  then have "close Plain 0 (p @ q) = Some (r @ q)" by (rule close_append)
  moreover have "parse_value [] (p @ q) = Parsed (valid_json v) []"
    using parse_print [of v "[]"] assms by simp
  from parse_close(1) [OF this] o have "close Plain 0 (p @ q) = Some []" by simp
  ultimately show ?thesis using assms(4) by simp
qed (simp_all add: read_json_def)

end
