(* ===== verification/Request_Wire.thy ===== *)
theory Request_Wire
  imports Plugin_Props Go_Json_Cut
begin

text \<open>
  Control requests as bytes that arrive over a connection: with other bytes after them, or cut off.
\<close>

definition valid_members :: "(string \<times> json) list \<Rightarrow> (string \<times> json) list" where
  "valid_members kvs = map (\<lambda>kv. (to_valid (fst kv), valid_json (snd kv))) kvs"

lemma valid_object: "valid_json (JObj kvs) = JObj (valid_members kvs)"
  by (simp add: valid_members_def)

lemma refused:
  assumes "\<not> lock s" and "decode_request body = Inl err"
  shows "Plugin_control E tid body s = (Returns (http_Error (err_text (unicode_IsPrint E) err) StatusBadRequest), s)"
  using Plugin_control_cases [OF assms(1), of body E tid] assms(2) by (metis sum.distinct(1) sum.inject(1))

text \<open>
  C28: a control request is taken whole or not at all. When the text of a JSON object arrives, what
  it asks for is read from its members, the last string under the name of each field up to case,
  whatever bytes follow it and even if the connection then breaks. When only a part of the text
  arrives, wherever it was cut off, the request is refused with status 400 and nothing is changed.
\<close>

theorem request_on_the_wire:
  assumes "\<not> lock s" and "printable (JObj kvs)"
  shows "decode_request (json_text (JObj kvs) @ rest, e) =
      (if ill_typed (valid_members kvs) then Inl unmarshal_error
       else Inr \<lparr>NodeID = last_string ''NodeID'' (valid_members kvs), Control = last_string ''Control'' (valid_members kvs)\<rparr>)
    \<and> (\<forall>p q. json_text (JObj kvs) = p @ q \<and> q \<noteq> [] \<longrightarrow>
         (\<exists>msg. Plugin_control E tid (p, e) s = (Returns \<lparr>StatusCode = 400, Body = msg\<rparr>, s)))"
proof (intro conjI allI impI)
  have "read_json (json_text (JObj kvs) @ rest, e) = Inr (JObj (valid_members kvs))"
    using assms(2) read_print_prefix [of "JObj kvs"] by (simp add: valid_object del: json_text.simps valid_json.simps)
  from request_decoding(1) [OF this]
  show "decode_request (json_text (JObj kvs) @ rest, e) =
      (if ill_typed (valid_members kvs) then Inl unmarshal_error
       else Inr \<lparr>NodeID = last_string ''NodeID'' (valid_members kvs), Control = last_string ''Control'' (valid_members kvs)\<rparr>)" .
next
  fix p q
  assume "json_text (JObj kvs) = p @ q \<and> q \<noteq> []"
  with cut_text [OF assms(2), of p q e] obtain err where "read_json (p, e) = Inl err" by auto
  then have "decode_request (p, e) = Inl err" by (rule request_decoding(3))
  from refused [OF assms(1) this, of E tid]
  show "\<exists>msg. Plugin_control E tid (p, e) s = (Returns \<lparr>StatusCode = 400, Body = msg\<rparr>, s)"
    by (simp add: http_Error_def StatusBadRequest_def)
qed

theorem request_on_the_wire_witness:
  "decode_request (''{\"NodeID\":\"n\",\"Control\":\"c\"} and more'', Some EOF) = Inr \<lparr>NodeID = ''n'', Control = ''c''\<rparr>
   \<and> (\<exists>msg. Plugin_control demo_E 1 (''{\"NodeID\":\"n\",\"Contr'', None) demo_synced =
        (Returns \<lparr>StatusCode = 400, Body = msg\<rparr>, demo_synced))"
proof -
  let ?kvs = "[(''NodeID'', JStr ''n''), (''Control'', JStr ''c'')]"
  have h: "\<not> lock demo_synced" "printable (JObj ?kvs)" by (simp_all add: demo_synced_def)
  have t: "json_text (JObj ?kvs) = ''{\"NodeID\":\"n\",\"Control\":\"c\"}''" by code_simp
  have v: "valid_members ?kvs = ?kvs" by code_simp
  from request_on_the_wire [OF h, of " '' and more''" "Some EOF"] request_on_the_wire [OF h, of "[]" None demo_E 1]
  show ?thesis unfolding t v
    by (auto simp: ill_typed_def last_string_def strings_for_def List.map_filter_def request_names fold_case_def)
qed

end
