(* ===== verification/Store_Concurrent.thy ===== *)
theory Store_Concurrent
  imports Store Transitions
begin

text \<open>
  The store under concurrent calls. The methods of \<open>store.go\<close> as sequences of small steps that any
  number of goroutines take in any order: a call waits for the mutex, takes it, does its work, the
  iteration of \<open>ForEach\<close> with one step per entry, and releases it on return. The calls that have
  returned are kept in a history with their results.

  The lemmas show that the methods are atomic: at most one goroutine is between \<open>Lock\<close> and \<open>Unlock\<close>, and
  the history is one of a map on which whole operations are carried out one after the other, so the
  other theories may treat a method as one step.
\<close>

section \<open>Calls in small steps\<close>

datatype store_op = OpContainer string | OpSet string Container | OpDelete string | OpForEach

text \<open>The result of a call; for \<open>ForEach\<close> it stands for the arguments of the callbacks.\<close>

datatype store_result = Entry Container bool | NoResult | Visits "(string \<times> Container) list"

text \<open>A goroutine is not in the store, waits for the mutex, works (\<open>range\<close> has the keys still to be
  visited and the entries visited so far), or is about to release the mutex.\<close>

datatype store_goroutine =
    Elsewhere
  | Waiting store_op
  | Working store_op "string list" "(string \<times> Container) list"
  | Leaving store_op store_result

record shared_store =
  mutex :: bool
  entries :: "string \<rightharpoonup> Container"
  goroutines :: "nat \<Rightarrow> store_goroutine"
  history :: "(nat \<times> store_op \<times> store_result) list"

definition move :: "nat \<Rightarrow> store_goroutine \<Rightarrow> shared_store \<Rightarrow> shared_store" where
  "move t g S = S\<lparr>goroutines := (goroutines S)(t := g)\<rparr>"

definition lookup_result :: "(string \<rightharpoonup> Container) \<Rightarrow> string \<Rightarrow> store_result" where
  "lookup_result m k = (case m k of None \<Rightarrow> Entry zero_container False | Some c \<Rightarrow> Entry c True)"

inductive store_step :: "shared_store \<Rightarrow> shared_store \<Rightarrow> bool" where
  call: "goroutines S t = Elsewhere \<Longrightarrow> store_step S (move t (Waiting op) S)"
| Lock: "goroutines S t = Waiting op \<Longrightarrow> \<not> mutex S \<Longrightarrow>
    (if op = OpForEach then range_order ids (entries S) else ids = []) \<Longrightarrow>
    store_step S ((move t (Working op ids []) S)\<lparr>mutex := True\<rparr>)"
| Container: "goroutines S t = Working (OpContainer k) ids vs \<Longrightarrow>
    store_step S (move t (Leaving (OpContainer k) (lookup_result (entries S) k)) S)"
| SetContainer: "goroutines S t = Working (OpSet k c) ids vs \<Longrightarrow>
    store_step S ((move t (Leaving (OpSet k c) NoResult) S)\<lparr>entries := (entries S)(k \<mapsto> c)\<rparr>)"
| DeleteContainer: "goroutines S t = Working (OpDelete k) ids vs \<Longrightarrow>
    store_step S ((move t (Leaving (OpDelete k) NoResult) S)\<lparr>entries := (entries S)(k := None)\<rparr>)"
| callback: "goroutines S t = Working OpForEach (k # ids) vs \<Longrightarrow> entries S k = Some c \<Longrightarrow>
    store_step S (move t (Working OpForEach ids (vs @ [(k, c)])) S)"
| skip: "goroutines S t = Working OpForEach (k # ids) vs \<Longrightarrow> entries S k = None \<Longrightarrow>
    store_step S (move t (Working OpForEach ids vs) S)"
| end_range: "goroutines S t = Working OpForEach [] vs \<Longrightarrow>
    store_step S (move t (Leaving OpForEach (Visits vs)) S)"
| Unlock: "goroutines S t = Leaving op r \<Longrightarrow>
    store_step S ((move t Elsewhere S)\<lparr>mutex := False, history := history S @ [(t, op, r)]\<rparr>)"

definition new_store :: "(string \<rightharpoonup> Container) \<Rightarrow> shared_store" where
  "new_store m = \<lparr>mutex = False, entries = m, goroutines = (\<lambda>_. Elsewhere), history = []\<rparr>"

section \<open>Whole operations on a map\<close>

text \<open>What an operation does to a map, and which results it may have.\<close>

fun apply_op :: "store_op \<Rightarrow> (string \<rightharpoonup> Container) \<Rightarrow> (string \<rightharpoonup> Container)" where
  "apply_op (OpSet k c) m = m(k \<mapsto> c)"
| "apply_op (OpDelete k) m = m(k := None)"
| "apply_op _ m = m"

fun result_ok :: "store_op \<Rightarrow> (string \<rightharpoonup> Container) \<Rightarrow> store_result \<Rightarrow> bool" where
  "result_ok (OpContainer k) m r = (r = lookup_result m k)"
| "result_ok OpForEach m r = (\<exists>vs. r = Visits vs \<and> range_order (map fst vs) m \<and> (\<forall>(k, c) \<in> set vs. m k = Some c))"
| "result_ok _ m r = (r = NoResult)"

fun legal :: "(string \<rightharpoonup> Container) \<Rightarrow> (nat \<times> store_op \<times> store_result) list \<Rightarrow> bool" where
  "legal m [] = True"
| "legal m ((t, op, r) # h) = (result_ok op m r \<and> legal (apply_op op m) h)"

definition replay :: "(nat \<times> store_op \<times> store_result) list \<Rightarrow> (string \<rightharpoonup> Container) \<Rightarrow> (string \<rightharpoonup> Container)" where
  "replay h m = fold (\<lambda>(t, op, r). apply_op op) h m"

lemma legal_snoc: "legal m (h @ [(t, op, r)]) \<longleftrightarrow> legal m h \<and> result_ok op (replay h m) r"
  by (induction m h rule: legal.induct) (auto simp: replay_def)

lemma replay_snoc: "replay (h @ [(t, op, r)]) m = apply_op op (replay h m)"
  by (simp add: replay_def)

text \<open>The operations of \<open>Store\<close> are the same: each has the effect and the result of its whole
  operation when the mutex is free.\<close>

lemma store_operations:
  assumes "\<not> lock s"
  shows "SetContainer k c s = (Returns (), s\<lparr>containers := apply_op (OpSet k c) (containers s)\<rparr>)"
    and "DeleteContainer k s = (Returns (), s\<lparr>containers := apply_op (OpDelete k) (containers s)\<rparr>)"
    and "\<exists>c found. Store_Container k s = (Returns (c, found), s) \<and> result_ok (OpContainer k) (containers s) (Entry c found)"
  using assms by (auto simp: SetContainer_run DeleteContainer_run Store_Container_run lookup_result_def split: option.split)

section \<open>The invariant\<close>

fun inside :: "store_goroutine \<Rightarrow> bool" where
  "inside (Working op ids vs) = True"
| "inside (Leaving op r) = True"
| "inside _ = False"

text \<open>\<open>m\<close> is the map after the operations of the history.\<close>

fun in_progress :: "(string \<rightharpoonup> Container) \<Rightarrow> (string \<rightharpoonup> Container) \<Rightarrow> store_goroutine \<Rightarrow> bool" where
  "in_progress m now (Working op ids vs) \<longleftrightarrow> now = m \<and>
     (op = OpForEach \<longrightarrow> range_order (map fst vs @ ids) m \<and> (\<forall>(k, c) \<in> set vs. m k = Some c))"
| "in_progress m now (Leaving op r) \<longleftrightarrow> now = apply_op op m \<and> result_ok op m r"
| "in_progress m now _ \<longleftrightarrow> True"

definition exclusive :: "shared_store \<Rightarrow> bool" where
  "exclusive S \<longleftrightarrow> (\<forall>t u. inside (goroutines S t) \<longrightarrow> inside (goroutines S u) \<longrightarrow> t = u)
     \<and> (mutex S \<longleftrightarrow> (\<exists>t. inside (goroutines S t)))"

definition store_inv :: "(string \<rightharpoonup> Container) \<Rightarrow> shared_store \<Rightarrow> bool" where
  "store_inv m S \<longleftrightarrow> exclusive S \<and> legal m (history S)
     \<and> (\<forall>t. in_progress (replay (history S) m) (entries S) (goroutines S t))
     \<and> (\<not> mutex S \<longrightarrow> entries S = replay (history S) m)"

lemma move_simps [simp]:
  "mutex (move t g S) = mutex S" "entries (move t g S) = entries S" "history (move t g S) = history S"
  "goroutines (move t g S) = (goroutines S)(t := g)"
  by (simp_all add: move_def)

lemma outside_in_progress: "\<not> inside g \<Longrightarrow> in_progress m now g"
  by (cases g) auto

text \<open>Only the goroutine that moves can be inside afterwards, if it was inside or took the mutex:
  for the others there is nothing to show.\<close>

lemma alone:
  assumes "exclusive S" and "inside (goroutines S t)" and "u \<noteq> t"
  shows "\<not> inside (goroutines S u)"
  using assms unfolding exclusive_def by blast

lemma store_inv_working:
  assumes "store_inv m S" and "inside (goroutines S t)" and "inside g"
    and "in_progress (replay (history S) m) (entries S') g"
    and "goroutines S' = (goroutines S)(t := g)" "mutex S' = mutex S" "history S' = history S"
  shows "store_inv m S'"
proof -
  have ex: "exclusive S" using assms(1) by (simp add: store_inv_def)
  then have "mutex S" using assms(2) unfolding exclusive_def by blast
  moreover have "inside (goroutines S' u) = inside (goroutines S u)" for u using assms(2,3,5) by simp
  then have "exclusive S'" using ex assms(6) unfolding exclusive_def by simp
  moreover have "in_progress (replay (history S) m) (entries S') (goroutines S' u)" for u
    using assms(4,5) alone [OF ex assms(2), of u] by (auto intro: outside_in_progress)
  ultimately show ?thesis using assms(1,6,7) by (simp add: store_inv_def)
qed

lemma call_inv:
  assumes "store_inv m S" and "goroutines S t = Elsewhere"
  shows "store_inv m (move t (Waiting op) S)"
proof -
  have "inside (goroutines (move t (Waiting op) S) u) = inside (goroutines S u)" for u using assms(2) by simp
  then have "exclusive (move t (Waiting op) S)"
    using assms(1) unfolding store_inv_def exclusive_def by simp
  with assms show ?thesis by (simp add: store_inv_def)
qed

lemma Lock_inv:
  assumes "store_inv m S" and "\<not> mutex S" and "if op = OpForEach then range_order ids (entries S) else ids = []"
  shows "store_inv m ((move t (Working op ids []) S)\<lparr>mutex := True\<rparr>)" (is "store_inv m ?S")
proof -
  have out: "\<not> inside (goroutines S u)" for u using assms(1,2) unfolding store_inv_def exclusive_def by blast
  have e: "entries S = replay (history S) m" using assms(1,2) by (simp add: store_inv_def)
  have "exclusive ?S" using out unfolding exclusive_def by (auto split: if_splits)
  moreover have "in_progress (replay (history S) m) (entries S) (goroutines ?S u)" for u
    using out [of u] assms(3) e by (auto intro: outside_in_progress split: if_splits)
  ultimately show ?thesis using assms(1) by (simp add: store_inv_def)
qed

lemma Unlock_inv:
  assumes "store_inv m S" and "goroutines S t = Leaving op r"
  shows "store_inv m ((move t Elsewhere S)\<lparr>mutex := False, history := history S @ [(t, op, r)]\<rparr>)" (is "store_inv m ?S")
proof -
  have ex: "exclusive S" using assms(1) by (simp add: store_inv_def)
  have out: "\<not> inside (goroutines ?S u)" for u using alone [OF ex, of t u] assms(2) by simp
  have p: "entries S = apply_op op (replay (history S) m)" "result_ok op (replay (history S) m) r"
    using assms unfolding store_inv_def by (metis in_progress.simps(2))+
  have "exclusive ?S" using out unfolding exclusive_def by simp
  moreover have "legal m (history ?S)" using assms(1) p(2) by (simp add: store_inv_def legal_snoc)
  moreover have "entries ?S = replay (history ?S) m" using p(1) by (simp add: replay_snoc)
  moreover have "in_progress m' now (goroutines ?S u)" for m' now u using out by (rule outside_in_progress)
  ultimately show ?thesis by (simp add: store_inv_def)
qed

lemma visited_step:
  assumes "in_progress m now (Working OpForEach (k # ids) vs)" and "now k = Some c"
  shows "in_progress m now (Working OpForEach ids (vs @ [(k, c)]))"
  using assms by auto

lemma range_all:
  assumes "in_progress m now (Working OpForEach (k # ids) vs)"
  shows "now k \<noteq> None"
  using assms by (auto simp: range_order_def)

lemma store_step_inv: "store_inv m S \<Longrightarrow> store_step S S' \<Longrightarrow> store_inv m S'"
proof -
  assume inv: "store_inv m S" and step: "store_step S S'"
  have p: "in_progress (replay (history S) m) (entries S) (goroutines S t)" for t
    using inv by (simp add: store_inv_def)
  from step show ?thesis
  proof cases
    case (call t op)
    then show ?thesis using call_inv [OF inv] by simp
  next
    case (Lock t op ids)
    then show ?thesis using Lock_inv [OF inv] by simp
  next
    case (Container t k ids vs)
    with p [of t] show ?thesis
      by (intro store_inv_working [OF inv, where t = t and g = "Leaving (OpContainer k) (lookup_result (entries S) k)"]) simp_all
  next
    case (SetContainer t k c ids vs)
    with p [of t] show ?thesis
      by (intro store_inv_working [OF inv, where t = t and g = "Leaving (OpSet k c) NoResult"]) simp_all
  next
    case (DeleteContainer t k ids vs)
    with p [of t] show ?thesis
      by (intro store_inv_working [OF inv, where t = t and g = "Leaving (OpDelete k) NoResult"]) simp_all
  next
    case (callback t k ids vs c)
    with visited_step [of "replay (history S) m" "entries S" k ids vs c] p [of t] show ?thesis
      by (intro store_inv_working [OF inv, where t = t and g = "Working OpForEach ids (vs @ [(k, c)])"]) simp_all
  next
    case (skip t k ids vs)
    with range_all p [of t] show ?thesis by (metis)
  next
    case (end_range t vs)
    with p [of t] show ?thesis
      by (intro store_inv_working [OF inv, where t = t and g = "Leaving OpForEach (Visits vs)"]) simp_all
  next
    case (Unlock t op r)
    then show ?thesis using Unlock_inv [OF inv] by simp
  qed
qed

lemma new_store_inv: "store_inv m (new_store m)"
  by (simp add: store_inv_def new_store_def exclusive_def replay_def)

interpretation shared: invariant_system "\<lambda>S. S = new_store m" store_step "store_inv m" for m
  by unfold_locales (auto intro: new_store_inv store_step_inv)

section \<open>Atomicity\<close>

text \<open>Whoever is inside can go on, so a goroutine that waits for the mutex waits for steps that can
  be taken.\<close>

lemma inside_can_step:
  assumes "inside (goroutines S t)"
  shows "\<exists>S'. store_step S S' \<and> goroutines S' t \<noteq> goroutines S t"
proof (cases "goroutines S t")
  case (Working op ids vs)
  show ?thesis
  proof (cases op)
    case OpForEach
    show ?thesis
    proof (cases ids)
      case Nil
      with Working OpForEach store_step.end_range [of S t vs] show ?thesis by fastforce
    next
      case (Cons k ks)
      with Working OpForEach store_step.callback [of S t k ks vs] store_step.skip [of S t k ks vs]
      show ?thesis by (cases "entries S k") fastforce+
    qed
  qed (use Working store_step.Container [of S t] store_step.SetContainer [of S t] store_step.DeleteContainer [of S t] in fastforce)+
next
  case (Leaving op r)
  with store_step.Unlock [OF Leaving] show ?thesis by fastforce
qed (use assms in auto)

text \<open>
  C20: the methods of the store are atomic. However the small steps of any number of concurrent calls
  are interleaved, at most one goroutine is between \<open>Lock\<close> and \<open>Unlock\<close>, and it can always go on. The
  calls that have returned, in the order of their returns, have the results that the whole
  operations have when they are carried out one after the other: a lookup sees the last write, and
  \<open>ForEach\<close> visits each entry of one and the same map once. When the mutex is free the map is the
  outcome of these operations.
\<close>

theorem store_atomic:
  assumes "store_step\<^sup>*\<^sup>* (new_store m) S"
  shows "legal m (history S)
    \<and> (\<forall>t u. inside (goroutines S t) \<and> inside (goroutines S u) \<longrightarrow> t = u)
    \<and> (if mutex S then \<exists>t S'. inside (goroutines S t) \<and> store_step S S' \<and> goroutines S' t \<noteq> goroutines S t
       else entries S = replay (history S) m)"
proof -
  from shared.reachable_inv [OF refl assms] have inv: "store_inv m S" .
  have "\<exists>t S'. inside (goroutines S t) \<and> store_step S S' \<and> goroutines S' t \<noteq> goroutines S t" if "mutex S"
    using inv that inside_can_step [of S] unfolding store_inv_def exclusive_def by metis
  with inv show ?thesis by (auto simp: store_inv_def exclusive_def)
qed

definition demo_entry :: Container where
  "demo_entry = \<lparr>State = Running, PID = 42\<rparr>"

definition demo_shared :: shared_store where
  "demo_shared = (move 0 (Leaving (OpSet ''c1'' demo_entry) NoResult) (new_store [''c1'' \<mapsto> demo_entry]))\<lparr>mutex := True\<rparr>"

lemma demo_shared_reached: "store_step\<^sup>*\<^sup>* (new_store Map.empty) demo_shared"
proof -
  let ?op = "OpSet ''c1'' demo_entry"
  let ?S = "new_store Map.empty"
  have a: "store_step ?S (move 0 (Waiting ?op) ?S)"
    by (rule store_step.call) (simp add: new_store_def)
  have b: "store_step (move 0 (Waiting ?op) ?S) ((move 0 (Working ?op [] []) (move 0 (Waiting ?op) ?S))\<lparr>mutex := True\<rparr>)"
    by (rule store_step.Lock) (simp_all add: new_store_def)
  have c: "store_step ((move 0 (Working ?op [] []) (move 0 (Waiting ?op) ?S))\<lparr>mutex := True\<rparr>) demo_shared"
  proof -
    let ?T = "(move 0 (Working ?op [] []) (move 0 (Waiting ?op) ?S))\<lparr>mutex := True\<rparr>"
    have "demo_shared = (move 0 (Leaving ?op NoResult) ?T)\<lparr>entries := (entries ?T)(''c1'' \<mapsto> demo_entry)\<rparr>"
      by (simp add: demo_shared_def new_store_def move_def)
    then show ?thesis using store_step.SetContainer [of ?T 0 "''c1''" demo_entry "[]" "[]"] by simp
  qed
  from a b c show ?thesis by (blast intro: converse_rtranclp_into_rtranclp)
qed

theorem store_atomic_witness:
  "legal Map.empty (history demo_shared) \<and> mutex demo_shared \<and> (\<exists>S'. store_step demo_shared S')"
  using store_atomic [OF demo_shared_reached] by (auto simp: demo_shared_def)

end
