(* ===== verification/Go_Sort.thy ===== *)
theory Go_Sort
  imports Main "HOL-Library.Multiset"
begin

text \<open>
  Package \<open>sort\<close>, which the tools call with a type of their own: \<open>sort.Sort(x)\<close> leaves in \<open>x\<close> a
  permutation in which no element is less than one before it. The order is the client's method
  \<open>Less\<close>; what it has to satisfy is the locale \<open>sort_order\<close>. The algorithm of the library is not
  modelled: \<open>Sort\<close> is an insertion sort, and the locale shows that it has the documented result
  and that there is no other result when elements that are not ordered by \<open>Less\<close> are equal.
\<close>

fun insert_by :: "('a \<Rightarrow> 'a \<Rightarrow> bool) \<Rightarrow> 'a \<Rightarrow> 'a list \<Rightarrow> 'a list" where
  "insert_by lt x [] = [x]"
| "insert_by lt x (y # ys) = (if lt y x then y # insert_by lt x ys else x # y # ys)"

definition Sort :: "('a \<Rightarrow> 'a \<Rightarrow> bool) \<Rightarrow> 'a list \<Rightarrow> 'a list" where
  "Sort lt xs = foldr (insert_by lt) xs []"

text \<open>\<open>sort.Reverse\<close>.\<close>

definition Reverse :: "('a \<Rightarrow> 'a \<Rightarrow> bool) \<Rightarrow> 'a \<Rightarrow> 'a \<Rightarrow> bool" where
  "Reverse lt a b = lt b a"

lemma mset_insert_by [simp]: "mset (insert_by lt x ys) = add_mset x (mset ys)"
  by (induction ys) auto

lemma mset_Sort [simp]: "mset (Sort lt xs) = mset xs"
  by (induction xs) (simp_all add: Sort_def)

lemma set_Sort [simp]: "set (Sort lt xs) = set xs"
  by (rule mset_eq_setD) simp

lemma length_Sort [simp]: "length (Sort lt xs) = length xs"
  by (rule mset_eq_length) simp

definition in_order :: "('a \<Rightarrow> 'a \<Rightarrow> bool) \<Rightarrow> 'a list \<Rightarrow> bool" where
  "in_order lt xs \<longleftrightarrow> sorted_wrt (\<lambda>a b. \<not> lt b a) xs"

locale sort_order =
  fixes lt :: "'a \<Rightarrow> 'a \<Rightarrow> bool"
  assumes less_asym: "lt a b \<Longrightarrow> \<not> lt b a"
    and not_less_trans: "\<not> lt b a \<Longrightarrow> \<not> lt c b \<Longrightarrow> \<not> lt c a"
begin

lemma in_order_insert_by: "in_order lt ys \<Longrightarrow> in_order lt (insert_by lt x ys)"
proof (induction ys)
  case Nil
  then show ?case by (simp add: in_order_def)
next
  case (Cons y ys)
  have ins: "set (insert_by lt x ys) = insert x (set ys)" for ys
    using mset_eq_setD [of "insert_by lt x ys" "x # ys"] by simp
  from Cons show ?case
    by (auto simp: in_order_def ins dest: less_asym not_less_trans)
qed

lemma in_order_Sort: "in_order lt (Sort lt xs)"
  by (induction xs) (simp_all add: Sort_def in_order_insert_by, simp add: in_order_def)

text \<open>Two ordered arrangements of the same elements agree, if elements that are not ordered are
  equal.\<close>

lemma in_order_unique:
  assumes "in_order lt xs" and "in_order lt ys" and "mset xs = mset ys"
    and "\<And>a b. a \<in> set xs \<Longrightarrow> b \<in> set xs \<Longrightarrow> \<not> lt a b \<Longrightarrow> \<not> lt b a \<Longrightarrow> a = b"
  shows "xs = ys"
  using assms
proof (induction xs arbitrary: ys)
  case Nil
  then show ?case by simp
next
  case (Cons x xs)
  then obtain y zs where ys: "ys = y # zs" by (cases ys) auto
  have sub: "x \<in> set ys" "y \<in> set (x # xs)"
    using mset_eq_setD [OF Cons.prems(3)] ys by auto
  have "\<not> lt y x"
    using sub(2) Cons.prems(1) less_asym by (auto simp: in_order_def)
  moreover have "\<not> lt x y"
    using sub(1) Cons.prems(2) ys less_asym by (auto simp: in_order_def)
  ultimately have "x = y" using Cons.prems(4) [of x y] sub(2) by simp
  with Cons.prems ys have "xs = zs"
    by (intro Cons.IH) (auto simp: in_order_def)
  with \<open>x = y\<close> ys show ?case by simp
qed

lemma Sort_unique:
  assumes "in_order lt ys" and "mset ys = mset xs"
    and "\<And>a b. a \<in> set xs \<Longrightarrow> b \<in> set xs \<Longrightarrow> \<not> lt a b \<Longrightarrow> \<not> lt b a \<Longrightarrow> a = b"
  shows "ys = Sort lt xs"
proof (rule in_order_unique [OF assms(1) in_order_Sort])
  show "mset ys = mset (Sort lt xs)" using assms(2) by simp
  show "a = b" if "a \<in> set ys" "b \<in> set ys" "\<not> lt a b" "\<not> lt b a" for a b
    using that assms(3) mset_eq_setD [OF assms(2)] by blast
qed

text \<open>The reverse of such an order is one.\<close>

lemma reverse_order: "sort_order (Reverse lt)"
  by unfold_locales (auto simp: Reverse_def dest: less_asym not_less_trans)

end

end
