(* ===== verification/Cover.thy ===== *)
theory Cover
  imports Go_Prelude Go_Strings Go_Sort "HOL-Library.AList" "HOL-Library.List_Lexorder" "HOL-Library.Char_ord"
begin

text \<open>
  The tool that merges coverage profiles (\<open>tools/cover/cover.go\<close>). It adds up the counts of the
  blocks of several runs of the same program. The parser of profiles belongs to
  \<open>golang.org/x/tools/cover\<close>, which is not part of the repository: it is the parameter \<open>parse\<close>.
  The text of its error, which the tool appends to the message of its panic, is left out.
  Go's \<open>int\<close> has 64 bits here and the sum of two counts wraps around.
\<close>

section \<open>Profiles\<close>

record ProfileBlock =
  StartLine :: int
  StartCol :: int
  EndLine :: int
  EndCol :: int
  NumStmt :: int
  Count :: int

record Profile =
  FileName :: string
  Mode :: string
  Blocks :: "ProfileBlock list"

definition wrap64 :: "int \<Rightarrow> int" where
  "wrap64 x = (x + 2 ^ 63) mod 2 ^ 64 - 2 ^ 63"

definition before :: "ProfileBlock \<Rightarrow> ProfileBlock \<Rightarrow> bool" where
  "before bi bj \<longleftrightarrow> StartLine bi < StartLine bj \<or> StartLine bi = StartLine bj \<and> StartCol bi < StartCol bj"

section \<open>Merging\<close>

text \<open>The loops of \<open>merge\<close> on the blocks from the indices \<open>i\<close> and \<open>j\<close> on.\<close>

fun merge_blocks :: "ProfileBlock list \<Rightarrow> ProfileBlock list \<Rightarrow> go_panic + ProfileBlock list" where
  "merge_blocks [] bjs = Inr bjs"
| "merge_blocks (bi # bis) [] = Inr (bi # bis)"
| "merge_blocks (bi # bis) (bj # bjs) =
     (if StartLine bi = StartLine bj \<and> StartCol bi = StartCol bj then
        (if EndLine bi \<noteq> EndLine bj \<or> EndCol bi \<noteq> EndCol bj \<or> NumStmt bi \<noteq> NumStmt bj
         then Inl (Explicit ''Not run on same source!'')
         else map_sum id (Cons \<lparr>StartLine = StartLine bi, StartCol = StartCol bi, EndLine = EndLine bi,
             EndCol = EndCol bi, NumStmt = NumStmt bi, Count = wrap64 (Count bi + Count bj)\<rparr>)
           (merge_blocks bis bjs))
      else if before bi bj then map_sum id (Cons bi) (merge_blocks bis (bj # bjs))
      else map_sum id (Cons bj) (merge_blocks (bi # bis) bjs))"

definition merge :: "Profile \<Rightarrow> Profile \<Rightarrow> go_panic + Profile" where
  "merge p1 p2 = map_sum id (\<lambda>bs. \<lparr>FileName = FileName p1, Mode = Mode p1, Blocks = bs\<rparr>)
     (merge_blocks (Blocks p1) (Blocks p2))"

section \<open>The program\<close>

definition print_block :: "string \<Rightarrow> ProfileBlock \<Rightarrow> string" where
  "print_block file b = file @ '':'' @ Itoa (StartLine b) @ ''.'' @ Itoa (StartCol b) @ '','' @
     Itoa (EndLine b) @ ''.'' @ Itoa (EndCol b) @ '' '' @ Itoa (NumStmt b) @ '' '' @ Itoa (Count b)"

definition print_profiles :: "Profile list \<Rightarrow> string list" where
  "print_profiles profiles = ''mode: atomic'' #
     concat (map (\<lambda>p. map (print_block (FileName p)) (Blocks p)) profiles)"

definition byFileName_Less :: "Profile \<Rightarrow> Profile \<Rightarrow> bool" where
  "byFileName_Less p q \<longleftrightarrow> FileName p < FileName q"

text \<open>The map \<open>outputProfiles\<close> after one profile of an input.\<close>

definition add_profile :: "Profile \<Rightarrow> (string \<times> Profile) list \<Rightarrow> go_panic + (string \<times> Profile) list" where
  "add_profile ip outs = (case map_of outs (FileName ip) of
      None \<Rightarrow> Inr (AList.update (FileName ip) ip outs)
    | Some op \<Rightarrow> map_sum id (\<lambda>m. AList.update (FileName ip) m outs) (merge op ip))"

fun add_profiles :: "Profile list \<Rightarrow> (string \<times> Profile) list \<Rightarrow> go_panic + (string \<times> Profile) list" where
  "add_profiles [] outs = Inr outs"
| "add_profiles (ip # ips) outs = (case add_profile ip outs of
      Inl p \<Rightarrow> Inl p
    | Inr outs' \<Rightarrow> add_profiles ips outs')"

fun add_inputs ::
  "(string \<Rightarrow> error + Profile list) \<Rightarrow> string list \<Rightarrow> (string \<times> Profile) list \<Rightarrow> go_panic + (string \<times> Profile) list" where
  "add_inputs parse [] outs = Inr outs"
| "add_inputs parse (input # inputs) outs = (case parse input of
      Inl err \<Rightarrow> Inl (Explicit (''Error parsing '' @ input))
    | Inr inputProfiles \<Rightarrow> (case add_profiles inputProfiles outs of
        Inl p \<Rightarrow> Inl p
      | Inr outs' \<Rightarrow> add_inputs parse inputs outs'))"

text \<open>\<open>order\<close> is the order in which \<open>range\<close> visits the map; the result is the printed lines.\<close>

definition cover_main ::
  "(string \<Rightarrow> error + Profile list) \<Rightarrow> ((string \<times> Profile) list \<Rightarrow> string list) \<Rightarrow> string list \<Rightarrow> go_panic + string list" where
  "cover_main parse order args = map_sum id (\<lambda>outs.
     print_profiles (Sort byFileName_Less (map (\<lambda>k. the (map_of outs k)) (order outs))))
     (add_inputs parse args [])"

section \<open>Merging adds up\<close>

text \<open>The blocks of a profile, in the order and without the duplicates that the parser leaves.\<close>

definition ordered :: "ProfileBlock list \<Rightarrow> bool" where
  "ordered bs \<longleftrightarrow> sorted_wrt before bs"

definition start :: "ProfileBlock \<Rightarrow> int \<times> int" where
  "start b = (StartLine b, StartCol b)"

definition block_at :: "ProfileBlock list \<Rightarrow> int \<times> int \<Rightarrow> ProfileBlock option" where
  "block_at bs pos = find (\<lambda>b. start b = pos) bs"

definition same_extent :: "ProfileBlock \<Rightarrow> ProfileBlock \<Rightarrow> bool" where
  "same_extent b c \<longleftrightarrow> EndLine b = EndLine c \<and> EndCol b = EndCol c \<and> NumStmt b = NumStmt c"

definition compatible :: "ProfileBlock list \<Rightarrow> ProfileBlock list \<Rightarrow> bool" where
  "compatible bs cs \<longleftrightarrow> (\<forall>b \<in> set bs. \<forall>c \<in> set cs. start b = start c \<longrightarrow> same_extent b c)"

definition add_blocks :: "ProfileBlock option \<Rightarrow> ProfileBlock option \<Rightarrow> ProfileBlock option" where
  "add_blocks x y = (case (x, y) of
      (None, _) \<Rightarrow> y
    | (_, None) \<Rightarrow> x
    | (Some b, Some c) \<Rightarrow> Some (b\<lparr>Count := wrap64 (Count b + Count c)\<rparr>))"

lemma ordered_simps [simp]:
  "ordered []" "ordered (b # bs) \<longleftrightarrow> (\<forall>c \<in> set bs. before b c) \<and> ordered bs"
  by (simp_all add: ordered_def)

lemma block_at_simps [simp]:
  "block_at [] pos = None"
  "block_at (b # bs) pos = (if start b = pos then Some b else block_at bs pos)"
  by (simp_all add: block_at_def)

lemma add_blocks_simps [simp]:
  "add_blocks None y = y" "add_blocks x None = x"
  "add_blocks (Some b) (Some c) = Some (b\<lparr>Count := wrap64 (Count b + Count c)\<rparr>)"
  by (simp_all add: add_blocks_def split: option.split)

lemma before_trans: "before b c \<Longrightarrow> before c d \<Longrightarrow> before b d"
  unfolding before_def by linarith

lemma before_neq: "before b c \<Longrightarrow> start c \<noteq> start b"
  unfolding before_def start_def by simp linarith

lemma before_total: "\<not> before b c \<Longrightarrow> start b \<noteq> start c \<Longrightarrow> before c b"
  unfolding before_def start_def by simp linarith

lemma before_start: "start b = start c \<Longrightarrow> before b d = before c d"
  unfolding before_def start_def by simp

lemma block_at_none: "\<forall>c \<in> set bs. before b c \<Longrightarrow> block_at bs (start b) = None"
  by (induction bs) (auto dest: before_neq)

lemma start_Count [simp]: "start (b\<lparr>Count := n\<rparr>) = start b"
  by (simp add: start_def)

text \<open>The loop in terms of \<open>start\<close>.\<close>

lemma merge_blocks_Cons:
  "merge_blocks (bi # bis) (bj # bjs) =
     (if start bi = start bj then
        (if same_extent bi bj
         then map_sum id (Cons (bi\<lparr>Count := wrap64 (Count bi + Count bj)\<rparr>)) (merge_blocks bis bjs)
         else Inl (Explicit ''Not run on same source!''))
      else if before bi bj then map_sum id (Cons bi) (merge_blocks bis (bj # bjs))
      else map_sum id (Cons bj) (merge_blocks (bi # bis) bjs))"
  by (cases bi) (simp add: start_def same_extent_def)

declare merge_blocks.simps(3) [simp del]

lemma map_sum_Inr [simp]: "map_sum id f x = Inr y \<longleftrightarrow> (\<exists>z. x = Inr z \<and> y = f z)"
  by (cases x) auto

lemma map_sum_Inl [simp]: "map_sum id f x = Inl p \<longleftrightarrow> x = Inl p"
  by (cases x) auto

lemma merge_induct [case_names left_done right_done same left right]:
  assumes "\<And>bjs. P [] bjs" and "\<And>bi bis. P (bi # bis) []"
    and "\<And>bi bis bj bjs. start bi = start bj \<Longrightarrow> P bis bjs \<Longrightarrow> P (bi # bis) (bj # bjs)"
    and "\<And>bi bis bj bjs. start bi \<noteq> start bj \<Longrightarrow> before bi bj \<Longrightarrow> P bis (bj # bjs) \<Longrightarrow> P (bi # bis) (bj # bjs)"
    and "\<And>bi bis bj bjs. start bi \<noteq> start bj \<Longrightarrow> \<not> before bi bj \<Longrightarrow> P (bi # bis) bjs \<Longrightarrow> P (bi # bis) (bj # bjs)"
  shows "P bis bjs"
proof (induction "length bis + length bjs" arbitrary: bis bjs rule: less_induct)
  case less
  note IH = less
  show ?case
  proof (cases bis)
    case Nil
    then show ?thesis using assms(1) by simp
  next
    case (Cons bi bs)
    show ?thesis
    proof (cases bjs)
      case Nil
      then show ?thesis using assms(2) Cons by simp
    next
      case bj: (Cons bj cs)
      have "P bs cs" "P bs (bj # cs)" "P (bi # bs) cs" by (rule IH; simp add: Cons bj)+
      then show ?thesis unfolding Cons bj using assms(3-5) by blast
    qed
  qed
qed

lemma merge_blocks_starts:
  "merge_blocks bis bjs = Inr out \<Longrightarrow> start ` set out = start ` set bis \<union> start ` set bjs"
proof (induction bis bjs arbitrary: out rule: merge_induct)
  case (same bi bis bj bjs)
  then obtain z where z: "merge_blocks bis bjs = Inr z" "start ` set out = insert (start bi) (start ` set z)"
    by (auto simp: merge_blocks_Cons split: if_splits)
  with same show ?case by simp
next
  case (left bi bis bj bjs)
  then obtain z where "merge_blocks bis (bj # bjs) = Inr z" "out = bi # z" by (auto simp: merge_blocks_Cons)
  with left show ?case by (simp add: insert_commute)
next
  case (right bi bis bj bjs)
  then obtain z where "merge_blocks (bi # bis) bjs = Inr z" "out = bj # z" by (auto simp: merge_blocks_Cons)
  with right show ?case by simp
qed simp_all

text \<open>Against an ordered list the first block is before all blocks of the result.\<close>

lemma before_all:
  assumes "merge_blocks bis bjs = Inr out" and "\<forall>c \<in> set bis \<union> set bjs. before b c"
  shows "\<forall>c \<in> set out. before b c"
proof
  fix c
  assume "c \<in> set out"
  then have "start c \<in> start ` set bis \<union> start ` set bjs" using merge_blocks_starts [OF assms(1)] by blast
  then obtain d where "d \<in> set bis \<union> set bjs" "start c = start d" by blast
  then have "before b c \<longleftrightarrow> before b d" by (simp add: before_def start_def)
  with \<open>d \<in> set bis \<union> set bjs\<close> assms(2) show "before b c" by blast
qed

lemma merge_blocks_ok:
  "ordered bis \<Longrightarrow> ordered bjs \<Longrightarrow> compatible bis bjs \<Longrightarrow>
   \<exists>out. merge_blocks bis bjs = Inr out \<and> ordered out
     \<and> (\<forall>pos. block_at out pos = add_blocks (block_at bis pos) (block_at bjs pos))"
proof (induction bis bjs rule: merge_induct)
  case (left_done bjs)
  then show ?case by simp
next
  case (right_done bi bis)
  then show ?case by simp
next
  case (same bi bis bj bjs)
  then have e: "same_extent bi bj" and c: "compatible bis bjs" by (auto simp: compatible_def)
  from same.prems(1,2) have o: "ordered bis" "ordered bjs" by simp_all
  from same(2) [OF o c] obtain out where out: "merge_blocks bis bjs = Inr out" "ordered out"
      "\<forall>pos. block_at out pos = add_blocks (block_at bis pos) (block_at bjs pos)" by (elim exE conjE)
  let ?b = "bi\<lparr>Count := wrap64 (Count bi + Count bj)\<rparr>"
  have "\<forall>c \<in> set bis \<union> set bjs. before ?b c"
    using same.prems(1,2) before_start [OF same(1)] before_start [OF start_Count] by auto
  from before_all [OF out(1) this] out(2) have "ordered (?b # out)" by simp
  with out e same(1) show ?case by (auto simp: merge_blocks_Cons)
next
  case (left bi bis bj bjs)
  then have c: "compatible bis (bj # bjs)" by (auto simp: compatible_def)
  from left.prems(1) have o: "ordered bis" by simp
  from left(3) [OF o left.prems(2) c] obtain out where out: "merge_blocks bis (bj # bjs) = Inr out" "ordered out"
      "\<forall>pos. block_at out pos = add_blocks (block_at bis pos) (block_at (bj # bjs) pos)" by (elim exE conjE)
  have b: "\<forall>c \<in> set (bj # bjs). before bi c" using left(2) left.prems(2) by (auto intro: before_trans)
  then have "\<forall>c \<in> set bis \<union> set (bj # bjs). before bi c" using left.prems(1) by auto
  from before_all [OF out(1) this] out(2) have "ordered (bi # out)" by simp
  with out left(1,2) block_at_none [OF b] show ?case by (auto simp: merge_blocks_Cons)
next
  case (right bi bis bj bjs)
  then have c: "compatible (bi # bis) bjs" and b0: "before bj bi"
    by (auto simp: compatible_def intro: before_total)
  from right.prems(2) have o: "ordered bjs" by simp
  from right(3) [OF right.prems(1) o c] obtain out where out: "merge_blocks (bi # bis) bjs = Inr out" "ordered out"
      "\<forall>pos. block_at out pos = add_blocks (block_at (bi # bis) pos) (block_at bjs pos)" by (elim exE conjE)
  have b: "\<forall>c \<in> set (bi # bis). before bj c" using b0 right.prems(1) by (auto intro: before_trans)
  then have "\<forall>c \<in> set (bi # bis) \<union> set bjs. before bj c" using right.prems(2) by auto
  from before_all [OF out(1) this] out(2) have "ordered (bj # out)" by simp
  with out right(1,2) block_at_none [OF b] show ?case by (auto simp: merge_blocks_Cons)
qed

lemma merge_blocks_panics:
  "ordered bis \<Longrightarrow> ordered bjs \<Longrightarrow> \<not> compatible bis bjs \<Longrightarrow>
   merge_blocks bis bjs = Inl (Explicit ''Not run on same source!'')"
proof (induction bis bjs rule: merge_induct)
  case (same bi bis bj bjs)
  show ?case
  proof (cases "same_extent bi bj")
    case True
    have "start bi \<noteq> start c" if "c \<in> set bjs" for c
      using same(1) same.prems(2) that before_neq [of bj c] by simp
    moreover have "start b \<noteq> start bj" if "b \<in> set bis" for b
      using same(1) same.prems(1) that before_neq [of bi b] by simp
    ultimately have "\<not> compatible bis bjs" using same.prems(3) True by (auto simp: compatible_def)
    with same True show ?thesis by (simp add: merge_blocks_Cons)
  next
    case False
    with same(1) show ?thesis by (simp add: merge_blocks_Cons)
  qed
next
  case (left bi bis bj bjs)
  have "start bi \<noteq> start c" if "c \<in> set (bj # bjs)" for c
    using left.prems(2) left(1,2) that before_neq [of bi c] before_trans [of bi bj c] by auto
  then have "\<not> compatible bis (bj # bjs)" using left.prems(3) by (auto simp: compatible_def)
  with left show ?case by (simp add: merge_blocks_Cons)
next
  case (right bi bis bj bjs)
  then have "before bj bi" by (auto intro: before_total)
  then have "start b \<noteq> start bj" if "b \<in> set (bi # bis)" for b
    using right.prems(1) that before_neq [of bj b] before_trans [of bj bi b] by auto
  then have "\<not> compatible (bi # bis) bjs" using right.prems(3) by (auto simp: compatible_def)
  with right show ?case by (simp add: merge_blocks_Cons)
qed (auto simp: compatible_def)

lemma merge_blocks_origin:
  "merge_blocks bis bjs = Inr out \<Longrightarrow> b \<in> set out \<Longrightarrow>
   \<exists>c \<in> set bis \<union> set bjs. start c = start b \<and> same_extent c b"
proof (induction bis bjs arbitrary: out rule: merge_induct)
  case (same bi bis bj bjs)
  then obtain z where z: "merge_blocks bis bjs = Inr z" "out = bi\<lparr>Count := wrap64 (Count bi + Count bj)\<rparr> # z"
    by (auto simp: merge_blocks_Cons split: if_splits)
  show ?case
  proof (cases "b \<in> set z")
    case True
    with same(2) [OF z(1)] show ?thesis by auto
  next
    case False
    with same.prems z(2) have "b = bi\<lparr>Count := wrap64 (Count bi + Count bj)\<rparr>" by simp
    then have "start bi = start b \<and> same_extent bi b" by (simp add: same_extent_def)
    then show ?thesis by auto
  qed
next
  case (left bi bis bj bjs)
  then obtain z where z: "merge_blocks bis (bj # bjs) = Inr z" "out = bi # z" by (auto simp: merge_blocks_Cons)
  with left(3) [OF z(1)] left.prems(2) show ?case by (auto simp: same_extent_def)
next
  case (right bi bis bj bjs)
  then obtain z where z: "merge_blocks (bi # bis) bjs = Inr z" "out = bj # z" by (auto simp: merge_blocks_Cons)
  with right(3) [OF z(1)] right.prems(2) show ?case by (auto simp: same_extent_def)
qed (auto simp: same_extent_def)

text \<open>
  Merging two profiles adds them up. For block lists in order, the merge succeeds exactly
  when blocks that start at the same place have the same end and the same number of statements,
  and panics otherwise. The result has the file name and the mode of the first profile, is in
  order again, and has a block at a position exactly if one of the two has: the one block, or the
  block with the sum of the two counts, in 64-bit arithmetic.
\<close>

lemma merge_adds_up:
  assumes "ordered (Blocks p)" and "ordered (Blocks q)"
  shows "if compatible (Blocks p) (Blocks q)
    then \<exists>bs. merge p q = Inr \<lparr>FileName = FileName p, Mode = Mode p, Blocks = bs\<rparr> \<and> ordered bs
      \<and> (\<forall>pos. block_at bs pos = add_blocks (block_at (Blocks p) pos) (block_at (Blocks q) pos))
    else merge p q = Inl (Explicit ''Not run on same source!'')"
  using merge_blocks_ok [OF assms] merge_blocks_panics [OF assms] by (auto simp: merge_def)

definition demo_block :: "int \<Rightarrow> int \<Rightarrow> ProfileBlock" where
  "demo_block l n = \<lparr>StartLine = l, StartCol = 2, EndLine = l + 3, EndCol = 1, NumStmt = 2, Count = n\<rparr>"

definition demo_profile :: "ProfileBlock list \<Rightarrow> Profile" where
  "demo_profile bs = \<lparr>FileName = ''tc.go'', Mode = ''atomic'', Blocks = bs\<rparr>"

lemma merge_adds_up_witness:
  "\<exists>bs. merge (demo_profile [demo_block 1 4, demo_block 9 0]) (demo_profile [demo_block 5 1, demo_block 9 3]) =
      Inr (demo_profile bs) \<and> block_at bs (9, 2) = Some (demo_block 9 3) \<and> block_at bs (5, 2) = Some (demo_block 5 1)"
proof -
  let ?p = "demo_profile [demo_block 1 4, demo_block 9 0]" and ?q = "demo_profile [demo_block 5 1, demo_block 9 3]"
  have o: "ordered (Blocks ?p)" "ordered (Blocks ?q)"
    by (simp_all add: demo_profile_def demo_block_def before_def)
  have "compatible (Blocks ?p) (Blocks ?q)"
    by (simp add: demo_profile_def demo_block_def compatible_def start_def same_extent_def)
  with merge_adds_up [OF o] show ?thesis
    by (auto simp: demo_profile_def demo_block_def start_def wrap64_def)
qed

section \<open>The sums of all inputs\<close>

definition count_at :: "ProfileBlock list \<Rightarrow> int \<times> int \<Rightarrow> int" where
  "count_at bs pos = (case block_at bs pos of None \<Rightarrow> 0 | Some b \<Rightarrow> Count b)"

definition total_count :: "string \<Rightarrow> Profile list \<Rightarrow> int \<times> int \<Rightarrow> int" where
  "total_count f ps pos = (\<Sum>p \<leftarrow> filter (\<lambda>p. FileName p = f) ps. count_at (Blocks p) pos)"

definition inputs :: "(string \<Rightarrow> error + Profile list) \<Rightarrow> string list \<Rightarrow> Profile list" where
  "inputs parse args = concat (map (\<lambda>a. case parse a of Inl _ \<Rightarrow> [] | Inr ps \<Rightarrow> ps) args)"

text \<open>Profiles of the same program: their blocks are in order and those of one file agree.\<close>

definition consistent :: "Profile list \<Rightarrow> bool" where
  "consistent ps \<longleftrightarrow> (\<forall>p \<in> set ps. ordered (Blocks p))
     \<and> (\<forall>p \<in> set ps. \<forall>q \<in> set ps. FileName p = FileName q \<longrightarrow> compatible (Blocks p) (Blocks q))"

lemma wrap64_mod: "wrap64 x mod 2 ^ 64 = x mod 2 ^ 64"
  by (simp add: wrap64_def mod_diff_left_eq)

lemma count_add_blocks:
  assumes "\<forall>pos. block_at bs pos = add_blocks (block_at ps pos) (block_at qs pos)"
  shows "count_at bs pos mod 2 ^ 64 = (count_at ps pos + count_at qs pos) mod 2 ^ 64"
  using spec [OF assms, of pos]
  by (cases "block_at ps pos"; cases "block_at qs pos") (simp_all add: count_at_def wrap64_mod [simplified])

text \<open>What \<open>outputProfiles\<close> holds for a file when the profiles \<open>ps\<close> have been added: a profile in
  order, with the sums of the counts and with blocks that occur in the inputs.\<close>

definition origin :: "Profile list \<Rightarrow> string \<Rightarrow> ProfileBlock \<Rightarrow> bool" where
  "origin ps f b \<longleftrightarrow> (\<exists>q \<in> set ps. FileName q = f \<and> (\<exists>c \<in> set (Blocks q). start c = start b \<and> same_extent c b))"

definition sums_file :: "Profile list \<Rightarrow> string \<Rightarrow> Profile \<Rightarrow> bool" where
  "sums_file ps f p \<longleftrightarrow> FileName p = f \<and> ordered (Blocks p)
     \<and> (\<forall>pos. count_at (Blocks p) pos mod 2 ^ 64 = total_count f ps pos mod 2 ^ 64)
     \<and> (\<forall>b \<in> set (Blocks p). origin ps f b)"

definition sums_of :: "Profile list \<Rightarrow> (string \<times> Profile) list \<Rightarrow> bool" where
  "sums_of ps outs \<longleftrightarrow> dom (map_of outs) = FileName ` set ps \<and> (\<forall>f p. map_of outs f = Some p \<longrightarrow> sums_file ps f p)"

lemma total_count_snoc: "total_count f (ps @ [p]) pos = total_count f ps pos + (if FileName p = f then count_at (Blocks p) pos else 0)"
  by (simp add: total_count_def)

lemma sums_file_other: "sums_file ps f p \<Longrightarrow> FileName ip \<noteq> f \<Longrightarrow> sums_file (ps @ [ip]) f p"
  by (simp add: sums_file_def total_count_snoc origin_def)

lemma sums_of_update:
  assumes "sums_of ps outs" and "sums_file (ps @ [ip]) (FileName ip) p"
  shows "sums_of (ps @ [ip]) (AList.update (FileName ip) p outs)"
  using assms sums_file_other [of ps _ _ ip] by (auto simp: sums_of_def update_conv')

lemma origin_trans: "origin ps f c \<Longrightarrow> start c = start b \<Longrightarrow> same_extent c b \<Longrightarrow> origin ps f b"
  unfolding origin_def same_extent_def by metis

lemma sums_file_merge:
  assumes op: "sums_file ps (FileName ip) op" and cons: "consistent (ps @ [ip])"
  shows "\<exists>m. merge op ip = Inr m \<and> sums_file (ps @ [ip]) (FileName ip) m"
proof -
  have o: "ordered (Blocks op)" "ordered (Blocks ip)" using op cons by (simp_all add: sums_file_def consistent_def)
  have c: "compatible (Blocks op) (Blocks ip)"
    unfolding compatible_def
  proof (intro ballI impI)
    fix b c
    assume "b \<in> set (Blocks op)" and c: "c \<in> set (Blocks ip)" and eq: "start b = start c"
    with op obtain q d where d: "q \<in> set ps" "FileName q = FileName ip" "d \<in> set (Blocks q)"
        "start d = start b" "same_extent d b" unfolding sums_file_def origin_def by blast
    with cons c eq have "same_extent d c" by (auto simp: consistent_def compatible_def)
    with d(5) show "same_extent b c" by (simp add: same_extent_def)
  qed
  from merge_blocks_ok [OF o c] obtain bs where bs: "merge_blocks (Blocks op) (Blocks ip) = Inr bs"
      "ordered bs" "\<forall>pos. block_at bs pos = add_blocks (block_at (Blocks op) pos) (block_at (Blocks ip) pos)" by blast
  have "count_at bs pos mod 2 ^ 64 = total_count (FileName ip) (ps @ [ip]) pos mod 2 ^ 64" for pos
  proof -
    have "count_at (Blocks op) pos mod 2 ^ 64 = total_count (FileName ip) ps pos mod 2 ^ 64"
      using op unfolding sums_file_def by blast
    then have "(count_at (Blocks op) pos + count_at (Blocks ip) pos) mod 2 ^ 64 =
        (total_count (FileName ip) ps pos + count_at (Blocks ip) pos) mod 2 ^ 64"
      by (metis mod_add_left_eq)
    with count_add_blocks [OF bs(3), of pos] show ?thesis by (simp add: total_count_snoc)
  qed
  moreover have "origin (ps @ [ip]) (FileName ip) b" if "b \<in> set bs" for b
  proof -
    from merge_blocks_origin [OF bs(1) that] obtain c where c: "c \<in> set (Blocks op) \<union> set (Blocks ip)"
        "start c = start b" "same_extent c b" by blast
    have "origin (ps @ [ip]) (FileName ip) c"
      using c(1) op by (auto simp: sums_file_def origin_def same_extent_def)
    from this c(2,3) show ?thesis by (rule origin_trans)
  qed
  ultimately show ?thesis using bs op by (simp add: merge_def sums_file_def)
qed

lemma add_profile_sums:
  assumes "sums_of ps outs" and "consistent (ps @ [ip])"
  shows "\<exists>outs'. add_profile ip outs = Inr outs' \<and> sums_of (ps @ [ip]) outs'"
proof (cases "map_of outs (FileName ip)")
  case None
  with assms(1) have "FileName ip \<notin> FileName ` set ps" unfolding sums_of_def by (metis domIff)
  then have "filter (\<lambda>p. FileName p = FileName ip) ps = []" by (auto simp: filter_empty_conv image_iff)
  with assms(2) have "sums_file (ps @ [ip]) (FileName ip) ip"
    by (auto simp: sums_file_def total_count_snoc total_count_def consistent_def origin_def same_extent_def)
  with None sums_of_update [OF assms(1)] show ?thesis by (simp add: add_profile_def)
next
  case (Some op)
  with assms(1) have "sums_file ps (FileName ip) op" by (simp add: sums_of_def)
  from sums_file_merge [OF this assms(2)] obtain m where
    "merge op ip = Inr m" "sums_file (ps @ [ip]) (FileName ip) m" by blast
  with Some sums_of_update [OF assms(1)] show ?thesis by (simp add: add_profile_def)
qed

lemma consistent_prefix: "consistent (ps @ qs) \<Longrightarrow> consistent ps"
  by (simp add: consistent_def)

lemma add_profiles_sums:
  "sums_of ps outs \<Longrightarrow> consistent (ps @ ips) \<Longrightarrow> \<exists>outs'. add_profiles ips outs = Inr outs' \<and> sums_of (ps @ ips) outs'"
proof (induction ips arbitrary: ps outs)
  case Nil
  then show ?case by simp
next
  case (Cons ip ips)
  then have c: "consistent ((ps @ [ip]) @ ips)" by simp
  from add_profile_sums [OF Cons.prems(1) consistent_prefix [OF c]] obtain outs1 where
    o: "add_profile ip outs = Inr outs1" "sums_of (ps @ [ip]) outs1" by blast
  from Cons.IH [OF o(2) c] o(1) show ?case by simp
qed

lemma add_inputs_sums:
  assumes "\<forall>a \<in> set args. \<exists>ps. parse a = Inr ps"
  shows "sums_of ps outs \<Longrightarrow> consistent (ps @ inputs parse args) \<Longrightarrow>
    \<exists>outs'. add_inputs parse args outs = Inr outs' \<and> sums_of (ps @ inputs parse args) outs'"
  using assms
proof (induction args arbitrary: ps outs)
  case Nil
  then show ?case by (simp add: inputs_def)
next
  case (Cons a args)
  then obtain ips where ips: "parse a = Inr ips" by auto
  then have i: "inputs parse (a # args) = ips @ inputs parse args" by (simp add: inputs_def)
  with Cons.prems have c: "consistent ((ps @ ips) @ inputs parse args)" by simp
  from add_profiles_sums [OF Cons.prems(1) consistent_prefix [OF c]] obtain outs1 where
    o: "add_profiles ips outs = Inr outs1" "sums_of (ps @ ips) outs1" by blast
  from Cons.IH [OF o(2) c] Cons.prems(3) o(1) ips i show ?case by simp
qed

interpretation file_order: sort_order byFileName_Less
  by unfold_locales (auto simp: byFileName_Less_def)

text \<open>The profiles of a map in an order of its keys: with distinct names, so sorting them has one
  result, whatever the order.\<close>

lemma profiles_in_order:
  assumes "range_order ks (map_of outs)" and "\<forall>f p. map_of outs f = Some p \<longrightarrow> FileName p = f"
  shows "map FileName (map (\<lambda>k. the (map_of outs k)) ks) = ks"
    and "set (map (\<lambda>k. the (map_of outs k)) ks) = ran (map_of outs)"
proof -
  have the: "map_of outs k = Some (the (map_of outs k))" if "k \<in> set ks" for k
    using assms(1) that by (auto simp: range_order_def)
  with assms(2) have "FileName (the (map_of outs k)) = k" if "k \<in> set ks" for k using that by blast
  then show "map FileName (map (\<lambda>k. the (map_of outs k)) ks) = ks" by (simp add: map_idI)
  show "set (map (\<lambda>k. the (map_of outs k)) ks) = ran (map_of outs)"
    using assms(1) the by (auto simp: range_order_def ran_def image_iff) (metis domI option.sel)
qed

lemma sorted_profiles:
  assumes "range_order ks (map_of outs)" and "\<forall>f p. map_of outs f = Some p \<longrightarrow> FileName p = f"
  defines "ps \<equiv> Sort byFileName_Less (map (\<lambda>k. the (map_of outs k)) ks)"
  shows "sorted_wrt (<) (map FileName ps)" and "set ps = ran (map_of outs)"
proof -
  let ?l = "map (\<lambda>k. the (map_of outs k)) ks"
  have "mset (map FileName ps) = mset (map FileName ?l)" unfolding ps_def by (simp only: mset_map mset_Sort)
  then have "mset (map FileName ps) = mset ks" by (simp only: profiles_in_order(1) [OF assms(1,2)])
  then have "distinct (map FileName ps)" using assms(1) by (metis mset_eq_imp_distinct_iff range_order_def)
  moreover have "sorted (map FileName ps)"
    using file_order.in_order_Sort [of ?l]
    by (simp add: ps_def in_order_def byFileName_Less_def sorted_wrt_map not_less)
  ultimately show "sorted_wrt (<) (map FileName ps)" by (simp add: strict_sorted_iff)
  show "set ps = ran (map_of outs)" using profiles_in_order(2) [OF assms(1,2)] by (simp add: ps_def)
qed

lemma strict_names_unique:
  fixes ps qs :: "Profile list"
  assumes "sorted_wrt (<) (map FileName ps)" and "sorted_wrt (<) (map FileName qs)" and "set ps = set qs"
  shows "ps = qs"
proof -
  have d: "distinct ps" "distinct qs" using assms(1,2) by (simp_all add: strict_sorted_iff distinct_map)
  have inj: "a = b" if "a \<in> set ps" "b \<in> set ps" "FileName a = FileName b" for a b
    using assms(1) that by (auto simp: strict_sorted_iff distinct_map dest: inj_onD)
  have "in_order byFileName_Less rs" if "sorted_wrt (<) (map FileName rs)" for rs :: "Profile list"
    using that unfolding in_order_def sorted_wrt_map byFileName_Less_def
    by (rule sorted_wrt_mono_rel [rotated]) simp
  then have o: "in_order byFileName_Less ps" "in_order byFileName_Less qs" using assms(1,2) by blast+
  have "mset ps = mset qs" using d assms(3) by (simp add: set_eq_iff_mset_eq_distinct)
  then show ?thesis
    by (rule file_order.in_order_unique [OF o]) (auto simp: byFileName_Less_def intro: inj)
qed

text \<open>
  C21: the tool prints the sums of its inputs. When every input can be parsed and the inputs are
  profiles of the same program, the output lists every file of the inputs once, in increasing
  order of names and independent of the order in which Go iterates over maps; its blocks are in
  order, and the count at every position is the sum of the counts of all inputs, in 64-bit
  arithmetic.
\<close>

theorem cover_sums:
  assumes "\<forall>a \<in> set args. \<exists>ps. parse a = Inr ps" and "consistent (inputs parse args)"
  shows "\<exists>ps. (\<forall>order. (\<forall>outs. range_order (order outs) (map_of outs)) \<longrightarrow>
        cover_main parse order args = Inr (print_profiles ps))
    \<and> sorted_wrt (<) (map FileName ps) \<and> FileName ` set ps = FileName ` set (inputs parse args)
    \<and> (\<forall>p \<in> set ps. ordered (Blocks p) \<and> (\<forall>pos. count_at (Blocks p) pos mod 2 ^ 64 =
         total_count (FileName p) (inputs parse args) pos mod 2 ^ 64))"
proof -
  have "sums_of [] []" by (simp add: sums_of_def)
  from add_inputs_sums [OF assms(1) this] assms(2) obtain outs where
    outs: "add_inputs parse args [] = Inr outs" and sums: "sums_of (inputs parse args) outs" by auto
  have name: "\<forall>f p. map_of outs f = Some p \<longrightarrow> FileName p = f" using sums by (simp add: sums_of_def sums_file_def)
  define ps where "ps = Sort byFileName_Less (map (\<lambda>k. the (map_of outs k)) (remdups (map fst outs)))"
  have "range_order (remdups (map fst outs)) (map_of outs)" by (simp add: range_order_def dom_map_of_conv_image_fst)
  from sorted_profiles [OF this name] have ps: "sorted_wrt (<) (map FileName ps)" "set ps = ran (map_of outs)"
    by (simp_all add: ps_def)
  have main: "cover_main parse order args = Inr (print_profiles ps)"
    if "\<forall>outs. range_order (order outs) (map_of outs)" for order
  proof -
    from that have "range_order (order outs) (map_of outs)" by blast
    note other = sorted_profiles [OF this name]
    have "Sort byFileName_Less (map (\<lambda>k. the (map_of outs k)) (order outs)) = ps"
      by (rule strict_names_unique [OF other(1) ps(1)]) (simp only: other(2) ps(2))
    then show ?thesis by (simp add: cover_main_def outs)
  qed
  have each: "sums_file (inputs parse args) (FileName p) p" if "p \<in> set ps" for p
    using that sums name ps(2) by (auto simp: sums_of_def ran_def)
  have "FileName ` set ps = dom (map_of outs)" using name ps(2) by (force simp: ran_def)
  then have "FileName ` set ps = FileName ` set (inputs parse args)" using sums by (simp add: sums_of_def)
  with main ps(1) each show ?thesis unfolding sums_file_def by blast
qed

definition demo_parse :: "string \<Rightarrow> error + Profile list" where
  "demo_parse a = (if a = ''a.cov'' then Inr [demo_profile [demo_block 1 4]]
     else Inr [demo_profile [demo_block 1 2, demo_block 5 0]])"

theorem cover_sums_witness:
  "\<exists>ps. (\<forall>order. (\<forall>outs. range_order (order outs) (map_of outs)) \<longrightarrow>
        cover_main demo_parse order [''a.cov'', ''b.cov''] = Inr (print_profiles ps))
     \<and> FileName ` set ps = {''tc.go''} \<and> (\<forall>p \<in> set ps. count_at (Blocks p) (1, 2) mod 2 ^ 64 = 6)"
proof -
  have i: "inputs demo_parse [''a.cov'', ''b.cov''] =
      [demo_profile [demo_block 1 4], demo_profile [demo_block 1 2, demo_block 5 0]]"
    by (simp add: inputs_def demo_parse_def)
  have "consistent (inputs demo_parse [''a.cov'', ''b.cov''])"
    by (simp add: i consistent_def compatible_def demo_profile_def demo_block_def before_def start_def same_extent_def)
  moreover have "\<forall>a \<in> set [''a.cov'', ''b.cov'']. \<exists>ps. demo_parse a = Inr ps" by (simp add: demo_parse_def)
  ultimately have "\<exists>ps. (\<forall>order. (\<forall>outs. range_order (order outs) (map_of outs)) \<longrightarrow>
        cover_main demo_parse order [''a.cov'', ''b.cov''] = Inr (print_profiles ps))
    \<and> sorted_wrt (<) (map FileName ps) \<and> FileName ` set ps = FileName ` set (inputs demo_parse [''a.cov'', ''b.cov''])
    \<and> (\<forall>p \<in> set ps. ordered (Blocks p) \<and> (\<forall>pos. count_at (Blocks p) pos mod 2 ^ 64 =
         total_count (FileName p) (inputs demo_parse [''a.cov'', ''b.cov'']) pos mod 2 ^ 64))"
    by (intro cover_sums)
  then obtain ps where ps: "\<forall>order. (\<forall>outs. range_order (order outs) (map_of outs)) \<longrightarrow>
        cover_main demo_parse order [''a.cov'', ''b.cov''] = Inr (print_profiles ps)"
      "FileName ` set ps = FileName ` set (inputs demo_parse [''a.cov'', ''b.cov''])"
      "\<forall>p \<in> set ps. ordered (Blocks p) \<and> (\<forall>pos. count_at (Blocks p) pos mod 2 ^ 64 =
         total_count (FileName p) (inputs demo_parse [''a.cov'', ''b.cov'']) pos mod 2 ^ 64)"
    by (elim exE conjE)
  have f: "FileName ` set ps = {''tc.go''}" using ps(2) by (simp add: i demo_profile_def)
  have t: "total_count ''tc.go'' (inputs demo_parse [''a.cov'', ''b.cov'']) (1, 2) = 6"
    by (simp add: i total_count_def count_at_def demo_profile_def demo_block_def start_def)
  have "count_at (Blocks p) (1, 2) mod 2 ^ 64 = 6" if "p \<in> set ps" for p
  proof -
    have n: "FileName p = ''tc.go''" using f that by blast
    from ps(3) that have "count_at (Blocks p) (1, 2) mod 2 ^ 64 =
        total_count (FileName p) (inputs demo_parse [''a.cov'', ''b.cov'']) (1, 2) mod 2 ^ 64" by blast
    then show ?thesis unfolding n t by simp
  qed
  with ps(1) f show ?thesis by blast
qed

end
