(* ===== verification/Tool_World.thy ===== *)
theory Tool_World
  imports Go_Strings
begin

text \<open>
  The process of a command line tool: what it has printed and the world outside. As for the
  plugin, calls to the operating system and to services are functions of a world about which
  nothing is known; a tool has a record of the ones it makes. What is printed is a list of
  messages, of a type of the tool's own, each of them one call of \<open>fmt.Print\<close>.
\<close>

record ('w, 'm) tool =
  outside :: 'w
  stdout :: "'m list"

type_synonym ('w, 'a) outside_call = "'w \<Rightarrow> 'a \<times> 'w"

definition ask :: "('w, 'a) outside_call \<Rightarrow> (('w, 'm, 'z) tool_scheme, 'a) go" where
  "ask c s = (case c (outside s) of (r, w) \<Rightarrow> (Returns r, s\<lparr>outside := w\<rparr>))"

definition print :: "'m \<Rightarrow> (('w, 'm, 'z) tool_scheme, unit) go" where
  "print m = go_modify (\<lambda>s. s\<lparr>stdout := stdout s @ [m]\<rparr>)"

lemma ask_run [go_run]:
  "ask c s = (Returns (fst (c (outside s))), s\<lparr>outside := snd (c (outside s))\<rparr>)"
  by (simp add: ask_def split: prod.split)

lemma print_run [go_run]: "print m s = (Returns (), s\<lparr>stdout := stdout s @ [m]\<rparr>)"
  by (simp add: print_def go_run)

lemma keeps_ask [go_keeps]: "(\<And>s w. f (s\<lparr>outside := w\<rparr>) = f s) \<Longrightarrow> keeps f (ask c)"
  by (simp add: keeps_def ask_run)

lemma nonblocking_tool [go_nonblock]: "nonblocking (ask c)" "nonblocking (print m)"
  by (simp_all add: nonblocking_def go_run)

section \<open>What an operation prints\<close>

text \<open>\<open>prints m s ms\<close>: run from \<open>s\<close>, the call appends the messages \<open>ms\<close> to the output.\<close>

definition prints :: "(('w, 'm, 'z) tool_scheme, 'a) go \<Rightarrow> ('w, 'm, 'z) tool_scheme \<Rightarrow> 'm list \<Rightarrow> bool" where
  "prints m s ms \<longleftrightarrow> stdout (snd (m s)) = stdout s @ ms"

lemma go_for_print:
  "go_for (\<lambda>x. print (f x)) xs s = (Returns (), s\<lparr>stdout := stdout s @ map f xs\<rparr>)"
  by (induction xs arbitrary: s) (simp_all add: go_run)

section \<open>The environment of the process\<close>

text \<open>\<open>os.LookupEnv\<close>: the first variable of that name; \<open>os.Getenv\<close>: its value, empty if there is
  none.\<close>

definition LookupEnv :: "string list \<Rightarrow> string \<Rightarrow> string option" where
  "LookupEnv vars key = map_option (drop (length key + 1)) (find (\<lambda>v. HasPrefix v (key @ ''='')) vars)"

definition Getenv :: "string list \<Rightarrow> string \<Rightarrow> string" where
  "Getenv vars key = (case LookupEnv vars key of None \<Rightarrow> [] | Some v \<Rightarrow> v)"

lemma LookupEnv_Nil [simp]: "LookupEnv [] key = None"
  by (simp add: LookupEnv_def)

lemma LookupEnv_Cons:
  "LookupEnv (v # vars) key =
     (if HasPrefix v (key @ ''='') then Some (drop (length key + 1) v) else LookupEnv vars key)"
  by (simp add: LookupEnv_def)

lemma LookupEnv_set [simp]: "LookupEnv ((key @ CHR ''='' # val) # vars) key = Some val"
  by (simp add: LookupEnv_Cons HasPrefix_def)

end
