(* ===== verification/Runner.thy ===== *)
theory Runner
  imports Tool_World Go_Json_Codec Go_Sort "HOL-Library.List_Lexorder" "HOL-Library.Char_ord" "HOL-Library.Sublist"
begin

text \<open>
  The test runner (\<open>tools/runner/runner.go\<close>): tests are commands that need a number of hosts,
  which is the last part of their name. They are run one after the other or in parallel, on
  different hosts; this theory has all but the parallel mode, which is in \<open>Runner_Parallel\<close>.

  The flag parser (package \<open>mflag\<close>) and the colours of the terminal (package \<open>ansi\<close>) are not part
  of the repository: the flags are a parameter, the colours are left out. A line of output is a
  message with the arguments of its format; a duration is in nanoseconds.
\<close>

section \<open>Data\<close>

record test =
  t_name :: string
  t_hosts :: int

record schedule =
  Tests :: "string list option"

record flags =
  useScheduler :: bool
  runParallel :: bool
  verbose :: bool
  schedulerHost :: string
  timeout :: int

datatype message =
    Running string "string list"
  | FinishedWithError string int error
  | FinishedWithSuccess string int
  | Output string
  | Needs string int
  | RanFailed nat nat
  | Fail string
  | RanOk nat
  | SchedulerError error
  | ParsingError error "string list"
  | NoHosts

text \<open>How \<open>run\<close>'s \<open>select\<close> ends: with the result of the command or with the timer.\<close>

datatype select = Done "error option" | TimedOut

text \<open>The request to the scheduler: the path of its URL is \<open>/record/\<close>, the escaped name and the
  duration in seconds, printed with two digits.\<close>

record record_request =
  rr_Host :: string
  rr_Test :: string
  rr_Duration :: int

text \<open>The calls the runner makes. \<open>cmd_Run\<close> gets the command, its environment and the timeout, and
  returns how the \<open>select\<close> ended, the output up to then and the duration.\<close>

record 'w runner_env =
  os_Environ :: "string list"
  cmd_Run :: "string \<Rightarrow> string list \<Rightarrow> int \<Rightarrow> ('w, select \<times> string \<times> int) outside_call"
  http_Do :: "record_request \<Rightarrow> ('w, error option) outside_call"
  http_Post :: "string \<Rightarrow> string \<Rightarrow> string \<Rightarrow> ('w, error + stream) outside_call"

text \<open>The state of the process, with the commands that have been left running by a timeout, each
  with the hosts it was given.\<close>

record 'w runner = "('w, message) tool" +
  orphans :: "(string \<times> string list) list"

section \<open>The order of tests\<close>

definition Less :: "test \<Rightarrow> test \<Rightarrow> bool" where
  "Less a b = (if t_hosts a \<noteq> t_hosts b then t_hosts a < t_hosts b else t_name a < t_name b)"

text \<open>\<open>pick\<close>: the test and what is left of the list.\<close>

fun pick :: "test list \<Rightarrow> int \<Rightarrow> (test \<times> test list) option" where
  "pick [] available = None"
| "pick (t # ts) available =
     (if t_hosts t \<le> available then Some (t, ts)
      else map_option (\<lambda>(u, us). (u, t # us)) (pick ts available))"

section \<open>Running a test\<close>

fun replace_hosts :: "string \<Rightarrow> string list \<Rightarrow> string list" where
  "replace_hosts hosts [] = []"
| "replace_hosts hosts (env # envs) =
     (if HasPrefix env ''HOSTS'' then (''HOSTS='' @ hosts) # envs else env # replace_hosts hosts envs)"

text \<open>\<open>url.QueryEscape\<close>.\<close>

definition hex_digit :: "nat \<Rightarrow> char" where
  "hex_digit n = (if n < 10 then char_of (48 + n) else char_of (55 + n))"

definition unreserved :: "char \<Rightarrow> bool" where
  "unreserved c \<longleftrightarrow> (let n = (of_char c :: nat) in
     48 \<le> n \<and> n \<le> 57 \<or> 65 \<le> n \<and> n \<le> 90 \<or> 97 \<le> n \<and> n \<le> 122) \<or> c \<in> set ''-_.~''"

definition escape_char :: "char \<Rightarrow> string" where
  "escape_char c =
     (if unreserved c then [c]
      else if c = CHR '' '' then ''+''
      else [CHR ''%'', hex_digit (of_char c div 16), hex_digit (of_char c mod 16)])"

definition QueryEscape :: "string \<Rightarrow> string" where
  "QueryEscape s = concat (map escape_char s)"

definition updateScheduler :: "'w runner_env \<Rightarrow> flags \<Rightarrow> string \<Rightarrow> int \<Rightarrow> ('w runner, unit) go" where
  "updateScheduler E fl test duration =
     go_bind (ask (http_Do E \<lparr>rr_Host = schedulerHost fl, rr_Test = QueryEscape test, rr_Duration = duration\<rparr>)) (\<lambda>r.
     case r of Some err \<Rightarrow> print (SchedulerError err) | None \<Rightarrow> go_return ())"

text \<open>\<open>run\<close> up to the start of the command, and from the end of its \<open>select\<close> on.\<close>

definition run_start :: "test \<Rightarrow> string list \<Rightarrow> ('w runner, unit) go" where
  "run_start t hosts = print (Running (t_name t) hosts)"

definition run_select :: "'w runner_env \<Rightarrow> flags \<Rightarrow> test \<Rightarrow> string list \<Rightarrow> ('w runner, select \<times> string \<times> int) go" where
  "run_select E fl t hosts = ask (cmd_Run E (t_name t) (replace_hosts (Join hosts '' '') (os_Environ E)) (timeout fl))"

definition run_end :: "'w runner_env \<Rightarrow> flags \<Rightarrow> test \<Rightarrow> string list \<Rightarrow> select \<times> string \<times> int \<Rightarrow> ('w runner, bool) go" where
  "run_end E fl t hosts r = (case r of (sel, out, duration) \<Rightarrow>
     let err = (case sel of Done e \<Rightarrow> e | TimedOut \<Rightarrow> Some (Errorf ''timed out'' [])) in
     go_seq (if sel = TimedOut then go_modify (\<lambda>s. s\<lparr>orphans := (t_name t, hosts) # orphans s\<rparr>) else go_return ())
     (go_seq (case err of
          Some e \<Rightarrow> print (FinishedWithError (t_name t) duration e)
        | None \<Rightarrow> print (FinishedWithSuccess (t_name t) duration))
     (go_seq (if err \<noteq> None \<or> verbose fl then print (Output out) else go_return ())
     (go_seq (if err \<noteq> None \<and> useScheduler fl then updateScheduler E fl (t_name t) duration else go_return ())
     (go_return (err \<noteq> None))))))"

definition run_finish :: "'w runner_env \<Rightarrow> flags \<Rightarrow> test \<Rightarrow> string list \<Rightarrow> ('w runner, bool) go" where
  "run_finish E fl t hosts = go_bind (run_select E fl t hosts) (run_end E fl t hosts)"

definition run :: "'w runner_env \<Rightarrow> flags \<Rightarrow> test \<Rightarrow> string list \<Rightarrow> ('w runner, bool) go" where
  "run E fl t hosts = go_seq (run_start t hosts) (run_finish E fl t hosts)"

section \<open>Which tests to run\<close>

definition jsonContentType :: string where
  "jsonContentType = ''application/json''"

definition encode_schedule :: "schedule \<Rightarrow> json" where
  "encode_schedule s = JObj [(''tests'', encode_slice encode_string (Tests s))]"

definition schedule_fields :: "schedule fields" where
  "schedule_fields = [(''tests'', field Tests (\<lambda>x s. s\<lparr>Tests := x\<rparr>) (decode_slice decode_string []))]"

definition schedule_url :: "'w runner_env \<Rightarrow> flags \<Rightarrow> string" where
  "schedule_url E fl =
     (let project = Getenv (os_Environ E) ''CIRCLE_PROJECT_REPONAME'';
          buildNum = Getenv (os_Environ E) ''CIRCLE_BUILD_NUM'';
          testRun = project @ ''-integration-'' @ buildNum;
          shardCount = Getenv (os_Environ E) ''CIRCLE_NODE_TOTAL'';
          shardID = Getenv (os_Environ E) ''CIRCLE_NODE_INDEX''
      in ''http://'' @ schedulerHost fl @ ''/schedule/'' @ testRun @ ''/'' @ shardCount @ ''/'' @ shardID)"

definition getSchedule :: "'w runner_env \<Rightarrow> flags \<Rightarrow> string list \<Rightarrow> ('w runner, error + string list) go" where
  "getSchedule E fl tests =
     go_bind (ask (http_Post E (schedule_url E fl) jsonContentType (json_line (encode_schedule \<lparr>Tests = Some tests\<rparr>)))) (\<lambda>r.
     go_return (case r of
        Inl err \<Rightarrow> Inl err
      | Inr body \<Rightarrow> (case json_Decode (decode_struct schedule_fields) body \<lparr>Tests = None\<rparr> of
            Inl err \<Rightarrow> Inl err
          | Inr sched \<Rightarrow> Inr (case Tests sched of None \<Rightarrow> [] | Some names \<Rightarrow> names))))"

definition numHosts :: "string \<Rightarrow> int" where
  "numHosts name = (case Atoi (last (Split (TrimSuffix name ''_test.sh'') (CHR ''_''))) of
      (n, None) \<Rightarrow> n
    | (n, Some err) \<Rightarrow> 1)"

definition make_test :: "string \<Rightarrow> test" where
  "make_test name = \<lparr>t_name = name, t_hosts = numHosts name\<rparr>"

definition getTests :: "'w runner_env \<Rightarrow> flags \<Rightarrow> string list \<Rightarrow> ('w runner, error + test list) go" where
  "getTests E fl testNames =
     go_bind (if useScheduler fl then getSchedule E fl testNames else go_return (Inr testNames)) (\<lambda>r. case r of
        Inl err \<Rightarrow> go_return (Inl err)
      | Inr names \<Rightarrow> go_seq (go_for (\<lambda>name. print (Needs name (numHosts name))) names)
          (go_return (Inr (map make_test names))))"

section \<open>Running them one after the other\<close>

definition summary :: "nat \<Rightarrow> test list \<Rightarrow> ('w runner, unit) go" where
  "summary tests failed =
     (if 0 < length failed
      then go_seq (print (RanFailed tests (length failed))) (go_for (\<lambda>t. print (Fail (t_name t))) failed)
      else print (RanOk tests))"

fun run_all :: "'w runner_env \<Rightarrow> flags \<Rightarrow> string list \<Rightarrow> test list \<Rightarrow> test list \<Rightarrow> ('w runner, test list) go" where
  "run_all E fl hosts [] failed = go_return failed"
| "run_all E fl hosts (t # ts) failed = go_bind (run E fl t hosts) (\<lambda>errored.
     run_all E fl hosts ts (if errored then failed @ [t] else failed))"

definition sequential :: "'w runner_env \<Rightarrow> flags \<Rightarrow> test list \<Rightarrow> string list \<Rightarrow> ('w runner, bool) go" where
  "sequential E fl ts hosts = go_bind (run_all E fl hosts ts []) (\<lambda>failed.
     go_seq (summary (length ts) failed) (go_return (0 < length failed)))"

section \<open>The program, up to the choice of the mode\<close>

text \<open>\<open>main\<close> up to the call of \<open>parallel\<close> or \<open>sequential\<close>, with the tests and the hosts, and after it.\<close>

definition effective_flags :: "'w runner_env \<Rightarrow> flags \<Rightarrow> flags" where
  "effective_flags E fl = (if 0 < length (Getenv (os_Environ E) ''DEBUG'') then fl\<lparr>verbose := True\<rparr> else fl)"

definition runner_start :: "'w runner_env \<Rightarrow> flags \<Rightarrow> string list \<Rightarrow> ('w runner, test list \<times> string list) go" where
  "runner_start E fl testArgs =
     go_bind (getTests E (effective_flags E fl) testArgs) (\<lambda>r. case r of
        Inl err \<Rightarrow> go_seq (print (ParsingError err testArgs)) (go_exit 1)
      | Inr tests \<Rightarrow>
          (let hosts = Fields (Getenv (os_Environ E) ''HOSTS'') in
           if length hosts = 0 then go_seq (print NoHosts) (go_exit 1)
           else go_return (tests, hosts)))"

definition runner_end :: "bool \<Rightarrow> ('w runner, unit) go" where
  "runner_end errored = (if errored then go_exit 1 else go_return ())"

definition main_sequential :: "'w runner_env \<Rightarrow> flags \<Rightarrow> string list \<Rightarrow> ('w runner, unit) go" where
  "main_sequential E fl testArgs = go_bind (runner_start E fl testArgs) (\<lambda>(tests, hosts).
     go_bind (sequential E (effective_flags E fl) tests hosts) runner_end)"

section \<open>Picking tests\<close>

interpretation test_order: sort_order Less
  by unfold_locales (auto simp: Less_def split: if_splits)

interpretation biggest_first: sort_order "Reverse Less"
  by (rule test_order.reverse_order)

lemma Less_total: "\<not> Less a b \<Longrightarrow> \<not> Less b a \<Longrightarrow> a = b"
  by (cases a; cases b) (auto simp: Less_def split: if_splits)

text \<open>What \<open>pick\<close> takes out of a list: the first test that fits.\<close>

lemma pick_Some:
  "pick ts n = Some (t, us) \<Longrightarrow> \<exists>as bs. ts = as @ t # bs \<and> us = as @ bs \<and> t_hosts t \<le> n \<and> (\<forall>a \<in> set as. n < t_hosts a)"
proof (induction ts arbitrary: us)
  case (Cons a ts)
  show ?case
  proof (cases "t_hosts a \<le> n")
    case True
    with Cons.prems show ?thesis by (auto intro: exI [of _ "[]"])
  next
    case False
    with Cons.prems obtain vs where vs: "pick ts n = Some (t, vs)" "us = a # vs" by auto
    from Cons.IH [OF vs(1)] obtain as bs where
      "ts = as @ t # bs \<and> vs = as @ bs \<and> t_hosts t \<le> n \<and> (\<forall>b \<in> set as. n < t_hosts b)" by blast
    with vs(2) False have "a # ts = (a # as) @ t # bs \<and> us = (a # as) @ bs \<and> t_hosts t \<le> n \<and> (\<forall>b \<in> set (a # as). n < t_hosts b)"
      by auto
    then show ?thesis by blast
  qed
qed simp

lemma pick_None: "pick ts n = None \<longleftrightarrow> (\<forall>t \<in> set ts. n < t_hosts t)"
  by (induction ts) (auto simp: not_le)

lemma pick_mset: "pick ts n = Some (t, us) \<Longrightarrow> mset ts = add_mset t (mset us)"
  by (auto dest!: pick_Some)

lemma pick_fits: "pick ts n = Some (t, us) \<Longrightarrow> t_hosts t \<le> n"
  by (auto dest!: pick_Some)

lemma pick_in_order: "in_order lt ts \<Longrightarrow> pick ts n = Some (t, us) \<Longrightarrow> in_order lt us"
  by (auto dest!: pick_Some simp: in_order_def sorted_wrt_append)

text \<open>In a list with the biggest tests first, the picked test is the biggest that fits.\<close>

lemma pick_biggest:
  assumes "in_order (Reverse Less) ts" and "pick ts n = Some (t, us)" and "u \<in> set us" and "t_hosts u \<le> n"
  shows "\<not> Less t u"
proof -
  from pick_Some [OF assms(2)] obtain as bs where ts: "ts = as @ t # bs" "us = as @ bs" "\<forall>a \<in> set as. n < t_hosts a"
    by blast
  with assms(3,4) have "u \<in> set bs" by auto
  with assms(1) ts(1) show ?thesis by (auto simp: in_order_def sorted_wrt_append Reverse_def)
qed

text \<open>
  \<open>parallel\<close> tries the biggest tests first. Sorting as it does gives the only list of the
  tests in decreasing order of hosts and then names; on a list in that order \<open>pick\<close> returns the
  greatest of the tests that fit into the free hosts, leaves the others in order, and finds
  nothing exactly if no test fits.
\<close>

lemma pick_greatest:
  "(in_order (Reverse Less) xs \<and> mset xs = mset ts \<longleftrightarrow> xs = Sort (Reverse Less) ts)
   \<and> (in_order (Reverse Less) xs \<longrightarrow> (case pick xs n of
      None \<Rightarrow> \<forall>t \<in> set xs. n < t_hosts t
    | Some (t, us) \<Rightarrow> mset xs = add_mset t (mset us) \<and> in_order (Reverse Less) us
        \<and> t_hosts t \<le> n \<and> (\<forall>u \<in> set us. t_hosts u \<le> n \<longrightarrow> \<not> Less t u)))"
proof (intro conjI impI)
  show "in_order (Reverse Less) xs \<and> mset xs = mset ts \<longleftrightarrow> xs = Sort (Reverse Less) ts"
    using biggest_first.Sort_unique [of xs ts] biggest_first.in_order_Sort [of ts]
    by (auto simp: Reverse_def intro: Less_total)
  assume xs: "in_order (Reverse Less) xs"
  show "case pick xs n of
      None \<Rightarrow> \<forall>t \<in> set xs. n < t_hosts t
    | Some (t, us) \<Rightarrow> mset xs = add_mset t (mset us) \<and> in_order (Reverse Less) us
        \<and> t_hosts t \<le> n \<and> (\<forall>u \<in> set us. t_hosts u \<le> n \<longrightarrow> \<not> Less t u)"
    using pick_biggest [OF xs] pick_in_order [OF xs]
    by (auto simp: pick_None pick_mset pick_fits split: option.split)
qed

definition demo_test :: "int \<Rightarrow> test" where
  "demo_test n = \<lparr>t_name = ''t_'' @ Itoa n @ ''_test.sh'', t_hosts = n\<rparr>"

lemma pick_greatest_witness:
  "in_order (Reverse Less) [demo_test 3, demo_test 2, demo_test 1]
   \<and> pick [demo_test 3, demo_test 2, demo_test 1] 2 = Some (demo_test 2, [demo_test 3, demo_test 1])
   \<and> \<not> Less (demo_test 2) (demo_test 1)"
proof -
  have o: "in_order (Reverse Less) [demo_test 3, demo_test 2, demo_test 1]"
    by (simp add: in_order_def Reverse_def Less_def demo_test_def)
  have p: "pick [demo_test 3, demo_test 2, demo_test 1] 2 = Some (demo_test 2, [demo_test 3, demo_test 1])"
    by (simp add: demo_test_def)
  from pick_greatest [of "[demo_test 3, demo_test 2, demo_test 1]" "[]" 2] o p have "\<not> Less (demo_test 2) (demo_test 1)"
    by (auto simp: demo_test_def)
  with o p show ?thesis by blast
qed

section \<open>The number of hosts\<close>

text \<open>
  The number of hosts of a test is in its name. A name that ends in \<open>_n_test.sh\<close> stands
  for a test that needs \<open>n\<close> hosts, for every \<open>n\<close> of 64 bits, negative ones included; when
  what stands there instead is not such a number the test needs one host.
\<close>

lemma numHosts_of_name:
  assumes "- max_int64 - 1 \<le> n" and "n \<le> max_int64" and "CHR ''_'' \<notin> set w" and "snd (Atoi w) \<noteq> None"
  shows "numHosts (base @ ''_'' @ Itoa n @ ''_test.sh'') = n \<and> numHosts (base @ ''_'' @ w @ ''_test.sh'') = 1"
proof
  have trim: "TrimSuffix (base @ ''_'' @ v @ ''_test.sh'') ''_test.sh'' = base @ CHR ''_'' # v" for v
    using TrimSuffix_append [of "base @ CHR ''_'' # v" "''_test.sh''"] by simp
  show "numHosts (base @ ''_'' @ Itoa n @ ''_test.sh'') = n"
    unfolding numHosts_def trim using assms(1,2) by (simp add: last_Split underscore_Itoa Atoi_Itoa)
  show "numHosts (base @ ''_'' @ w @ ''_test.sh'') = 1"
    unfolding numHosts_def trim using assms(3,4) by (auto simp: last_Split split: prod.split option.split)
qed

lemma numHosts_of_name_witness:
  "numHosts (''200_dns'' @ ''_'' @ Itoa 2 @ ''_test.sh'') = 2 \<and> numHosts (''200_dns'' @ ''_'' @ ''x'' @ ''_test.sh'') = 1"
proof (rule numHosts_of_name)
  have "digit_val (CHR ''x'') = None" by (simp add: digit_val_def)
  then show "snd (Atoi ''x'') \<noteq> None" by (simp add: Atoi_def ParseInt_def ParseUint_def)
qed (simp_all add: max_int64_def)

section \<open>What a run prints and returns\<close>

fun is_running :: "message \<Rightarrow> (string \<times> string list) option" where
  "is_running (Running t hosts) = Some (t, hosts)"
| "is_running _ = None"

fun is_error :: "message \<Rightarrow> string option" where
  "is_error (FinishedWithError t d e) = Some t"
| "is_error _ = None"

text \<open>The tests that were started, with their hosts, and those that failed, according to the
  output.\<close>

definition started :: "message list \<Rightarrow> (string \<times> string list) list" where
  "started ms = List.map_filter is_running ms"

definition erroneous :: "message list \<Rightarrow> string list" where
  "erroneous ms = List.map_filter is_error ms"

lemma started_simps [simp]:
  "started [] = []" "started (m # ms) = (case is_running m of None \<Rightarrow> [] | Some x \<Rightarrow> [x]) @ started ms"
  "started (ms @ ms') = started ms @ started ms'"
  by (auto simp: started_def List.map_filter_def split: option.split)

lemma erroneous_simps [simp]:
  "erroneous [] = []" "erroneous (m # ms) = (case is_error m of None \<Rightarrow> [] | Some x \<Rightarrow> [x]) @ erroneous ms"
  "erroneous (ms @ ms') = erroneous ms @ erroneous ms'"
  by (auto simp: erroneous_def List.map_filter_def split: option.split)

definition timed_out :: "'w runner_env \<Rightarrow> flags \<Rightarrow> test \<Rightarrow> string list \<Rightarrow> 'w runner \<Rightarrow> bool" where
  "timed_out E fl t hosts s \<longleftrightarrow>
     fst (fst (cmd_Run E (t_name t) (replace_hosts (Join hosts '' '') (os_Environ E)) (timeout fl) (outside s))) = TimedOut"

lemma updateScheduler_run:
  "\<exists>ms w. updateScheduler E fl t d s = (Returns (), s\<lparr>stdout := stdout s @ ms, outside := w\<rparr>)
     \<and> started ms = [] \<and> erroneous ms = []"
proof -
  let ?c = "http_Do E \<lparr>rr_Host = schedulerHost fl, rr_Test = QueryEscape t, rr_Duration = d\<rparr> (outside s)"
  show ?thesis
  proof (cases "fst ?c")
    case None
    then show ?thesis by (intro exI [of _ "[]"] exI [of _ "snd ?c"]) (simp add: updateScheduler_def go_run)
  next
    case (Some e)
    then show ?thesis
      by (intro exI [of _ "[SchedulerError e]"] exI [of _ "snd ?c"]) (simp add: updateScheduler_def go_run)
  qed
qed

lemma run_end_cases:
  obtains e ms w where
    "run_end E fl t hosts (sel, out, d) s = (Returns e, s\<lparr>
        orphans := (if sel = TimedOut then (t_name t, hosts) # orphans s else orphans s),
        stdout := stdout s @ ms, outside := w\<rparr>)"
    "e \<longleftrightarrow> sel \<noteq> Done None" "started ms = []" "erroneous ms = (if e then [t_name t] else [])"
proof -
  define e where "e = (sel \<noteq> Done None)"
  define pre where "pre = (case sel of
      Done None \<Rightarrow> [FinishedWithSuccess (t_name t) d]
    | Done (Some err) \<Rightarrow> [FinishedWithError (t_name t) d err]
    | TimedOut \<Rightarrow> [FinishedWithError (t_name t) d (Errorf ''timed out'' [])])
      @ (if e \<or> verbose fl then [Output out] else [])"
  define s1 where "s1 = s\<lparr>orphans := (if sel = TimedOut then (t_name t, hosts) # orphans s else orphans s),
      stdout := stdout s @ pre\<rparr>"
  have pre: "started pre = []" "erroneous pre = (if e then [t_name t] else [])"
    by (auto simp: pre_def e_def split: select.splits option.splits)
  have eq: "run_end E fl t hosts (sel, out, d) s =
      go_seq (if e \<and> useScheduler fl then updateScheduler E fl (t_name t) d else go_return ()) (go_return e) s1"
  proof (cases sel)
    case TimedOut
    then show ?thesis by (simp add: run_end_def go_run pre_def s1_def e_def Let_def)
  next
    case (Done err)
    then show ?thesis by (cases err) (simp_all add: run_end_def go_run pre_def s1_def e_def Let_def)
  qed
  show ?thesis
  proof (cases "e \<and> useScheduler fl")
    case True
    from updateScheduler_run [of E fl "t_name t" d s1] obtain ms w where
      u: "updateScheduler E fl (t_name t) d s1 = (Returns (), s1\<lparr>stdout := stdout s1 @ ms, outside := w\<rparr>)"
        "started ms = []" "erroneous ms = []" by blast
    with True eq have "run_end E fl t hosts (sel, out, d) s = (Returns e, s1\<lparr>stdout := stdout s1 @ ms, outside := w\<rparr>)"
      by (simp add: go_seq_simps(1) [where m = "updateScheduler E fl (t_name t) d" and s = s1, OF u(1)] go_prim_simps)
    with u pre show ?thesis
      by (intro that [where e = e and ms = "pre @ ms" and w = w]) (simp_all add: s1_def e_def [symmetric])
  next
    case False
    with eq have "run_end E fl t hosts (sel, out, d) s = (Returns e, s1)"
      by (simp add: go_seq_simps(1) [OF go_prim_simps(1)] go_prim_simps)
    with pre show ?thesis
      by (intro that [where e = e and ms = pre and w = "outside s1"]) (simp_all add: s1_def e_def [symmetric])
  qed
qed

lemma run_finish_cases:
  obtains e ms w where
    "run_finish E fl t hosts s = (Returns e, s\<lparr>
        orphans := (if timed_out E fl t hosts s then (t_name t, hosts) # orphans s else orphans s),
        stdout := stdout s @ ms, outside := w\<rparr>)"
    "timed_out E fl t hosts s \<Longrightarrow> e" "started ms = []" "erroneous ms = (if e then [t_name t] else [])"
proof -
  obtain sel out d w1 where c: "cmd_Run E (t_name t) (replace_hosts (Join hosts '' '') (os_Environ E)) (timeout fl) (outside s)
      = ((sel, out, d), w1)" by (metis prod.exhaust)
  then have eq: "run_finish E fl t hosts s = run_end E fl t hosts (sel, out, d) (s\<lparr>outside := w1\<rparr>)"
    by (simp add: run_finish_def run_select_def go_run)
  obtain e ms w where "run_end E fl t hosts (sel, out, d) (s\<lparr>outside := w1\<rparr>) =
      (Returns e, s\<lparr>outside := w1\<rparr>\<lparr>
        orphans := (if sel = TimedOut then (t_name t, hosts) # orphans (s\<lparr>outside := w1\<rparr>) else orphans (s\<lparr>outside := w1\<rparr>)),
        stdout := stdout (s\<lparr>outside := w1\<rparr>) @ ms, outside := w\<rparr>)"
    "e \<longleftrightarrow> sel \<noteq> Done None" "started ms = []" "erroneous ms = (if e then [t_name t] else [])"
    by (rule run_end_cases)
  with eq show ?thesis
    by (intro that [where e = e and ms = ms and w = w]) (simp_all add: timed_out_def c)
qed

lemma run_cases:
  obtains e ms s' where
    "run E fl t hosts s = (Returns e, s')" "stdout s' = stdout s @ ms"
    "started ms = [(t_name t, hosts)]" "erroneous ms = (if e then [t_name t] else [])"
proof -
  let ?s = "s\<lparr>stdout := stdout s @ [Running (t_name t) hosts]\<rparr>"
  obtain e ms w where f: "run_finish E fl t hosts ?s = (Returns e, ?s\<lparr>
        orphans := (if timed_out E fl t hosts ?s then (t_name t, hosts) # orphans ?s else orphans ?s),
        stdout := stdout ?s @ ms, outside := w\<rparr>)"
    "started ms = []" "erroneous ms = (if e then [t_name t] else [])"
    by (rule run_finish_cases)
  have "run E fl t hosts s = run_finish E fl t hosts ?s"
    by (simp add: run_def run_start_def go_run)
  from this f(1) have "run E fl t hosts s = (Returns e, ?s\<lparr>
        orphans := (if timed_out E fl t hosts ?s then (t_name t, hosts) # orphans ?s else orphans ?s),
        stdout := stdout ?s @ ms, outside := w\<rparr>)" by (rule trans)
  then show ?thesis
    by (rule that [where ms = "Running (t_name t) hosts # ms"]) (simp_all add: f(2,3))
qed

definition summary_lines :: "nat \<Rightarrow> test list \<Rightarrow> message list" where
  "summary_lines n failed = (if failed = [] then [RanOk n]
     else RanFailed n (length failed) # map (\<lambda>t. Fail (t_name t)) failed)"

lemma summary_run: "summary n failed s = (Returns (), s\<lparr>stdout := stdout s @ summary_lines n failed\<rparr>)"
  by (simp add: summary_def summary_lines_def go_for_print go_run)

lemma run_all_runs:
  "\<exists>fs ms s'. run_all E fl hosts ts failed s = (Returns (failed @ fs), s') \<and> stdout s' = stdout s @ ms
     \<and> started ms = map (\<lambda>t. (t_name t, hosts)) ts \<and> erroneous ms = map t_name fs \<and> subseq fs ts"
proof (induction ts arbitrary: failed s)
  case Nil
  show ?case by (simp add: go_run)
next
  case (Cons t ts)
  obtain e ms s' where r: "run E fl t hosts s = (Returns e, s')" "stdout s' = stdout s @ ms"
    "started ms = [(t_name t, hosts)]" "erroneous ms = (if e then [t_name t] else [])" by (rule run_cases)
  from Cons.IH [of "if e then failed @ [t] else failed" s'] obtain fs ms' s'' where
    i: "run_all E fl hosts ts (if e then failed @ [t] else failed) s' = (Returns ((if e then failed @ [t] else failed) @ fs), s'')"
      "stdout s'' = stdout s' @ ms'" "started ms' = map (\<lambda>t. (t_name t, hosts)) ts"
      "erroneous ms' = map t_name fs" "subseq fs ts" by blast
  show ?case
    by (rule exI [of _ "if e then t # fs else fs"], rule exI [of _ "ms @ ms'"], rule exI [of _ s''])
      (use r i in \<open>auto simp: go_bind_simps intro: list_emb_Cons\<close>)
qed

lemma sequential_runs:
  "\<exists>ms fs s'. sequential E fl ts hosts s = (Returns (fs \<noteq> []), s')
     \<and> stdout s' = stdout s @ ms @ summary_lines (length ts) fs
     \<and> started ms = map (\<lambda>t. (t_name t, hosts)) ts
     \<and> erroneous ms = map t_name fs \<and> subseq fs ts"
proof -
  from run_all_runs [of E fl hosts ts "[]" s] obtain fs ms s' where
    "run_all E fl hosts ts [] s = (Returns fs, s')" "stdout s' = stdout s @ ms"
    "started ms = map (\<lambda>t. (t_name t, hosts)) ts" "erroneous ms = map t_name fs" "subseq fs ts" by auto
  then show ?thesis
    by (intro exI [of _ ms] exI [of _ fs])
      (simp add: sequential_def go_bind_simps go_seq_def summary_run go_prim_simps)
qed

section \<open>The environment of a test\<close>

text \<open>The first variable whose name starts with \<open>HOSTS\<close> is the one that is replaced.\<close>

lemma replace_hosts_first:
  assumes "\<forall>v \<in> set as. \<not> HasPrefix v ''HOSTS''" and "HasPrefix v ''HOSTS''"
  shows "replace_hosts hosts (as @ v # bs) = as @ (''HOSTS='' @ hosts) # bs"
  using assms by (induction as) auto

lemma HasPrefix_trans: "HasPrefix v (p @ q) \<Longrightarrow> HasPrefix v p"
  by (auto simp: HasPrefix_iff)

text \<open>
  A test sees its hosts in \<open>HOSTS\<close>. When the first of the runner's variables whose name starts
  with \<open>HOSTS\<close> is \<open>HOSTS\<close> itself, the command finds there the hosts it was given, joined with
  blanks, and every other variable unchanged. Otherwise the variable that comes first is
  overwritten: it is not among the variables of the command unless it occurs again.
\<close>

lemma test_environment:
  assumes "\<forall>v \<in> set as. \<not> HasPrefix v ''HOSTS''" and "HasPrefix v ''HOSTS''"
    and "CHR ''='' \<notin> set key"
  shows "let env = replace_hosts (Join hosts '' '') (as @ v # bs) in
      LookupEnv env ''HOSTS'' = Some (Join hosts '' '')
      \<and> (key \<noteq> ''HOSTS'' \<longrightarrow> LookupEnv env key =
          (if HasPrefix v (key @ ''='') then LookupEnv (as @ bs) key else LookupEnv (as @ v # bs) key))"
proof -
  let ?h = "''HOSTS='' @ Join hosts '' ''"
  have lookup: "LookupEnv (as @ xs) k = (if \<exists>a \<in> set as. HasPrefix a (k @ ''='') then LookupEnv as k else LookupEnv xs k)" for k xs
    by (induction as) (auto simp: LookupEnv_Cons)
  have no: "\<not> (\<exists>a \<in> set as. HasPrefix a (''HOSTS'' @ ''=''))"
    using assms(1) by (blast dest: HasPrefix_trans)
  have other: "\<not> HasPrefix ?h (key @ ''='')" if "key \<noteq> ''HOSTS''"
  proof
    assume "HasPrefix ?h (key @ ''='')"
    then obtain t where "''HOSTS'' @ CHR ''='' # Join hosts '' '' = key @ CHR ''='' # t" by (auto simp: HasPrefix_iff)
    then have "Split (''HOSTS'' @ CHR ''='' # Join hosts '' '') (CHR ''='') = Split (key @ CHR ''='' # t) (CHR ''='')" by simp
    with Split_append [of "CHR ''=''" "''HOSTS''" "Join hosts '' ''"] Split_append [OF assms(3), of t]
    have "''HOSTS'' = key" by simp
    with that show False by simp
  qed
  have HOSTS: "LookupEnv (?h # bs) ''HOSTS'' = Some (Join hosts '' '')"
    using LookupEnv_set [of "''HOSTS''"] by simp
  from no other HOSTS assms(1,2) show ?thesis
    by (auto simp: replace_hosts_first lookup LookupEnv_Cons Let_def)
qed

lemma test_environment_witness:
  "let env = replace_hosts (Join [''h1'', ''h2''] '' '') ([''PATH=/bin''] @ ''HOSTS=h1 h2 h3'' # [''HOME=/root'']) in
     LookupEnv env ''HOSTS'' = Some (Join [''h1'', ''h2''] '' '')
     \<and> (''HOME'' \<noteq> ''HOSTS'' \<longrightarrow> LookupEnv env ''HOME'' =
         (if HasPrefix ''HOSTS=h1 h2 h3'' (''HOME'' @ ''='') then LookupEnv ([''PATH=/bin''] @ [''HOME=/root'']) ''HOME''
          else LookupEnv ([''PATH=/bin''] @ ''HOSTS=h1 h2 h3'' # [''HOME=/root'']) ''HOME''))"
  by (rule test_environment) (simp_all add: HasPrefix_def)

section \<open>The exit status\<close>

definition all_hosts :: "'w runner_env \<Rightarrow> string list" where
  "all_hosts E = Fields (Getenv (os_Environ E) ''HOSTS'')"

lemma main_sequential_tests:
  assumes "getTests E (effective_flags E fl) args s = (Returns (Inr ts), s1)" and "all_hosts E \<noteq> []"
  shows "main_sequential E fl args s = go_bind (sequential E (effective_flags E fl) ts (all_hosts E)) runner_end s1"
  using assms by (simp add: main_sequential_def runner_start_def all_hosts_def Let_def go_bind_def go_return_def)

lemma getTests_prints:
  obtains r s' ms where "getTests E fl names s = (Returns r, s')" "stdout s' = stdout s @ ms"
    "started ms = []" "erroneous ms = []"
proof -
  define m where "m = (if useScheduler fl then getSchedule E fl names else go_return (Inr names))"
  have "\<exists>r w. m s = (Returns r, s\<lparr>outside := w\<rparr>)"
  proof (cases "useScheduler fl")
    case True
    then show ?thesis by (auto simp: m_def getSchedule_def go_run)
  next
    case False
    then show ?thesis by (auto simp: m_def go_run intro: exI [of _ "outside s"])
  qed
  then obtain r w where m: "m s = (Returns r, s\<lparr>outside := w\<rparr>)" by blast
  show ?thesis
  proof (cases r)
    case (Inl err)
    with m show ?thesis
      by (intro that [where r = "Inl err" and ms = "[]" and s' = "s\<lparr>outside := w\<rparr>"])
        (simp_all add: getTests_def m_def [symmetric] go_bind_simps go_prim_simps)
  next
    case (Inr ns)
    let ?ms = "map (\<lambda>name. Needs name (numHosts name)) ns"
    have "started ?ms = []" "erroneous ?ms = []"
      by (induction ns) simp_all
    with m Inr show ?thesis
      by (intro that [where r = "Inr (map make_test ns)" and ms = ?ms and s' = "s\<lparr>outside := w, stdout := stdout s @ ?ms\<rparr>"])
        (simp_all add: getTests_def m_def [symmetric] go_bind_simps go_prim_simps go_seq_def go_for_print)
  qed
qed

lemma main_sequential_runs:
  assumes "getTests E (effective_flags E fl) args s = (Returns (Inr ts), s1)" and "all_hosts E \<noteq> []"
  obtains ms fs s' where "main_sequential E fl args s = (if fs = [] then Returns () else Exits 1, s')"
    "stdout s' = stdout s1 @ ms @ summary_lines (length ts) fs" "subseq fs ts"
    "started ms = map (\<lambda>t. (t_name t, all_hosts E)) ts" "erroneous ms = map t_name fs"
proof -
  from sequential_runs [of E "effective_flags E fl" ts "all_hosts E" s1] obtain ms fs s' where
    q: "sequential E (effective_flags E fl) ts (all_hosts E) s1 = (Returns (fs \<noteq> []), s')"
      "stdout s' = stdout s1 @ ms @ summary_lines (length ts) fs"
      "started ms = map (\<lambda>t. (t_name t, all_hosts E)) ts" "erroneous ms = map t_name fs" "subseq fs ts" by blast
  from main_sequential_tests [OF assms] q(1)
  have "main_sequential E fl args s = (if fs = [] then Returns () else Exits 1, s')"
    by (simp add: go_bind_simps runner_end_def go_prim_simps)
  with q show ?thesis by (intro that)
qed

lemma summary_lines_quiet:
  "started (summary_lines n fs) = []" "erroneous (summary_lines n fs) = []"
  by (auto simp: summary_lines_def started_def erroneous_def List.map_filter_def)


text \<open>
  An answer of the scheduler that has no tests passes. Whatever the status of the answer, if
  its body is a JSON object without a key \<open>tests\<close>, such as an error message, the runner runs no
  test, prints that all have succeeded, and ends with success.
\<close>

lemma empty_schedule_passes:
  assumes "useScheduler fl" and "all_hosts E \<noteq> []"
    and "http_Post E (schedule_url E (effective_flags E fl)) jsonContentType
           (json_line (encode_schedule \<lparr>Tests = Some args\<rparr>)) (outside s) = (Inr body, w)"
    and "read_json body = Inr (JObj kvs)"
    and "\<forall>kv \<in> set kvs. \<not> equal_fold ''tests'' (fst kv)"
  shows "main_sequential E fl args s = (Returns (), s\<lparr>outside := w, stdout := stdout s @ [RanOk 0]\<rparr>)"
proof -
  have "find_field schedule_fields (fst kv) = None" if "kv \<in> set kvs" for kv
    using assms(5) that equal_fold_refl [of "''tests''"] by (auto simp: find_field_def schedule_fields_def)
  then have "decode_fields schedule_fields kvs x = Inr x" for x by (induction kvs) simp_all
  with assms(1,3,4) have "getTests E (effective_flags E fl) args s = (Returns (Inr []), s\<lparr>outside := w\<rparr>)"
    by (simp add: getTests_def getSchedule_def effective_flags_def go_run)
  from main_sequential_tests [OF this assms(2)] show ?thesis
    by (simp add: sequential_def summary_def runner_end_def go_run)
qed

definition demo_flags :: flags where
  "demo_flags = \<lparr>useScheduler = True, runParallel = True, verbose = False, schedulerHost = ''sched'', timeout = 180\<rparr>"

definition demo_runner_env :: "select \<Rightarrow> unit runner_env" where
  "demo_runner_env r = \<lparr>os_Environ = [''HOSTS=h1''], cmd_Run = (\<lambda>_ _ _ w. ((r, [], 5), w)),
     http_Do = (\<lambda>_ w. (None, w)), http_Post = (\<lambda>_ _ _ w. (Inr (json_text (JObj [(''error'', JStr ''quota'')]), None), w))\<rparr>"

definition demo_process :: "unit runner" where
  "demo_process = \<lparr>outside = (), stdout = [], orphans = []\<rparr>"

lemma demo_hosts: "all_hosts (demo_runner_env r) = [''h1'']"
proof -
  have "Getenv (os_Environ (demo_runner_env r)) ''HOSTS'' = ''h1''"
    by (simp add: Getenv_def demo_runner_env_def LookupEnv_Cons HasPrefix_def)
  then show ?thesis by (simp add: all_hosts_def Fields_word plain_char_def)
qed

lemma empty_schedule_passes_witness:
  "main_sequential (demo_runner_env TimedOut) demo_flags [''a_1_test.sh''] demo_process =
     (Returns (), demo_process\<lparr>outside := (), stdout := stdout demo_process @ [RanOk 0]\<rparr>)"
proof (rule empty_schedule_passes)
  show "all_hosts (demo_runner_env TimedOut) \<noteq> []" by (simp add: demo_hosts)
  show "\<forall>kv \<in> set [(''error'', JStr ''quota'')]. \<not> equal_fold ''tests'' (fst kv)"
    by (simp add: equal_fold_def fold_case_def)
  show "read_json (json_text (JObj [(''error'', JStr ''quota'')]), None) = Inr (JObj [(''error'', JStr ''quota'')])"
    by (simp del: json_text.simps add: to_valid_ascii)
qed (simp_all add: demo_flags_def demo_runner_env_def)

end
