(* ===== verification/Runner_Parallel.thy ===== *)
theory Runner_Parallel
  imports Runner Transitions
begin

text \<open>
  The parallel mode of the runner (\<open>parallel\<close> in \<open>tools/runner/runner.go\<close>). The main goroutine hands
  tests and hosts to goroutines and waits for their results on an unbuffered channel; the
  goroutines run the tests, at their own pace, and return the hosts. It is a machine in which the
  main goroutine and the goroutines of the tests take turns: a goroutine prints the first line
  of \<open>run\<close>, then gets the result of the command and reports it, then sends.

  The slices are lists here; that they share arrays in the program is the subject of
  \<open>Runner_Slices\<close>. \<open>testsCopy\<close> shares the array of \<open>ts\<close>; only its length is used.
\<close>

section \<open>The machine\<close>

datatype phase = Launched | Executing | Sending bool

record goroutine =
  g_test :: test
  g_hosts :: "string list"
  g_phase :: phase

datatype par_pc = Outer | Inner | Receive | Finished bool | Crashed go_panic

record 'w par =
  p_total :: nat
  p_ts :: "test list"
  p_hosts :: "string list"
  p_gos :: "goroutine list"
  p_outstanding :: int
  p_failed :: "test list"
  p_pc :: par_pc
  p_proc :: "'w runner"

definition par_init :: "test list \<Rightarrow> string list \<Rightarrow> 'w runner \<Rightarrow> 'w par" where
  "par_init ts hosts s = \<lparr>p_total = length ts, p_ts = Sort (Reverse Less) ts, p_hosts = hosts, p_gos = [],
     p_outstanding = 0, p_failed = [], p_pc = Outer, p_proc = s\<rparr>"

text \<open>The inner loop: one more test is started, or the loop is left.\<close>

definition launch :: "'w par \<Rightarrow> 'w par" where
  "launch P =
     (if 0 < length (p_hosts P) then
        (case pick (p_ts P) (int (length (p_hosts P))) of
           None \<Rightarrow> P\<lparr>p_pc := Receive\<rparr>
         | Some (t, us) \<Rightarrow>
             (if 0 \<le> t_hosts t \<and> t_hosts t \<le> int (length (p_hosts P)) then
                P\<lparr>p_ts := us,
                  p_gos := p_gos P @ [\<lparr>g_test = t, g_hosts = take (nat (t_hosts t)) (p_hosts P), g_phase = Launched\<rparr>],
                  p_hosts := drop (nat (t_hosts t)) (p_hosts P),
                  p_outstanding := p_outstanding P + 1\<rparr>
              else P\<lparr>p_ts := us, p_pc := Crashed SliceOutOfRange\<rparr>))
      else P\<lparr>p_pc := Receive\<rparr>)"

text \<open>The steps of the main goroutine that do not wait.\<close>

definition main_step :: "'w par \<Rightarrow> 'w par option" where
  "main_step P = (case p_pc P of
      Outer \<Rightarrow> Some (if 0 < length (p_ts P) \<or> 0 < p_outstanding P then P\<lparr>p_pc := Inner\<rparr>
        else P\<lparr>p_proc := snd (summary (p_total P) (p_failed P) (p_proc P)), p_pc := Finished (0 < length (p_failed P))\<rparr>)
    | Inner \<Rightarrow> Some (launch P)
    | _ \<Rightarrow> None)"

text \<open>It waits for a goroutine that is ready to send.\<close>

definition receive :: "nat \<Rightarrow> 'w par \<Rightarrow> 'w par option" where
  "receive i P =
     (if p_pc P = Receive \<and> i < length (p_gos P) then
        (let g = p_gos P ! i in case g_phase g of
           Sending errored \<Rightarrow> Some (P\<lparr>
             p_gos := take i (p_gos P) @ drop (Suc i) (p_gos P),
             p_hosts := p_hosts P @ g_hosts g,
             p_outstanding := p_outstanding P - 1,
             p_failed := (if errored then p_failed P @ [g_test g] else p_failed P),
             p_pc := Outer\<rparr>)
         | _ \<Rightarrow> None)
      else None)"

text \<open>The goroutine of a test, as long as the process is there.\<close>

definition exited :: "'w par \<Rightarrow> bool" where
  "exited P \<longleftrightarrow> (case p_pc P of Finished _ \<Rightarrow> True | Crashed _ \<Rightarrow> True | _ \<Rightarrow> False)"

definition go_step :: "'w runner_env \<Rightarrow> flags \<Rightarrow> nat \<Rightarrow> 'w par \<Rightarrow> 'w par option" where
  "go_step E fl i P =
     (if \<not> exited P \<and> i < length (p_gos P) then
        (let g = p_gos P ! i;
             upd = (\<lambda>ph s. P\<lparr>p_gos := take i (p_gos P) @ g\<lparr>g_phase := ph\<rparr> # drop (Suc i) (p_gos P), p_proc := s\<rparr>)
         in case g_phase g of
           Launched \<Rightarrow> Some (upd Executing (snd (run_start (g_test g) (g_hosts g) (p_proc P))))
         | Executing \<Rightarrow> (case run_finish E fl (g_test g) (g_hosts g) (p_proc P) of
               (Returns errored, s) \<Rightarrow> Some (upd (Sending errored) s)
             | _ \<Rightarrow> None)
         | Sending errored \<Rightarrow> None)
      else None)"

inductive par_step :: "'w runner_env \<Rightarrow> flags \<Rightarrow> 'w par \<Rightarrow> 'w par \<Rightarrow> bool" for E :: "'w runner_env" and fl :: flags where
  main: "main_step P = Some P' \<Longrightarrow> par_step E fl P P'"
| receive: "receive i P = Some P' \<Longrightarrow> par_step E fl P P'"
| goroutine: "go_step E fl i P = Some P' \<Longrightarrow> par_step E fl P P'"

inductive_cases par_stepE: "par_step E fl P P'"

section \<open>The steps, by cases\<close>

lemma nth_split: "i < length xs \<Longrightarrow> xs = take i xs @ xs ! i # drop (Suc i) xs"
  by (rule id_take_nth_drop)

lemma receive_cases:
  assumes "receive i P = Some P'"
  obtains as g bs e where "p_gos P = as @ g # bs" "g_phase g = Sending e" "p_pc P = Receive"
    "P' = P\<lparr>p_gos := as @ bs, p_hosts := p_hosts P @ g_hosts g, p_outstanding := p_outstanding P - 1,
       p_failed := (if e then p_failed P @ [g_test g] else p_failed P), p_pc := Outer\<rparr>"
  using assms nth_split [of i "p_gos P"]
  by (auto simp: receive_def Let_def split: if_splits phase.splits)

lemma go_step_cases:
  assumes "go_step E fl i P = Some P'"
  obtains (start) as g bs where "\<not> exited P" "p_gos P = as @ g # bs" "g_phase g = Launched"
      "P' = P\<lparr>p_gos := as @ g\<lparr>g_phase := Executing\<rparr> # bs,
         p_proc := (p_proc P)\<lparr>stdout := stdout (p_proc P) @ [Running (t_name (g_test g)) (g_hosts g)]\<rparr>\<rparr>"
  | (finish) as g bs e ms w where "\<not> exited P" "p_gos P = as @ g # bs" "g_phase g = Executing"
      "P' = P\<lparr>p_gos := as @ g\<lparr>g_phase := Sending e\<rparr> # bs,
         p_proc := (p_proc P)\<lparr>
           orphans := (if timed_out E fl (g_test g) (g_hosts g) (p_proc P) then (t_name (g_test g), g_hosts g) # orphans (p_proc P)
             else orphans (p_proc P)),
           stdout := stdout (p_proc P) @ ms, outside := w\<rparr>\<rparr>"
      "started ms = []" "erroneous ms = (if e then [t_name (g_test g)] else [])"
proof -
  from assms have i: "\<not> exited P" "i < length (p_gos P)" by (auto simp: go_step_def split: if_splits)
  let ?g = "p_gos P ! i"
  have s: "p_gos P = take i (p_gos P) @ ?g # drop (Suc i) (p_gos P)" using i(2) by (rule nth_split)
  show thesis
  proof (cases "g_phase ?g")
    case Launched
    with assms i have "P' = P\<lparr>p_gos := take i (p_gos P) @ ?g\<lparr>g_phase := Executing\<rparr> # drop (Suc i) (p_gos P),
         p_proc := (p_proc P)\<lparr>stdout := stdout (p_proc P) @ [Running (t_name (g_test ?g)) (g_hosts ?g)]\<rparr>\<rparr>"
      by (simp add: go_step_def run_start_def go_run Let_def)
    with i(1) s Launched show ?thesis by (rule start)
  next
    case Executing
    obtain e ms w where r: "run_finish E fl (g_test ?g) (g_hosts ?g) (p_proc P) = (Returns e, (p_proc P)\<lparr>
        orphans := (if timed_out E fl (g_test ?g) (g_hosts ?g) (p_proc P) then (t_name (g_test ?g), g_hosts ?g) # orphans (p_proc P)
          else orphans (p_proc P)), stdout := stdout (p_proc P) @ ms, outside := w\<rparr>)"
      "started ms = []" "erroneous ms = (if e then [t_name (g_test ?g)] else [])"
      by (rule run_finish_cases)
    from r(1) assms i Executing have "P' = P\<lparr>p_gos := take i (p_gos P) @ ?g\<lparr>g_phase := Sending e\<rparr> # drop (Suc i) (p_gos P),
         p_proc := (p_proc P)\<lparr>
           orphans := (if timed_out E fl (g_test ?g) (g_hosts ?g) (p_proc P) then (t_name (g_test ?g), g_hosts ?g) # orphans (p_proc P)
             else orphans (p_proc P)),
           stdout := stdout (p_proc P) @ ms, outside := w\<rparr>\<rparr>"
      by (simp add: go_step_def Let_def)
    with i(1) s Executing show ?thesis using r(2,3) by (rule finish)
  next
    case (Sending e)
    with assms i show ?thesis by (simp add: go_step_def Let_def)
  qed
qed

lemma launch_cases:
  obtains (wait) "p_hosts P = [] \<or> pick (p_ts P) (int (length (p_hosts P))) = None" "launch P = P\<lparr>p_pc := Receive\<rparr>"
  | (crash) t us where "pick (p_ts P) (int (length (p_hosts P))) = Some (t, us)" "t_hosts t < 0"
      "launch P = P\<lparr>p_ts := us, p_pc := Crashed SliceOutOfRange\<rparr>"
  | (start) t us where "p_hosts P \<noteq> []" "pick (p_ts P) (int (length (p_hosts P))) = Some (t, us)" "0 \<le> t_hosts t"
      "t_hosts t \<le> int (length (p_hosts P))"
      "launch P = P\<lparr>p_ts := us,
         p_gos := p_gos P @ [\<lparr>g_test = t, g_hosts = take (nat (t_hosts t)) (p_hosts P), g_phase = Launched\<rparr>],
         p_hosts := drop (nat (t_hosts t)) (p_hosts P), p_outstanding := p_outstanding P + 1\<rparr>"
proof (cases "p_hosts P = [] \<or> pick (p_ts P) (int (length (p_hosts P))) = None")
  case True
  then show ?thesis by (intro wait) (auto simp: launch_def)
next
  case False
  then obtain t us where p: "pick (p_ts P) (int (length (p_hosts P))) = Some (t, us)" by auto
  note fits = pick_fits [OF p]
  show ?thesis
  proof (cases "t_hosts t < 0")
    case True
    with p False show ?thesis by (intro crash [OF p]) (auto simp: launch_def)
  next
    case nonneg: False
    with p False fits show ?thesis by (intro start [OF _ p]) (auto simp: launch_def)
  qed
qed

section \<open>The invariant\<close>

text \<open>The pool: the free hosts and those of the goroutines are the hosts of the start, and every
  goroutine has as many as its test needs.\<close>

definition busy :: "goroutine list \<Rightarrow> string multiset" where
  "busy gos = mset (concat (map g_hosts gos))"

definition pool_inv :: "string list \<Rightarrow> 'w par \<Rightarrow> bool" where
  "pool_inv hosts P \<longleftrightarrow> p_outstanding P = int (length (p_gos P))
     \<and> mset (p_hosts P) + busy (p_gos P) = mset hosts
     \<and> (\<forall>g \<in> set (p_gos P). int (length (g_hosts g)) = t_hosts (g_test g))"

text \<open>The tests: they stay in order, come from the list of the start, and one that needs more
  hosts than there are stays in the list.\<close>

definition tests_inv :: "test list \<Rightarrow> string list \<Rightarrow> 'w par \<Rightarrow> bool" where
  "tests_inv ts hosts P \<longleftrightarrow> p_total P = length ts \<and> in_order (Reverse Less) (p_ts P)
     \<and> set (p_ts P) \<union> g_test ` set (p_gos P) \<subseteq> set ts
     \<and> {t \<in> set ts. int (length hosts) < t_hosts t} \<subseteq> set (p_ts P)"

text \<open>What the control point of the main goroutine says.\<close>

definition pc_inv :: "test list \<Rightarrow> 'w par \<Rightarrow> bool" where
  "pc_inv ts P \<longleftrightarrow> (case p_pc P of
      Outer \<Rightarrow> True
    | Inner \<Rightarrow> p_ts P \<noteq> [] \<or> p_gos P \<noteq> []
    | Receive \<Rightarrow> (p_ts P \<noteq> [] \<or> p_gos P \<noteq> []) \<and> (p_hosts P = [] \<or> pick (p_ts P) (int (length (p_hosts P))) = None)
    | Finished b \<Rightarrow> p_ts P = [] \<and> p_gos P = [] \<and> b = (p_failed P \<noteq> [])
    | Crashed p \<Rightarrow> \<exists>t \<in> set ts. t_hosts t < 0)"

text \<open>The output: every test is waiting in the list, waiting in its goroutine, or has been
  started; every failure has been received or is about to be.\<close>

definition names :: "(goroutine \<Rightarrow> bool) \<Rightarrow> goroutine list \<Rightarrow> string multiset" where
  "names Q gos = mset (map (\<lambda>g. t_name (g_test g)) (filter Q gos))"

definition accounted :: "test list \<Rightarrow> string list \<Rightarrow> 'w par \<Rightarrow> message list \<Rightarrow> bool" where
  "accounted ts hosts P ms \<longleftrightarrow>
     ((\<forall>p. p_pc P \<noteq> Crashed p) \<longrightarrow> mset (map fst (started ms)) + names (\<lambda>g. g_phase g = Launched) (p_gos P)
        + mset (map t_name (p_ts P)) = mset (map t_name ts))
     \<and> mset (erroneous ms) = mset (map t_name (p_failed P)) + names (\<lambda>g. g_phase g = Sending True) (p_gos P)
     \<and> (\<forall>(n, hs) \<in> set (started ms). set hs \<subseteq> set hosts \<and> (\<exists>t \<in> set ts. t_name t = n \<and> int (length hs) = t_hosts t))"

definition output_inv :: "test list \<Rightarrow> string list \<Rightarrow> 'w runner \<Rightarrow> 'w par \<Rightarrow> bool" where
  "output_inv ts hosts s P \<longleftrightarrow> (\<exists>ms. accounted ts hosts P ms \<and> stdout (p_proc P) = stdout s @ ms @
     (case p_pc P of Finished _ \<Rightarrow> summary_lines (length ts) (p_failed P) | _ \<Rightarrow> []))"

definition par_inv :: "test list \<Rightarrow> string list \<Rightarrow> 'w runner \<Rightarrow> 'w par \<Rightarrow> bool" where
  "par_inv ts hosts s P \<longleftrightarrow> pool_inv hosts P \<and> tests_inv ts hosts P \<and> pc_inv ts P \<and> output_inv ts hosts s P"

lemma busy_simps [simp]:
  "busy [] = {#}" "busy (g # gos) = mset (g_hosts g) + busy gos" "busy (gos @ gos') = busy gos + busy gos'"
  by (simp_all add: busy_def)

lemma names_simps [simp]:
  "names Q [] = {#}" "names Q (g # gos) = (if Q g then {#t_name (g_test g)#} else {#}) + names Q gos"
  "names Q (gos @ gos') = names Q gos + names Q gos'"
  by (simp_all add: names_def)

lemma busy_subset: "pool_inv hosts P \<Longrightarrow> g \<in> set (p_gos P) \<Longrightarrow> set (g_hosts g) \<subseteq> set hosts"
proof -
  assume "pool_inv hosts P" and g: "g \<in> set (p_gos P)"
  then have "set_mset (mset (p_hosts P) + busy (p_gos P)) = set_mset (mset hosts)" by (simp add: pool_inv_def)
  with g show ?thesis by (auto simp: busy_def)
qed

lemma par_inv_init: "par_inv ts hosts s (par_init ts hosts s)"
  unfolding par_inv_def
proof (intro conjI)
  show "output_inv ts hosts s (par_init ts hosts s)"
    unfolding output_inv_def
    by (rule exI [of _ "[]"]) (simp add: accounted_def par_init_def)
qed (simp_all add: par_init_def pool_inv_def tests_inv_def pc_inv_def biggest_first.in_order_Sort)

subsection \<open>The main goroutine\<close>

lemma main_step_inv:
  assumes "par_inv ts hosts s P" and "p_pc P = Outer" and "main_step P = Some P'"
  shows "par_inv ts hosts s P'"
proof (cases "p_ts P \<noteq> [] \<or> p_gos P \<noteq> []")
  case True
  with assms have P': "P' = P\<lparr>p_pc := Inner\<rparr>" by (auto simp: main_step_def par_inv_def pool_inv_def split: if_splits)
  with True assms show ?thesis
    by (auto simp: par_inv_def pool_inv_def tests_inv_def pc_inv_def output_inv_def accounted_def)
next
  case False
  with assms have P': "P' = P\<lparr>p_proc := snd (summary (p_total P) (p_failed P) (p_proc P)), p_pc := Finished (p_failed P \<noteq> [])\<rparr>"
    by (auto simp: main_step_def par_inv_def pool_inv_def)
  from assms(1,2) obtain ms where ms: "accounted ts hosts P ms" "stdout (p_proc P) = stdout s @ ms" "p_total P = length ts"
    by (auto simp: par_inv_def output_inv_def tests_inv_def)
  then have "accounted ts hosts P' ms" using P' assms(2) by (auto simp: accounted_def)
  moreover have "stdout (p_proc P') = stdout s @ ms @ summary_lines (length ts) (p_failed P')"
    using P' ms(2,3) by (simp add: summary_run)
  ultimately have "output_inv ts hosts s P'" unfolding output_inv_def using P' by auto
  with False P' assms(1) show ?thesis
    by (auto simp: par_inv_def pool_inv_def tests_inv_def pc_inv_def)
qed

lemma pool_inv_launch:
  assumes "pool_inv hosts P" and "0 \<le> t_hosts t" and "t_hosts t \<le> int (length (p_hosts P))"
    and "P' = P\<lparr>p_ts := us,
         p_gos := p_gos P @ [\<lparr>g_test = t, g_hosts = take (nat (t_hosts t)) (p_hosts P), g_phase = Launched\<rparr>],
         p_hosts := drop (nat (t_hosts t)) (p_hosts P), p_outstanding := p_outstanding P + 1\<rparr>"
  shows "pool_inv hosts P'"
proof -
  let ?n = "nat (t_hosts t)"
  have "mset (take ?n (p_hosts P)) + mset (drop ?n (p_hosts P)) = mset (p_hosts P)"
    by (metis append_take_drop_id mset_append)
  with assms show ?thesis by (auto simp: pool_inv_def ac_simps)
qed

lemma launch_inv:
  assumes "par_inv ts hosts s P" and "p_pc P = Inner"
  shows "par_inv ts hosts s (launch P)"
proof (cases rule: launch_cases [of P])
  case wait
  with assms show ?thesis
    by (auto simp: par_inv_def pool_inv_def tests_inv_def pc_inv_def output_inv_def accounted_def)
next
  case (crash t us)
  have us: "mset (p_ts P) = add_mset t (mset us)" using crash(1) by (rule pick_mset)
  then have "set (p_ts P) = insert t (set us)" by (metis set_mset_add_mset_insert set_mset_mset)
  with assms crash pick_in_order [OF _ crash(1)] show ?thesis
    by (auto simp: par_inv_def pool_inv_def tests_inv_def pc_inv_def output_inv_def accounted_def)
next
  case (start t us)
  have us: "mset (p_ts P) = add_mset t (mset us)" using start(2) by (rule pick_mset)
  then have set: "set (p_ts P) = insert t (set us)" by (metis set_mset_add_mset_insert set_mset_mset)
  from assms(1) have pool: "pool_inv hosts P" by (simp add: par_inv_def)
  then have "length (p_hosts P) \<le> length hosts"
    unfolding pool_inv_def by (metis le_add1 size_mset size_union)
  with start(4) assms(1) set pick_in_order [OF _ start(2)] have tests: "tests_inv ts hosts (launch P)"
    by (auto simp: par_inv_def tests_inv_def start(5))
  from assms obtain ms where ms: "accounted ts hosts P ms" "stdout (p_proc P) = stdout s @ ms"
    by (auto simp: par_inv_def output_inv_def)
  from ms(1) assms(2) have "accounted ts hosts (launch P) ms"
    by (simp add: accounted_def start(5) us ac_simps)
  with ms(2) assms(2) have "output_inv ts hosts s (launch P)"
    unfolding output_inv_def by (auto simp: start(5))
  moreover have "pc_inv ts (launch P)" using assms(2) by (simp add: pc_inv_def start(5))
  ultimately show ?thesis
    using tests pool_inv_launch [OF pool start(3,4,5)] by (simp add: par_inv_def)
qed

lemma receive_inv:
  assumes "par_inv ts hosts s P" and "receive i P = Some P'"
  shows "par_inv ts hosts s P'"
  using assms(2)
proof (cases rule: receive_cases)
  case (1 as g bs e)
  from assms(1) 1 obtain ms where ms: "accounted ts hosts P ms" "stdout (p_proc P) = stdout s @ ms"
    by (auto simp: par_inv_def output_inv_def)
  have "accounted ts hosts P' ms" using ms(1) 1 by (cases e) (simp_all add: accounted_def)
  with ms(2) 1 have "output_inv ts hosts s P'" unfolding output_inv_def by auto
  moreover have "pool_inv hosts P'" using assms(1) 1 by (simp add: par_inv_def pool_inv_def ac_simps)
  moreover have "tests_inv ts hosts P'" using assms(1) 1 by (auto simp: par_inv_def tests_inv_def)
  moreover have "pc_inv ts P'" by (simp add: pc_inv_def 1)
  ultimately show ?thesis by (simp add: par_inv_def)
qed

subsection \<open>The goroutines\<close>

text \<open>A step of a goroutine changes its phase and the process; what is left to show is that the
  output is still accounted for.\<close>

lemma go_step_frame:
  assumes "par_inv ts hosts s P" and "\<not> exited P" and "p_gos P = as @ g # bs"
    and "P' = P\<lparr>p_gos := as @ g\<lparr>g_phase := ph\<rparr> # bs, p_proc := s'\<rparr>"
    and "accounted ts hosts P ms" "stdout (p_proc P) = stdout s @ ms"
    and "stdout s' = stdout (p_proc P) @ ms'"
    and "accounted ts hosts P' (ms @ ms')"
  shows "par_inv ts hosts s P'"
proof -
  from assms have "output_inv ts hosts s P'"
    unfolding output_inv_def by (auto simp: exited_def intro!: exI [of _ "ms @ ms'"] split: par_pc.splits)
  moreover have "pool_inv hosts P'" using assms(1,3,4) by (simp add: par_inv_def pool_inv_def)
  moreover have "tests_inv ts hosts P'" using assms(1,3,4) by (simp add: par_inv_def tests_inv_def)
  moreover have "pc_inv ts P'" using assms(1,2,3,4)
    by (auto simp: par_inv_def pc_inv_def exited_def split: par_pc.splits)
  ultimately show ?thesis by (simp add: par_inv_def)
qed

lemma go_step_inv:
  assumes "par_inv ts hosts s P" and "go_step E fl i P = Some P'"
  shows "par_inv ts hosts s P'"
proof -
  have out: "\<exists>ms. accounted ts hosts P ms \<and> stdout (p_proc P) = stdout s @ ms" if "\<not> exited P"
    using that assms(1) by (auto simp: par_inv_def output_inv_def exited_def split: par_pc.splits)
  from assms(2) show ?thesis
  proof (cases rule: go_step_cases)
    case (start as g bs)
    from out [OF start(1)] obtain ms where ms: "accounted ts hosts P ms" "stdout (p_proc P) = stdout s @ ms" by blast
    from assms(1) have "pool_inv hosts P" by (simp add: par_inv_def)
    with start(2) have h: "set (g_hosts g) \<subseteq> set hosts" "int (length (g_hosts g)) = t_hosts (g_test g)"
      using busy_subset [of hosts P g] by (auto simp: pool_inv_def)
    have g: "g_test g \<in> set ts" using assms(1) start(2) by (auto simp: par_inv_def tests_inv_def)
    from ms(1) h g start have "accounted ts hosts P' (ms @ [Running (t_name (g_test g)) (g_hosts g)])"
      by (auto simp: accounted_def)
    from go_step_frame [OF assms(1) start(1,2,4) ms _ this] show ?thesis by simp
  next
    case (finish as g bs e ms' w)
    from out [OF finish(1)] obtain ms where ms: "accounted ts hosts P ms" "stdout (p_proc P) = stdout s @ ms" by blast
    from ms(1) finish have "accounted ts hosts P' (ms @ ms')"
      by (cases e) (simp_all add: accounted_def)
    from go_step_frame [OF assms(1) finish(1,2,4) ms _ this] show ?thesis by simp
  qed
qed

lemma par_step_inv: "par_inv ts hosts s P \<Longrightarrow> par_step E fl P P' \<Longrightarrow> par_inv ts hosts s P'"
proof (elim par_stepE)
  assume P: "par_inv ts hosts s P" and m: "main_step P = Some P'"
  then consider "p_pc P = Outer" | "p_pc P = Inner" "P' = launch P" by (auto simp: main_step_def split: par_pc.splits)
  then show ?thesis using main_step_inv [OF P _ m] launch_inv [OF P] by cases auto
qed (auto intro: receive_inv go_step_inv)

section \<open>Every run ends\<close>

fun phase_size :: "phase \<Rightarrow> nat" where
  "phase_size Launched = 5"
| "phase_size Executing = 4"
| "phase_size (Sending e) = 3"

fun pc_size :: "par_pc \<Rightarrow> nat" where
  "pc_size Outer = 2"
| "pc_size Inner = 1"
| "pc_size _ = 0"

definition par_size :: "'w par \<Rightarrow> nat" where
  "par_size P = 6 * length (p_ts P) + (\<Sum>g \<leftarrow> p_gos P. phase_size (g_phase g)) + pc_size (p_pc P)"

lemma launch_smaller: "p_pc P = Inner \<Longrightarrow> par_size (launch P) < par_size P"
  by (cases rule: launch_cases [of P]) (auto simp: par_size_def dest!: pick_Some)

lemma par_step_smaller: "par_step E fl P P' \<Longrightarrow> par_size P' < par_size P"
proof (elim par_stepE)
  assume "main_step P = Some P'"
  then show ?thesis
    using launch_smaller [of P] by (auto simp: main_step_def par_size_def split: par_pc.splits if_splits)
next
  fix i
  assume "receive i P = Some P'"
  then show ?thesis by (cases rule: receive_cases) (simp add: par_size_def)
next
  fix i
  assume "go_step E fl i P = Some P'"
  then show ?thesis by (cases rule: go_step_cases) (simp_all add: par_size_def)
qed

interpretation par: terminating_system "\<lambda>P. P = par_init ts hosts s" "par_step E fl" "par_inv ts hosts s" par_size
  for ts :: "test list" and hosts :: "string list" and s :: "'w runner" and E :: "'w runner_env" and fl :: flags
  by unfold_locales (auto intro: par_inv_init par_step_inv par_step_smaller)

text \<open>A goroutine that has not sent its result can go on, and one that is ready to send is
  received: without a step, the process has ended or no goroutine is left.\<close>

lemma go_step_possible:
  assumes "\<not> exited P" and "i < length (p_gos P)" and "\<forall>e. g_phase (p_gos P ! i) \<noteq> Sending e"
  shows "\<exists>P'. go_step E fl i P = Some P'"
proof (cases "g_phase (p_gos P ! i)")
  case Executing
  let ?g = "p_gos P ! i"
  obtain e ms w where "run_finish E fl (g_test ?g) (g_hosts ?g) (p_proc P) = (Returns e, (p_proc P)\<lparr>
        orphans := (if timed_out E fl (g_test ?g) (g_hosts ?g) (p_proc P) then (t_name (g_test ?g), g_hosts ?g) # orphans (p_proc P)
          else orphans (p_proc P)), stdout := stdout (p_proc P) @ ms, outside := w\<rparr>)"
    by (rule run_finish_cases)
  with assms Executing show ?thesis by (simp add: go_step_def Let_def)
qed (use assms in \<open>simp_all add: go_step_def Let_def\<close>)

lemma stuck:
  assumes "par_inv ts hosts s P" and "\<not> (\<exists>P'. par_step E fl P P')"
  shows "exited P \<or> p_pc P = Receive \<and> p_gos P = [] \<and> p_ts P \<noteq> []"
proof (rule disjCI)
  assume "\<not> (p_pc P = Receive \<and> p_gos P = [] \<and> p_ts P \<noteq> [])"
  show "exited P"
  proof (rule ccontr)
    assume e: "\<not> exited P"
    have "main_step P = None" using assms(2) par_step.main by (metis not_Some_eq)
    with e have pc: "p_pc P = Receive" by (auto simp: main_step_def exited_def split: par_pc.splits)
    have "p_gos P = []"
    proof (rule ccontr)
      assume "p_gos P \<noteq> []"
      then have i: "0 < length (p_gos P)" by simp
      with e assms(2) go_step_possible [of P 0 E fl] par_step.goroutine obtain x where "g_phase (p_gos P ! 0) = Sending x" by blast
      with i pc have "\<exists>P'. receive 0 P = Some P'" by (simp add: receive_def Let_def)
      with assms(2) par_step.receive show False by blast
    qed
    with pc assms(1) \<open>\<not> (p_pc P = Receive \<and> p_gos P = [] \<and> p_ts P \<noteq> [])\<close> show False
      by (simp add: par_inv_def pc_inv_def)
  qed
qed

text \<open>A stuck machine has all its hosts back, and none of the tests that are left fits on them.\<close>

lemma stuck_tests:
  assumes "par_inv ts hosts s P" and "p_pc P = Receive" and "p_gos P = []" and "hosts \<noteq> []"
  shows "set (p_ts P) = {t \<in> set ts. int (length hosts) < t_hosts t}"
proof -
  from assms(1,3) have m: "mset (p_hosts P) = mset hosts" by (simp add: par_inv_def pool_inv_def)
  then have l: "length (p_hosts P) = length hosts" by (rule mset_eq_length)
  with assms(4) have "p_hosts P \<noteq> []" by auto
  with assms(1,2) have "\<forall>t \<in> set (p_ts P). int (length (p_hosts P)) < t_hosts t"
    by (simp add: par_inv_def pc_inv_def pick_None)
  with l assms(1) show ?thesis by (auto simp: par_inv_def tests_inv_def)
qed

section \<open>What the parallel mode guarantees\<close>

text \<open>
  C24: no host is given to two tests at a time. With different hosts at the start, in every state
  that the parallel mode can reach the free hosts and the hosts of the tests that have been handed
  out and not yet returned are all different, together they are all the hosts, and every test
  has as many hosts as its name asks for.
\<close>

theorem hosts_exclusive:
  assumes "(par_step E fl)\<^sup>*\<^sup>* (par_init ts hosts s) P" and "distinct hosts"
  shows "distinct (p_hosts P @ concat (map g_hosts (p_gos P)))
    \<and> set (p_hosts P @ concat (map g_hosts (p_gos P))) = set hosts
    \<and> (\<forall>g \<in> set (p_gos P). int (length (g_hosts g)) = t_hosts (g_test g))"
proof -
  from par.reachable_inv [OF refl assms(1)] have inv: "pool_inv hosts P" by (simp add: par_inv_def)
  then have m: "mset (p_hosts P @ concat (map g_hosts (p_gos P))) = mset hosts"
    by (simp add: pool_inv_def busy_def)
  from mset_eq_setD [OF m] mset_eq_imp_distinct_iff [OF m] assms(2) inv show ?thesis
    by (simp add: pool_inv_def)
qed


text \<open>
  C22: the parallel mode ends. If there is a host and no test needs more hosts than there are or a
  negative number, every run, however the goroutines are scheduled, has at most six steps per test
  and two more, and a run that has come to its end has finished; there is no deadlock and no panic.
\<close>

theorem parallel_terminates:
  assumes "hosts \<noteq> []" and "\<forall>t \<in> set ts. 0 \<le> t_hosts t \<and> t_hosts t \<le> int (length hosts)"
  shows "(\<forall>n P. (par_step E fl ^^ n) (par_init ts hosts s) P \<longrightarrow> n \<le> 6 * length ts + 2)
    \<and> (\<forall>P. (par_step E fl)\<^sup>*\<^sup>* (par_init ts hosts s) P \<longrightarrow> (\<exists>P'. par_step E fl P P') \<or> (\<exists>b. p_pc P = Finished b))
    \<and> (\<exists>P b. (par_step E fl)\<^sup>*\<^sup>* (par_init ts hosts s) P \<and> p_pc P = Finished b)"
proof (intro conjI allI impI)
  fix n P
  assume "(par_step E fl ^^ n) (par_init ts hosts s) P"
  from par.run_length [OF this par_inv_init] show "n \<le> 6 * length ts + 2"
    by (simp add: par_size_def [of "par_init ts hosts s"]) (simp add: par_init_def)
next
  have fin: "\<exists>b. p_pc P = Finished b"
    if "(par_step E fl)\<^sup>*\<^sup>* (par_init ts hosts s) P" "\<not> (\<exists>P'. par_step E fl P P')" for P
  proof -
    from par.reachable_inv [OF refl that(1)] have inv: "par_inv ts hosts s P" .
    have "{t \<in> set ts. int (length hosts) < t_hosts t} = {}" using assms(2) by force
    with stuck_tests [OF inv _ _ assms(1)] have "\<not> (p_pc P = Receive \<and> p_gos P = [] \<and> p_ts P \<noteq> [])"
      by (metis set_empty)
    with stuck [OF inv that(2)] have "exited P" by blast
    with inv assms(2) show ?thesis by (auto simp: exited_def par_inv_def pc_inv_def not_le [symmetric] split: par_pc.splits)
  qed
  show "(\<exists>P'. par_step E fl P P') \<or> (\<exists>b. p_pc P = Finished b)"
    if "(par_step E fl)\<^sup>*\<^sup>* (par_init ts hosts s) P" for P
    using fin [OF that] by blast
  from par.run_ends [OF par_inv_init] obtain P where
    "(par_step E fl)\<^sup>*\<^sup>* (par_init ts hosts s) P" "\<not> (\<exists>P'. par_step E fl P P')" by blast
  with fin show "\<exists>P b. (par_step E fl)\<^sup>*\<^sup>* (par_init ts hosts s) P \<and> p_pc P = Finished b" by blast
qed

text \<open>
  C32: a test that needs more hosts than there are stops the parallel mode for good. No run ever
  finishes: without negative numbers of hosts, every run ends with the main goroutine waiting for a
  result while no goroutine is left, after all tests that fit have been run, and the tests that do
  not fit are still in the list.
\<close>

theorem parallel_deadlock:
  assumes "hosts \<noteq> []" and "t \<in> set ts" and "int (length hosts) < t_hosts t" and "\<forall>t \<in> set ts. 0 \<le> t_hosts t"
    and "(par_step E fl)\<^sup>*\<^sup>* (par_init ts hosts s) P"
  shows "(\<forall>b. p_pc P \<noteq> Finished b)
    \<and> (\<not> (\<exists>P'. par_step E fl P P') \<longrightarrow> p_pc P = Receive \<and> p_gos P = []
         \<and> set (p_ts P) = {t \<in> set ts. int (length hosts) < t_hosts t})
    \<and> (\<exists>Q. (par_step E fl)\<^sup>*\<^sup>* P Q \<and> \<not> (\<exists>Q'. par_step E fl Q Q'))"
proof (intro conjI impI)
  from par.reachable_inv [OF refl assms(5)] have inv: "par_inv ts hosts s P" .
  with assms(2,3) have "p_ts P \<noteq> []" by (auto simp: par_inv_def tests_inv_def)
  with inv show nf: "\<forall>b. p_pc P \<noteq> Finished b" by (auto simp: par_inv_def pc_inv_def)
  from par.run_ends [OF inv] show "\<exists>Q. (par_step E fl)\<^sup>*\<^sup>* P Q \<and> \<not> (\<exists>Q'. par_step E fl Q Q')" .
  assume no: "\<not> (\<exists>P'. par_step E fl P P')"
  have "\<not> exited P"
    using nf inv assms(4) by (auto simp: exited_def par_inv_def pc_inv_def not_le [symmetric] split: par_pc.splits)
  with stuck [OF inv no] show "p_pc P = Receive" "p_gos P = []" by blast+
  then show "set (p_ts P) = {t \<in> set ts. int (length hosts) < t_hosts t}" by (rule stuck_tests [OF inv _ _ assms(1)])
qed

section \<open>Schedules\<close>

text \<open>Which goroutine is next.\<close>

datatype choice = Main | Recv nat | Go nat

fun turn :: "'w runner_env \<Rightarrow> flags \<Rightarrow> choice \<Rightarrow> 'w par \<Rightarrow> 'w par option" where
  "turn E fl Main P = main_step P"
| "turn E fl (Recv i) P = receive i P"
| "turn E fl (Go i) P = go_step E fl i P"

lemma turn_step: "turn E fl c P = Some Q \<Longrightarrow> par_step E fl P Q"
  by (cases c) (auto intro: par_step.intros)

lemma play_steps: "steps_with (turn E fl) cs P = Some Q \<Longrightarrow> (par_step E fl)\<^sup>*\<^sup>* P Q"
  by (induction cs arbitrary: P)
    (auto split: option.splits dest: turn_step intro: converse_rtranclp_into_rtranclp)

lemma Sort_two: "Less b a \<Longrightarrow> Sort (Reverse Less) [a, b] = [a, b]"
  using test_order.less_asym [of b a] by (simp add: Sort_def Reverse_def)

text \<open>
  C34: a timeout lets two commands use a host at the same time. With two tests that need a host
  each and one host, when the command of the first one times out the runner can reach a state in
  which that command has been left running on the host and the second test runs there as well:
  \<open>run\<close> neither ends the command nor waits for it, and its hosts are free again.
\<close>

theorem timeout_shares_host:
  assumes "t_hosts a = 1" and "t_hosts b = 1" and "Less b a" and "\<forall>s. timed_out E fl a [h] s"
  shows "\<exists>P. (par_step E fl)\<^sup>*\<^sup>* (par_init [a, b] [h] s) P
    \<and> (t_name a, [h]) \<in> set (orphans (p_proc P))
    \<and> (\<exists>g \<in> set (p_gos P). g_test g = b \<and> g_hosts g = [h] \<and> g_phase g = Executing)"
proof -
  let ?s = "s\<lparr>stdout := stdout s @ [Running (t_name a) [h]]\<rparr>"
  obtain e ms w where r: "run_finish E fl a [h] ?s = (Returns e, ?s\<lparr>
        orphans := (if timed_out E fl a [h] ?s then (t_name a, [h]) # orphans ?s else orphans ?s),
        stdout := stdout ?s @ ms, outside := w\<rparr>)"
    by (rule run_finish_cases)
  define s' where "s' = snd (run_finish E fl a [h] ?s)"
  from r have r': "run_finish E fl a [h] ?s = (Returns e, s')" by (simp add: s'_def)
  have o: "orphans s' = (t_name a, [h]) # orphans s" using r assms(4) by (simp add: s'_def)
  let ?P = "\<lparr>p_total = 2, p_ts = [], p_hosts = [], p_gos = [\<lparr>g_test = b, g_hosts = [h], g_phase = Executing\<rparr>],
     p_outstanding = 1, p_failed = (if e then [a] else []), p_pc = Inner,
     p_proc = s'\<lparr>stdout := stdout s' @ [Running (t_name b) [h]]\<rparr>\<rparr>"
  have "steps_with (turn E fl) [Main, Main, Main, Go 0, Go 0, Recv 0, Main, Main, Go 0] (par_init [a, b] [h] s) = Some ?P"
    by (simp add: par_init_def Sort_two assms(1,2,3) main_step_def launch_def go_step_def exited_def run_start_def
        print_run r' receive_def Let_def)
  from play_steps [OF this] o show ?thesis by (intro exI [of _ ?P]) simp
qed

section \<open>Witnesses\<close>

definition first_test :: test where
  "first_test = \<lparr>t_name = ''b_1_test.sh'', t_hosts = 1\<rparr>"

definition second_test :: test where
  "second_test = \<lparr>t_name = ''a_1_test.sh'', t_hosts = 1\<rparr>"

definition demo_start :: "unit par" where
  "demo_start = par_init [first_test] [''h1'', ''h2''] demo_process"

definition demo_launched :: "unit par" where
  "demo_launched = \<lparr>p_total = 1, p_ts = [], p_hosts = [''h2''],
     p_gos = [\<lparr>g_test = first_test, g_hosts = [''h1''], g_phase = Launched\<rparr>],
     p_outstanding = 1, p_failed = [], p_pc = Inner, p_proc = demo_process\<rparr>"

definition demo_done :: "unit par" where
  "demo_done = \<lparr>p_total = 1, p_ts = [], p_hosts = [''h2'', ''h1''], p_gos = [], p_outstanding = 0, p_failed = [],
     p_pc = Finished False, p_proc = \<lparr>outside = (), stdout = [Running ''b_1_test.sh'' [''h1''],
       FinishedWithSuccess ''b_1_test.sh'' 5, RanOk 1], orphans = []\<rparr>\<rparr>"

lemmas demo_play =
  demo_start_def par_init_def main_step_def launch_def go_step_def exited_def receive_def
  run_start_def run_finish_def run_select_def run_end_def summary_run summary_lines_def demo_process_def
  demo_runner_env_def demo_flags_def first_test_def Sort_def Let_def

lemma demo_launched: "(par_step E fl)\<^sup>*\<^sup>* demo_start demo_launched"
  by (rule play_steps [of E fl "[Main, Main]"]) (simp add: demo_play demo_launched_def)

lemma demo_done: "(par_step (demo_runner_env (Done None)) demo_flags)\<^sup>*\<^sup>* demo_start demo_done"
  by (rule play_steps [of _ _ "[Main, Main, Main, Go 0, Go 0, Recv 0, Main]"])
    (simp add: demo_play demo_done_def go_run)

theorem hosts_exclusive_witness:
  "distinct (p_hosts demo_launched @ concat (map g_hosts (p_gos demo_launched)))
   \<and> set (p_hosts demo_launched @ concat (map g_hosts (p_gos demo_launched))) = set [''h1'', ''h2'']
   \<and> int (length (g_hosts (hd (p_gos demo_launched)))) = t_hosts (g_test (hd (p_gos demo_launched)))"
proof -
  have "distinct [''h1'', ''h2'']" by simp
  from hosts_exclusive [OF demo_launched [unfolded demo_start_def, of "demo_runner_env TimedOut" demo_flags] this]
  show ?thesis by (simp add: demo_launched_def)
qed


theorem parallel_terminates_witness:
  "\<exists>P b. (par_step (demo_runner_env TimedOut) demo_flags)\<^sup>*\<^sup>* (par_init [first_test, second_test] [''h1''] demo_process) P \<and> p_pc P = Finished b"
  using parallel_terminates [of "[''h1'']" "[first_test, second_test]" "demo_runner_env TimedOut" demo_flags demo_process]
  by (simp add: first_test_def second_test_def)

theorem parallel_deadlock_witness:
  "\<exists>Q. (par_step (demo_runner_env (Done None)) demo_flags)\<^sup>*\<^sup>* (par_init [demo_test 2] [''h1''] demo_process) Q
     \<and> \<not> (\<exists>Q'. par_step (demo_runner_env (Done None)) demo_flags Q Q')"
  using parallel_deadlock [of "[''h1'']" "demo_test 2" "[demo_test 2]" "demo_runner_env (Done None)" demo_flags demo_process
      "par_init [demo_test 2] [''h1''] demo_process"]
  by (simp add: demo_test_def)

theorem timeout_shares_host_witness:
  "\<exists>P. (par_step (demo_runner_env TimedOut) demo_flags)\<^sup>*\<^sup>* (par_init [first_test, second_test] [''h1''] demo_process) P
    \<and> (t_name first_test, [''h1'']) \<in> set (orphans (p_proc P))
    \<and> (\<exists>g \<in> set (p_gos P). g_test g = second_test \<and> g_hosts g = [''h1''] \<and> g_phase g = Executing)"
proof (rule timeout_shares_host)
  show "Less second_test first_test" by (simp add: Less_def first_test_def second_test_def less_char_def)
  show "\<forall>s. timed_out (demo_runner_env TimedOut) demo_flags first_test [''h1''] s"
    by (simp add: timed_out_def demo_runner_env_def)
qed (simp_all add: first_test_def second_test_def)

end
