(* ===== verification/Go_Slices.thy ===== *)
theory Go_Slices
  imports Main
begin

text \<open>
  Slices as the language has them: a window on an array that other slices may share. \<open>append\<close> writes
  into the array behind the slice as long as the capacity allows and moves to a new array otherwise;
  how much larger the new array is, is up to the runtime (\<open>grow\<close>).

  The lemmas say what a slice contains after these operations, and which other slices keep their
  contents: those in other arrays, and those that end before the end of the slice appended to.
\<close>

record slice =
  s_arr :: nat
  s_off :: nat
  s_len :: nat
  s_cap :: nat

record 'a memory =
  arrays :: "nat \<Rightarrow> 'a list"
  fresh :: nat

definition contents :: "'a memory \<Rightarrow> slice \<Rightarrow> 'a list" where
  "contents M s = take (s_len s) (drop (s_off s) (arrays M (s_arr s)))"

text \<open>\<open>s[:n]\<close> and \<open>s[n:]\<close>, for \<open>n\<close> within bounds.\<close>

definition slice_to :: "slice \<Rightarrow> nat \<Rightarrow> slice" where
  "slice_to s n = s\<lparr>s_len := n\<rparr>"

definition slice_from :: "slice \<Rightarrow> nat \<Rightarrow> slice" where
  "slice_from s n = s\<lparr>s_off := s_off s + n, s_len := s_len s - n, s_cap := s_cap s - n\<rparr>"

text \<open>Writing \<open>xs\<close> into a list from position \<open>i\<close> on.\<close>

definition overwrite :: "'a list \<Rightarrow> nat \<Rightarrow> 'a list \<Rightarrow> 'a list" where
  "overwrite ys i xs = take i ys @ xs @ drop (i + length xs) ys"

definition append_slice :: "(nat \<Rightarrow> nat) \<Rightarrow> 'a \<Rightarrow> 'a memory \<Rightarrow> slice \<Rightarrow> 'a list \<Rightarrow> 'a memory \<times> slice" where
  "append_slice grow zero M s xs =
     (let n = s_len s + length xs in
      if n \<le> s_cap s then
        (M\<lparr>arrays := (arrays M)(s_arr s := overwrite (arrays M (s_arr s)) (s_off s + s_len s) xs)\<rparr>, s\<lparr>s_len := n\<rparr>)
      else
        (let cap = max n (grow (s_cap s)) in
         (M\<lparr>arrays := (arrays M)(fresh M := contents M s @ xs @ replicate (cap - n) zero), fresh := Suc (fresh M)\<rparr>,
          \<lparr>s_arr = fresh M, s_off = 0, s_len = n, s_cap = cap\<rparr>)))"

text \<open>A slice that lies in its array and may be extended to the end of it.\<close>

definition slice_ok :: "'a memory \<Rightarrow> slice \<Rightarrow> bool" where
  "slice_ok M s \<longleftrightarrow> s_arr s < fresh M \<and> s_len s \<le> s_cap s \<and> s_off s + s_cap s = length (arrays M (s_arr s))"

lemma length_overwrite [simp]: "i + length xs \<le> length ys \<Longrightarrow> length (overwrite ys i xs) = length ys"
  by (simp add: overwrite_def)

lemma overwrite_before: "i \<le> j \<Longrightarrow> i \<le> length ys \<Longrightarrow> j + length xs \<le> length ys \<Longrightarrow> take i (overwrite ys j xs) = take i ys"
  by (simp add: overwrite_def)

lemma length_contents: "slice_ok M s \<Longrightarrow> length (contents M s) = s_len s"
  by (auto simp: slice_ok_def contents_def)

lemma contents_slice_to: "n \<le> s_len s \<Longrightarrow> contents M (slice_to s n) = take n (contents M s)"
  by (simp add: contents_def slice_to_def min_def)

lemma contents_slice_from: "n \<le> s_len s \<Longrightarrow> contents M (slice_from s n) = drop n (contents M s)"
  by (simp add: contents_def slice_from_def drop_take add.commute)

lemma slice_ok_from: "slice_ok M s \<Longrightarrow> n \<le> s_len s \<Longrightarrow> slice_ok M (slice_from s n)"
  by (auto simp: slice_ok_def slice_from_def)

lemma slice_ok_to: "slice_ok M s \<Longrightarrow> n \<le> s_len s \<Longrightarrow> slice_ok M (slice_to s n)"
  by (simp add: slice_ok_def slice_to_def)

lemma append_contents:
  assumes "slice_ok M s" and "append_slice grow zero M s xs = (M', s')"
  shows "contents M' s' = contents M s @ xs" and "slice_ok M' s'"
proof -
  let ?ys = "arrays M (s_arr s)"
  have l: "s_off s + s_len s \<le> length ?ys" "s_len s \<le> s_cap s" "s_off s + s_cap s = length ?ys" "s_arr s < fresh M"
    using assms(1) by (auto simp: slice_ok_def)
  show "contents M' s' = contents M s @ xs"
  proof (cases "s_len s + length xs \<le> s_cap s")
    case True
    with l have "drop (s_off s) (overwrite ?ys (s_off s + s_len s) xs) =
        contents M s @ xs @ drop (s_off s + s_len s + length xs) ?ys"
      by (simp add: overwrite_def contents_def drop_take)
    moreover have "length (contents M s) = s_len s" using assms(1) by (rule length_contents)
    ultimately show ?thesis using assms(2) True by (auto simp: append_slice_def contents_def [of M'])
  next
    case False
    moreover have "length (contents M s) = s_len s" using assms(1) by (rule length_contents)
    ultimately show ?thesis using assms(2) by (auto simp: append_slice_def contents_def [of M'] Let_def)
  qed
  show "slice_ok M' s'"
    using assms l length_contents [OF assms(1)]
    by (auto simp: append_slice_def slice_ok_def Let_def split: if_splits)
qed

text \<open>What is not touched.\<close>

lemma append_frame:
  assumes "slice_ok M s" and "append_slice grow zero M s xs = (M', s')"
    and "s_arr r < fresh M" and "s_off r + s_len r \<le> length (arrays M (s_arr r))"
    and "s_arr r = s_arr s \<Longrightarrow> s_off r + s_len r \<le> s_off s + s_len s"
  shows "contents M' r = contents M r"
proof (cases "s_len s + length xs \<le> s_cap s \<and> s_arr r = s_arr s")
  case True
  then have M': "arrays M' (s_arr r) = overwrite (arrays M (s_arr s)) (s_off s + s_len s) xs"
    using assms(2) by (auto simp: append_slice_def)
  have "take (s_off r + s_len r) (overwrite (arrays M (s_arr s)) (s_off s + s_len s) xs) =
      take (s_off r + s_len r) (arrays M (s_arr s))"
    using True assms(1,4,5) by (intro overwrite_before) (auto simp: slice_ok_def)
  then have "drop (s_off r) (take (s_off r + s_len r) (arrays M' (s_arr r))) =
      drop (s_off r) (take (s_off r + s_len r) (arrays M (s_arr r)))"
    using True M' by simp
  then show ?thesis by (simp add: contents_def take_drop add.commute)
next
  case False
  then have "arrays M' (s_arr r) = arrays M (s_arr r)"
    using assms(2,3) by (auto simp: append_slice_def Let_def split: if_splits)
  then show ?thesis by (simp add: contents_def)
qed

lemma append_place:
  assumes "append_slice grow zero M s xs = (M', s')"
  shows "fresh M \<le> fresh M'"
    and "s_arr s' = s_arr s \<and> s_off s' = s_off s \<or> s_arr s' = fresh M"
    and "slice_ok M s \<Longrightarrow> a < fresh M \<Longrightarrow> length (arrays M' a) = length (arrays M a)"
  using assms by (auto simp: append_slice_def slice_ok_def Let_def split: if_splits)

end
