(* ===== verification/Runner_Slices.thy ===== *)
theory Runner_Slices
  imports Runner_Parallel Go_Slices
begin

text \<open>
  The parallel mode of the runner with its slices. In \<open>parallel\<close> the slices handed to the goroutines
  (\<open>testHosts\<close>) and the slice of free hosts share arrays, into which \<open>append\<close> writes while the
  goroutines read them; \<open>pick\<close> moves the elements of the array of \<open>ts\<close>, which is also that of
  \<open>testsCopy\<close>. Here the machine of \<open>Runner_Parallel\<close> has these slices and arrays, and a goroutine reads its
  hosts from the array at the time it uses them. The refinement shows that the sharing does no
  harm: seen through the contents of its slices the machine takes the same steps as the one on
  lists, so what is proved there holds here.
\<close>

section \<open>The machine with slices\<close>

record slice_goroutine =
  sg_test :: test
  sg_hosts :: slice
  sg_phase :: phase

record 'w slice_par =
  m_tests :: "test memory"
  m_hosts :: "string memory"
  testsCopy :: slice
  v_ts :: slice
  v_hosts :: slice
  v_gos :: "slice_goroutine list"
  v_outstanding :: int
  v_failed :: "test list"
  v_pc :: par_pc
  v_proc :: "'w runner"

fun pick_index :: "test list \<Rightarrow> int \<Rightarrow> nat option" where
  "pick_index [] available = None"
| "pick_index (t # ts) available = (if t_hosts t \<le> available then Some 0 else map_option Suc (pick_index ts available))"

definition zero_test :: test where
  "zero_test = \<lparr>t_name = [], t_hosts = 0\<rparr>"

text \<open>\<open>*ts = append((*ts)[:i], (*ts)[i+1:]...)\<close>\<close>

definition pick_slice :: "(nat \<Rightarrow> nat) \<Rightarrow> test memory \<Rightarrow> slice \<Rightarrow> int \<Rightarrow> (test \<times> test memory \<times> slice) option" where
  "pick_slice grow M ts available = (case pick_index (contents M ts) available of
      None \<Rightarrow> None
    | Some i \<Rightarrow> Some (contents M ts ! i,
        append_slice grow zero_test M (slice_to ts i) (contents M (slice_from ts (Suc i)))))"

definition launch_slice :: "(nat \<Rightarrow> nat) \<Rightarrow> 'w slice_par \<Rightarrow> 'w slice_par" where
  "launch_slice grow P =
     (if 0 < s_len (v_hosts P) then
        (case pick_slice grow (m_tests P) (v_ts P) (int (s_len (v_hosts P))) of
           None \<Rightarrow> P\<lparr>v_pc := Receive\<rparr>
         | Some (t, M, us) \<Rightarrow>
             (if 0 \<le> t_hosts t \<and> t_hosts t \<le> int (s_len (v_hosts P)) then
                P\<lparr>m_tests := M, v_ts := us,
                  v_gos := v_gos P @ [\<lparr>sg_test = t, sg_hosts = slice_to (v_hosts P) (nat (t_hosts t)), sg_phase = Launched\<rparr>],
                  v_hosts := slice_from (v_hosts P) (nat (t_hosts t)),
                  v_outstanding := v_outstanding P + 1\<rparr>
              else P\<lparr>m_tests := M, v_ts := us, v_pc := Crashed SliceOutOfRange\<rparr>))
      else P\<lparr>v_pc := Receive\<rparr>)"

definition main_step_slice :: "(nat \<Rightarrow> nat) \<Rightarrow> 'w slice_par \<Rightarrow> 'w slice_par option" where
  "main_step_slice grow P = (case v_pc P of
      Outer \<Rightarrow> Some (if 0 < s_len (v_ts P) \<or> 0 < v_outstanding P then P\<lparr>v_pc := Inner\<rparr>
        else P\<lparr>v_proc := snd (summary (s_len (testsCopy P)) (v_failed P) (v_proc P)), v_pc := Finished (0 < length (v_failed P))\<rparr>)
    | Inner \<Rightarrow> Some (launch_slice grow P)
    | _ \<Rightarrow> None)"

definition receive_slice :: "(nat \<Rightarrow> nat) \<Rightarrow> nat \<Rightarrow> 'w slice_par \<Rightarrow> 'w slice_par option" where
  "receive_slice grow i P =
     (if v_pc P = Receive \<and> i < length (v_gos P) then
        (let g = v_gos P ! i in case sg_phase g of
           Sending errored \<Rightarrow>
             (case append_slice grow [] (m_hosts P) (v_hosts P) (contents (m_hosts P) (sg_hosts g)) of
                (M, hosts) \<Rightarrow> Some (P\<lparr>m_hosts := M,
                  v_gos := take i (v_gos P) @ drop (Suc i) (v_gos P),
                  v_hosts := hosts,
                  v_outstanding := v_outstanding P - 1,
                  v_failed := (if errored then v_failed P @ [sg_test g] else v_failed P),
                  v_pc := Outer\<rparr>))
         | _ \<Rightarrow> None)
      else None)"

definition go_step_slice :: "'w runner_env \<Rightarrow> flags \<Rightarrow> nat \<Rightarrow> 'w slice_par \<Rightarrow> 'w slice_par option" where
  "go_step_slice E fl i P =
     (if v_pc P \<in> {Outer, Inner, Receive} \<and> i < length (v_gos P) then
        (let g = v_gos P ! i; hosts = contents (m_hosts P) (sg_hosts g);
             upd = (\<lambda>ph s. P\<lparr>v_gos := take i (v_gos P) @ g\<lparr>sg_phase := ph\<rparr> # drop (Suc i) (v_gos P), v_proc := s\<rparr>)
         in case sg_phase g of
           Launched \<Rightarrow> Some (upd Executing (snd (run_start (sg_test g) hosts (v_proc P))))
         | Executing \<Rightarrow> (case run_finish E fl (sg_test g) hosts (v_proc P) of
               (Returns errored, s) \<Rightarrow> Some (upd (Sending errored) s)
             | _ \<Rightarrow> None)
         | Sending errored \<Rightarrow> None)
      else None)"

fun turn_slice :: "(nat \<Rightarrow> nat) \<Rightarrow> 'w runner_env \<Rightarrow> flags \<Rightarrow> choice \<Rightarrow> 'w slice_par \<Rightarrow> 'w slice_par option" where
  "turn_slice grow E fl Main P = main_step_slice grow P"
| "turn_slice grow E fl (Recv i) P = receive_slice grow i P"
| "turn_slice grow E fl (Go i) P = go_step_slice E fl i P"

text \<open>The start: the arrays may be longer than the slices.\<close>

definition slice_init :: "test list \<Rightarrow> test list \<Rightarrow> string list \<Rightarrow> string list \<Rightarrow> 'w runner \<Rightarrow> 'w slice_par" where
  "slice_init ts more_ts hosts more_hosts s =
     (let tests = \<lparr>s_arr = 0, s_off = 0, s_len = length ts, s_cap = length ts + length more_ts\<rparr> in
      \<lparr>m_tests = \<lparr>arrays = (\<lambda>_. [])(0 := Sort (Reverse Less) ts @ more_ts), fresh = 1\<rparr>,
       m_hosts = \<lparr>arrays = (\<lambda>_. [])(0 := hosts @ more_hosts), fresh = 1\<rparr>,
       testsCopy = tests, v_ts = tests,
       v_hosts = \<lparr>s_arr = 0, s_off = 0, s_len = length hosts, s_cap = length hosts + length more_hosts\<rparr>,
       v_gos = [], v_outstanding = 0, v_failed = [], v_pc = Outer, v_proc = s\<rparr>)"

section \<open>What the slices stand for\<close>

definition abs_go :: "string memory \<Rightarrow> slice_goroutine \<Rightarrow> goroutine" where
  "abs_go M g = \<lparr>g_test = sg_test g, g_hosts = contents M (sg_hosts g), g_phase = sg_phase g\<rparr>"

definition abs_par :: "'w slice_par \<Rightarrow> 'w par" where
  "abs_par P = \<lparr>p_total = s_len (testsCopy P), p_ts = contents (m_tests P) (v_ts P),
     p_hosts = contents (m_hosts P) (v_hosts P), p_gos = map (abs_go (m_hosts P)) (v_gos P),
     p_outstanding = v_outstanding P, p_failed = v_failed P, p_pc = v_pc P, p_proc = v_proc P\<rparr>"

text \<open>The hosts of a goroutine lie in an array of their own or before the free hosts.\<close>

definition apart :: "string memory \<Rightarrow> slice \<Rightarrow> slice \<Rightarrow> bool" where
  "apart M free h \<longleftrightarrow> s_arr h < fresh M \<and> s_off h + s_len h \<le> length (arrays M (s_arr h))
     \<and> (s_arr h = s_arr free \<longrightarrow> s_off h + s_len h \<le> s_off free)"

definition slices_ok :: "'w slice_par \<Rightarrow> bool" where
  "slices_ok P \<longleftrightarrow> slice_ok (m_tests P) (v_ts P) \<and> slice_ok (m_hosts P) (v_hosts P)
     \<and> (\<forall>g \<in> set (v_gos P). apart (m_hosts P) (v_hosts P) (sg_hosts g))"

lemma abs_par_sel [simp]:
  "p_total (abs_par P) = s_len (testsCopy P)" "p_ts (abs_par P) = contents (m_tests P) (v_ts P)"
  "p_hosts (abs_par P) = contents (m_hosts P) (v_hosts P)" "p_gos (abs_par P) = map (abs_go (m_hosts P)) (v_gos P)"
  "p_outstanding (abs_par P) = v_outstanding P" "p_failed (abs_par P) = v_failed P" "p_pc (abs_par P) = v_pc P"
  "p_proc (abs_par P) = v_proc P"
  by (simp_all add: abs_par_def)

lemma abs_go_sel [simp]:
  "g_test (abs_go M g) = sg_test g" "g_hosts (abs_go M g) = contents M (sg_hosts g)" "g_phase (abs_go M g) = sg_phase g"
  by (simp_all add: abs_go_def)

lemma par_eqI:
  assumes "p_total P = p_total Q" "p_ts P = p_ts Q" "p_hosts P = p_hosts Q" "p_gos P = p_gos Q"
    "p_outstanding P = p_outstanding Q" "p_failed P = p_failed Q" "p_pc P = p_pc Q" "p_proc P = p_proc Q"
  shows "P = (Q :: 'w par)"
  using assms by (cases P; cases Q) simp

section \<open>Refinement\<close>

lemma pick_index: "pick ts n = map_option (\<lambda>i. (ts ! i, take i ts @ drop (Suc i) ts)) (pick_index ts n)"
  by (induction ts) (auto simp: option.map_comp comp_def split_def)

lemma pick_index_bound: "pick_index ts n = Some i \<Longrightarrow> i < length ts"
  by (induction ts arbitrary: i) (auto split: if_splits)

lemma pick_slice_refines:
  assumes "slice_ok M ts"
  shows "map_option (\<lambda>(t, M', us). (t, contents M' us)) (pick_slice grow M ts n) = pick (contents M ts) n"
    and "pick_slice grow M ts n = Some (t, M', us) \<Longrightarrow> slice_ok M' us"
proof -
  have app: "contents M' us = take i (contents M ts) @ drop (Suc i) (contents M ts) \<and> slice_ok M' us"
    if i: "pick_index (contents M ts) n = Some i"
      and a: "append_slice grow zero_test M (slice_to ts i) (contents M (slice_from ts (Suc i))) = (M', us)" for i M' us
  proof -
    have len: "i < s_len ts" using pick_index_bound [OF i] length_contents [OF assms] by simp
    then have ok: "slice_ok M (slice_to ts i)" using assms by (intro slice_ok_to) simp_all
    from append_contents [OF ok a] len show ?thesis
      by (simp add: contents_slice_to contents_slice_from)
  qed
  show "map_option (\<lambda>(t, M', us). (t, contents M' us)) (pick_slice grow M ts n) = pick (contents M ts) n"
  proof (cases "pick_index (contents M ts) n")
    case None
    then show ?thesis by (simp add: pick_slice_def pick_index)
  next
    case (Some i)
    obtain M' us where a: "append_slice grow zero_test M (slice_to ts i) (contents M (slice_from ts (Suc i))) = (M', us)"
      by (cases "append_slice grow zero_test M (slice_to ts i) (contents M (slice_from ts (Suc i)))")
    from app [OF Some a] Some a show ?thesis by (simp add: pick_slice_def pick_index)
  qed
  assume p: "pick_slice grow M ts n = Some (t, M', us)"
  then obtain i where "pick_index (contents M ts) n = Some i"
      "append_slice grow zero_test M (slice_to ts i) (contents M (slice_from ts (Suc i))) = (M', us)"
    by (auto simp: pick_slice_def split: option.splits)
  from app [OF this] show "slice_ok M' us" by blast
qed

lemma launch_refines:
  assumes "slices_ok P"
  shows "abs_par (launch_slice grow P) = launch (abs_par P)" and "slices_ok (launch_slice grow P)"
proof -
  let ?pick = "pick_slice grow (m_tests P) (v_ts P) (int (s_len (v_hosts P)))"
  have ok: "slice_ok (m_tests P) (v_ts P)" "slice_ok (m_hosts P) (v_hosts P)"
    using assms by (simp_all add: slices_ok_def)
  note len = length_contents [OF ok(2)]
  note pick = pick_slice_refines(1) [OF ok(1), of grow "int (s_len (v_hosts P))", symmetric]
  have "abs_par (launch_slice grow P) = launch (abs_par P) \<and> slices_ok (launch_slice grow P)"
  proof (cases "0 < s_len (v_hosts P)")
    case False
    with len assms show ?thesis
      by (auto simp: launch_slice_def launch_def slices_ok_def intro: par_eqI)
  next
    case pos: True
    show ?thesis
    proof (cases ?pick)
      case None
      with pos pick len assms show ?thesis
        by (auto simp: launch_slice_def launch_def slices_ok_def intro: par_eqI)
    next
      case (Some r)
      obtain t M us where r: "r = (t, M, us)" by (cases r)
      note ok' = pick_slice_refines(2) [OF ok(1) Some [unfolded r]]
      have p: "pick (contents (m_tests P) (v_ts P)) (int (s_len (v_hosts P))) = Some (t, contents M us)"
        using pick Some r by simp
      show ?thesis
      proof (cases "0 \<le> t_hosts t \<and> t_hosts t \<le> int (s_len (v_hosts P))")
        case True
        then have n: "nat (t_hosts t) \<le> s_len (v_hosts P)" by linarith
        have "apart (m_hosts P) (slice_from (v_hosts P) (nat (t_hosts t))) (sg_hosts g)" if "g \<in> set (v_gos P)" for g
          using assms that by (auto simp: slices_ok_def apart_def slice_from_def)
        moreover have "apart (m_hosts P) (slice_from (v_hosts P) (nat (t_hosts t))) (slice_to (v_hosts P) (nat (t_hosts t)))"
          using ok(2) n by (auto simp: apart_def slice_from_def slice_to_def slice_ok_def)
        ultimately show ?thesis
          using pos Some r p len True ok' n slice_ok_from [OF ok(2) n]
          by (auto simp: launch_slice_def launch_def slices_ok_def contents_slice_to contents_slice_from abs_go_def intro: par_eqI)
      next
        case False
        with pos Some r p len ok' assms show ?thesis
          by (auto simp: launch_slice_def launch_def slices_ok_def intro: par_eqI)
      qed
    qed
  qed
  then show "abs_par (launch_slice grow P) = launch (abs_par P)" "slices_ok (launch_slice grow P)" by blast+
qed

lemma main_step_refines:
  assumes "slices_ok P"
  shows "map_option abs_par (main_step_slice grow P) = main_step (abs_par P)"
    and "main_step_slice grow P = Some P' \<Longrightarrow> slices_ok P'"
proof -
  have len: "length (contents (m_tests P) (v_ts P)) = s_len (v_ts P)"
    using assms by (simp add: slices_ok_def length_contents)
  show "map_option abs_par (main_step_slice grow P) = main_step (abs_par P)"
    by (cases "v_pc P") (auto simp: main_step_slice_def main_step_def len launch_refines [OF assms] intro: par_eqI)
  show "slices_ok P'" if "main_step_slice grow P = Some P'"
    using that assms launch_refines(2) [OF assms, of grow]
    by (auto simp: main_step_slice_def slices_ok_def split: par_pc.splits if_splits)
qed

text \<open>Returning hosts: \<open>append\<close> leaves the hosts of the other goroutines alone.\<close>

lemma append_apart:
  assumes "slice_ok M free" and "append_slice grow zero M free xs = (M', free')" and "apart M free h"
  shows "contents M' h = contents M h" and "apart M' free' h"
proof -
  from assms(3) have h: "s_arr h < fresh M" "s_off h + s_len h \<le> length (arrays M (s_arr h))"
    "s_arr h = s_arr free \<Longrightarrow> s_off h + s_len h \<le> s_off free" by (auto simp: apart_def)
  show "contents M' h = contents M h"
    using h by (intro append_frame [OF assms(1,2)]) (auto intro: trans_le_add1)
  show "apart M' free' h"
    using h append_place [OF assms(2)] assms(1) by (fastforce simp: apart_def)
qed

lemma receive_refines:
  assumes "slices_ok P"
  shows "map_option abs_par (receive_slice grow i P) = receive i (abs_par P)"
    and "receive_slice grow i P = Some P' \<Longrightarrow> slices_ok P'"
proof -
  have ok: "slice_ok (m_hosts P) (v_hosts P)" using assms by (simp add: slices_ok_def)
  have "map_option abs_par (receive_slice grow i P) = receive i (abs_par P)
    \<and> (\<forall>P'. receive_slice grow i P = Some P' \<longrightarrow> slices_ok P')"
  proof (cases "v_pc P = Receive \<and> i < length (v_gos P) \<and> (\<exists>e. sg_phase (v_gos P ! i) = Sending e)")
    case True
    then obtain e where e: "v_pc P = Receive" "i < length (v_gos P)" "sg_phase (v_gos P ! i) = Sending e" by blast
    let ?g = "v_gos P ! i" and ?gos = "take i (v_gos P) @ drop (Suc i) (v_gos P)"
    obtain M hosts where a: "append_slice grow [] (m_hosts P) (v_hosts P) (contents (m_hosts P) (sg_hosts ?g)) = (M, hosts)"
      by (cases "append_slice grow [] (m_hosts P) (v_hosts P) (contents (m_hosts P) (sg_hosts ?g))")
    have sub: "set ?gos \<subseteq> set (v_gos P)" by (auto dest: in_set_takeD in_set_dropD)
    have apart: "contents M (sg_hosts g) = contents (m_hosts P) (sg_hosts g) \<and> apart M hosts (sg_hosts g)"
      if "g \<in> set (v_gos P)" for g
      using assms that append_apart [OF ok a, of "sg_hosts g"] by (simp add: slices_ok_def)
    then have same: "map (abs_go M) ?gos = map (abs_go (m_hosts P)) ?gos"
      using sub by (intro map_cong) (auto simp: abs_go_def)
    have "slices_ok (P\<lparr>m_hosts := M, v_gos := ?gos, v_hosts := hosts, v_outstanding := v_outstanding P - 1,
        v_failed := (if e then v_failed P @ [sg_test ?g] else v_failed P), v_pc := Outer\<rparr>)"
      using assms apart sub append_contents(2) [OF ok a] by (auto simp: slices_ok_def)
    with e a same append_contents(1) [OF ok a] show ?thesis
      by (auto simp: receive_slice_def receive_def Let_def take_map drop_map intro: par_eqI)
  next
    case False
    then have "receive_slice grow i P = None" "receive i (abs_par P) = None"
      by (auto simp: receive_slice_def receive_def Let_def split: phase.splits)
    then show ?thesis by simp
  qed
  then show "map_option abs_par (receive_slice grow i P) = receive i (abs_par P)"
    "receive_slice grow i P = Some P' \<Longrightarrow> slices_ok P'" by blast+
qed

lemma go_step_refines:
  assumes "slices_ok P"
  shows "map_option abs_par (go_step_slice E fl i P) = go_step E fl i (abs_par P)"
    and "go_step_slice E fl i P = Some P' \<Longrightarrow> slices_ok P'"
proof -
  have up: "v_pc P \<in> {Outer, Inner, Receive} \<longleftrightarrow> \<not> exited (abs_par P)"
    by (cases "v_pc P") (simp_all add: exited_def)
  have upd: "abs_par (P\<lparr>v_gos := take i (v_gos P) @ (v_gos P ! i)\<lparr>sg_phase := ph\<rparr> # drop (Suc i) (v_gos P), v_proc := s\<rparr>) =
      (abs_par P)\<lparr>p_gos := take i (p_gos (abs_par P)) @ (p_gos (abs_par P) ! i)\<lparr>g_phase := ph\<rparr> # drop (Suc i) (p_gos (abs_par P)),
        p_proc := s\<rparr>"
    if "i < length (v_gos P)" for ph s
    by (rule par_eqI) (use that in \<open>simp_all add: take_map drop_map abs_go_def\<close>)
  show "map_option abs_par (go_step_slice E fl i P) = go_step E fl i (abs_par P)"
    unfolding go_step_slice_def go_step_def up Let_def
    using upd by (auto split: phase.split prod.split outcome.split)
  have sub: "slices_ok (P\<lparr>v_gos := take i (v_gos P) @ (v_gos P ! i)\<lparr>sg_phase := ph\<rparr> # drop (Suc i) (v_gos P), v_proc := s\<rparr>)"
    if "i < length (v_gos P)" for ph s
    using assms that by (auto simp: slices_ok_def dest: in_set_takeD in_set_dropD)
  show "slices_ok P'" if "go_step_slice E fl i P = Some P'"
    using that sub unfolding go_step_slice_def up Let_def
    by (auto split: if_splits phase.splits prod.splits outcome.splits)
qed

interpretation slices: refinement "turn_slice grow E fl" "turn E fl" abs_par slices_ok
  for grow :: "nat \<Rightarrow> nat" and E :: "'w runner_env" and fl :: flags
proof
  fix P P' :: "'w slice_par" and c
  assume ok: "slices_ok P"
  then show "map_option abs_par (turn_slice grow E fl c P) = turn E fl c (abs_par P)"
    by (cases c) (simp_all add: main_step_refines(1) receive_refines(1) go_step_refines(1))
  assume "turn_slice grow E fl c P = Some P'"
  then show "slices_ok P'"
    using main_step_refines(2) [OF ok, of grow P'] receive_refines(2) [OF ok, of grow _ P'] go_step_refines(2) [OF ok, of E fl _ P']
    by (cases c) simp_all
qed

lemma slice_init_ok: "slices_ok (slice_init ts more_ts hosts more_hosts s)"
  by (simp add: slices_ok_def slice_ok_def slice_init_def Let_def)

lemma abs_slice_init: "abs_par (slice_init ts more_ts hosts more_hosts s) = par_init ts hosts s"
  by (rule par_eqI) (simp_all add: slice_init_def par_init_def contents_def Let_def)

text \<open>
  C25: sharing arrays between slices does no harm. Under every schedule of the goroutines, whatever
  room there is behind the slices at the start and however the runtime lets arrays grow, the parallel
  mode with its slices takes the same steps as the one on lists, with the contents of the slices
  as the lists: no \<open>append\<close> changes the hosts a running test sees, and \<open>pick\<close> removes the one test.
\<close>

theorem slices_refine_lists:
  "map_option abs_par (steps_with (turn_slice grow E fl) cs (slice_init ts more_ts hosts more_hosts s)) =
     steps_with (turn E fl) cs (par_init ts hosts s)"
  using slices.same_runs [OF slice_init_ok, of grow E fl cs ts more_ts hosts more_hosts s]
  by (simp only: abs_slice_init)

end
