(* ===== verification/Go_Duration.thy ===== *)
theory Go_Duration
  imports Go_Time Complex_Main
begin

text \<open>
  \<open>time.ParseDuration\<close>, for the flags that are durations, as in Go 1.6, the version that the repository names:
  a sum of decimal numbers with units, in nanoseconds. A fraction goes through floating point numbers of 64
  bits. These are pairs \<open>(m, e)\<close> for \<open>m * 2 ^ e\<close> with \<open>m \<le> 2 ^ 53\<close>, rounded to the nearest with ties to even; that
  exponents have no bounds makes no difference, since beyond the bounds of the hardware the scale is so large
  that the product is below one nanosecond.
\<close>

section \<open>Floating point\<close>

type_synonym float64 = "nat \<times> int"

fun bit_length :: "nat \<Rightarrow> nat" where
  "bit_length n = (if n = 0 then 0 else Suc (bit_length (n div 2)))"

declare bit_length.simps [simp del]

definition half_even :: "nat \<Rightarrow> nat \<Rightarrow> nat" where
  "half_even n d = (let q = n div d; r = n mod d in if 2 * r < d \<or> 2 * r = d \<and> even q then q else q + 1)"

text \<open>The quotient in units of \<open>2 ^ e\<close>, and with 53 bits.\<close>

definition round_at :: "nat \<Rightarrow> nat \<Rightarrow> int \<Rightarrow> float64" where
  "round_at n d e = (half_even (n * 2 ^ nat (- e)) (d * 2 ^ nat e), e)"

definition round64 :: "nat \<Rightarrow> nat \<Rightarrow> float64" where
  "round64 n d = (if n = 0 then (0, 0)
     else let k = int (bit_length n) - int (bit_length d) - 53 in
       if n * 2 ^ nat (- k) < 2 ^ 53 * (d * 2 ^ nat k) then round_at n d k else round_at n d (k + 1))"

definition float_of :: "nat \<Rightarrow> float64" where
  "float_of n = round64 n 1"

definition float_mul :: "float64 \<Rightarrow> float64 \<Rightarrow> float64" where
  "float_mul x y = (case round64 (fst x * fst y) 1 of (m, e) \<Rightarrow> (m, e + snd x + snd y))"

definition float_div :: "float64 \<Rightarrow> float64 \<Rightarrow> float64" where
  "float_div x y = (case round64 (fst x) (fst y) of (m, e) \<Rightarrow> (m, e + snd x - snd y))"

text \<open>The conversion to an integer cuts the fraction off.\<close>

definition float_trunc :: "float64 \<Rightarrow> nat" where
  "float_trunc x = fst x * 2 ^ nat (snd x) div 2 ^ nat (- snd x)"

definition float_val :: "float64 \<Rightarrow> real" where
  "float_val x = real (fst x) * 2 powi snd x"

lemma bit_length_bounds:
  "n < 2 ^ bit_length n \<and> (0 < n \<longrightarrow> 2 ^ bit_length n \<le> 2 * n)"
proof (induction n rule: bit_length.induct)
  case (1 n)
  show ?case
  proof (cases "n = 0")
    case False
    with 1 have "n div 2 < 2 ^ bit_length (n div 2)" "n div 2 = 0 \<or> 2 ^ bit_length (n div 2) \<le> 2 * (n div 2)" by auto
    moreover have "bit_length n = Suc (bit_length (n div 2))" using False by (subst bit_length.simps) simp
    moreover have "bit_length 0 = 0" by (subst bit_length.simps) simp
    ultimately show ?thesis using False by (cases "n div 2 = 0") auto
  qed (simp add: bit_length.simps)
qed

lemma half_even_exact: "0 < d \<Longrightarrow> half_even (q * d) d = q"
  by (simp add: half_even_def Let_def)

lemma powi_nat: "real 2 ^ nat e = 2 powi e * 2 ^ nat (- e)"
  by (cases "0 \<le> e") (simp_all add: power_int_def flip: power_mult_distrib)

lemma powi_add: "(2 :: real) powi (a + b) = 2 powi a * 2 powi b"
  and powi_diff: "(2 :: real) powi (a - b) = 2 powi a / 2 powi b"
  by (simp_all add: power_int_add power_int_diff)

text \<open>A quotient that has a representation is not changed.\<close>

lemma round_at_exact:
  assumes "0 < d" and "real n / real d = real v * 2 powi p" and "e \<le> p"
  shows "float_val (round_at n d e) = real n / real d"
proof -
  let ?q = "v * 2 ^ nat (p - e)"
  have "2 powi p = 2 powi e * (2 powi (p - e) :: real)" by (simp flip: power_int_add)
  also have "2 powi (p - e) = (2 ^ nat (p - e) :: real)" using assms(3) by (simp add: power_int_def)
  finally have q: "real n / real d = real ?q * 2 powi e" using assms(2) by simp
  with assms(1) have "real n = real ?q * (2 powi e * real d)" by (simp add: field_simps)
  then have "real n * 2 ^ nat (- e) = real ?q * (real d * (2 powi e * 2 ^ nat (- e)))" by simp
  also have "2 powi e * 2 ^ nat (- e) = (2 ^ nat e :: real)" using powi_nat [of e] by simp
  finally have "real (n * 2 ^ nat (- e)) = real (?q * (d * 2 ^ nat e))" by simp
  then have "n * 2 ^ nat (- e) = ?q * (d * 2 ^ nat e)" by (simp only: of_nat_eq_iff)
  moreover have "0 < d * 2 ^ nat e" using assms(1) by simp
  ultimately have "half_even (n * 2 ^ nat (- e)) (d * 2 ^ nat e) = ?q" by (simp only: half_even_exact)
  then show ?thesis using q by (simp add: round_at_def float_val_def)
qed

lemma round64_exact:
  assumes "0 < d" and "real n / real d = real v * 2 powi p" and "v < 2 ^ 53"
  shows "float_val (round64 n d) = real n / real d"
proof (cases "n = 0")
  case False
  define k where "k = int (bit_length n) - int (bit_length d) - 53"
  have exact: "float_val (round_at n d e) = real n / real d" if "2 powi (e + 52) \<le> real n / real d" for e
  proof (rule round_at_exact [OF assms(1,2)])
    have "real v < 2 ^ 53" using assms(3) by (metis of_nat_less_iff of_nat_numeral of_nat_power)
    then have "real v * 2 powi p < 2 ^ 53 * 2 powi p" by (intro mult_strict_right_mono) simp_all
    also have "\<dots> = 2 powi (53 + p)" by (simp add: powi_add)
    finally have lt: "2 powi (e + 52) < (2 powi (53 + p) :: real)" using that assms(2) by linarith
    show "e \<le> p"
    proof (rule ccontr)
      assume "\<not> e \<le> p"
      then have "2 powi (53 + p) \<le> (2 powi (e + 52) :: real)" by (intro power_int_increasing) simp_all
      with lt show False by simp
    qed
  qed
  have n: "2 ^ bit_length n \<le> 2 * real n" and d: "real d < 2 ^ bit_length d"
    using bit_length_bounds [of n] bit_length_bounds [of d] False
    by (metis of_nat_le_iff of_nat_mult of_nat_numeral of_nat_power gr0I)
      (metis bit_length_bounds of_nat_less_iff of_nat_numeral of_nat_power)
  have "2 powi (k + 52) * real d \<le> 2 powi (k + 52) * 2 ^ bit_length d" using d by (intro mult_left_mono) simp_all
  also have "\<dots> = 2 powi (k + 52 + int (bit_length d))" by (simp add: power_int_add)
  also have "k + 52 + int (bit_length d) = int (bit_length n) - 1" by (simp add: k_def)
  also have "2 powi (int (bit_length n) - 1) = 2 ^ bit_length n / (2 :: real)" by (simp add: power_int_diff)
  also have "\<dots> \<le> real n" using n by simp
  finally have low: "2 powi (k + 52) \<le> real n / real d" using assms(1) by (simp add: field_simps)
  have high: "2 powi (k + 1 + 52) \<le> real n / real d" if "2 ^ 53 * (d * 2 ^ nat k) \<le> n * 2 ^ nat (- k)"
  proof -
    have "real (2 ^ 53 * (d * 2 ^ nat k)) \<le> real (n * 2 ^ nat (- k))" using that by (simp only: of_nat_le_iff)
    then have "2 ^ 53 * (real d * 2 ^ nat k) \<le> real n * 2 ^ nat (- k)" by simp
    also have "(2 :: real) ^ nat k = 2 powi k * 2 ^ nat (- k)" using powi_nat [of k] by simp
    finally have "(2 ^ 53 * 2 powi k * real d) * 2 ^ nat (- k) \<le> real n * 2 ^ nat (- k)" by (simp add: mult_ac)
    then have "2 ^ 53 * 2 powi k * real d \<le> real n" by (simp only: mult_le_cancel_right_pos zero_less_power zero_less_numeral)
    moreover have "2 powi (k + 1 + 52) = 2 ^ 53 * (2 powi k :: real)" by (simp add: power_int_add)
    ultimately show ?thesis using assms(1) by (simp add: field_simps)
  qed
  have "round64 n d = (if n * 2 ^ nat (- k) < 2 ^ 53 * (d * 2 ^ nat k) then round_at n d k else round_at n d (k + 1))"
    using False by (simp only: round64_def k_def Let_def if_False)
  then show ?thesis
    by (cases "n * 2 ^ nat (- k) < 2 ^ 53 * (d * 2 ^ nat k)")
      (simp_all only: if_True if_False not_less exact [OF low] exact [OF high])
qed (simp add: round64_def float_val_def)

lemma float_of_exact: "n < 2 ^ 53 \<Longrightarrow> float_val (float_of n) = real n"
  unfolding float_of_def using round64_exact [of 1 n n 0] by simp

lemma float_mul_exact:
  assumes "float_val x * float_val y = real v * 2 powi p" and "v < 2 ^ 53"
  shows "float_val (float_mul x y) = float_val x * float_val y"
proof -
  obtain m e where r: "round64 (fst x * fst y) 1 = (m, e)" by fastforce
  have "real (fst x * fst y) / real 1 = real v * 2 powi (p - snd x - snd y)"
    using assms(1) by (simp add: float_val_def powi_diff) (simp add: field_simps)
  from round64_exact [OF _ this assms(2)] r have "real m * 2 powi e = real (fst x * fst y)" by (simp add: float_val_def)
  moreover have "float_mul x y = (m, e + snd x + snd y)" by (simp only: float_mul_def r prod.case)
  ultimately show ?thesis by (simp add: float_val_def powi_add)
qed

lemma float_div_exact:
  assumes "float_val x / float_val y = real v * 2 powi p" and "v < 2 ^ 53" and "0 < float_val y"
  shows "float_val (float_div x y) = float_val x / float_val y"
proof -
  obtain m e where r: "round64 (fst x) (fst y) = (m, e)" by fastforce
  have y: "0 < fst y" using assms(3) by (auto simp: float_val_def intro: gr0I)
  have "real (fst x) / real (fst y) = real v * 2 powi (p - snd x + snd y)"
    using assms(1) y by (simp add: float_val_def powi_diff powi_add) (simp add: field_simps)
  from round64_exact [OF y this assms(2)] r have "real m * 2 powi e = real (fst x) / real (fst y)" by (simp add: float_val_def)
  then show ?thesis by (simp add: float_div_def r float_val_def powi_diff powi_add flip: times_divide_eq_left)
qed

lemma float_trunc_exact:
  assumes "float_val x = real v"
  shows "float_trunc x = v"
proof -
  have "real (fst x) * 2 ^ nat (snd x) = real (fst x) * 2 powi snd x * 2 ^ nat (- snd x)"
    using powi_nat [of "snd x"] by simp
  also have "\<dots> = real v * 2 ^ nat (- snd x)" using assms by (simp add: float_val_def)
  finally have "real (fst x * 2 ^ nat (snd x)) = real (v * 2 ^ nat (- snd x))" by simp
  then show ?thesis unfolding float_trunc_def by (simp only: of_nat_eq_iff) simp
qed

section \<open>Parsing\<close>

text \<open>\<open>leadingInt\<close>: the digits that a text starts with, as a number of 63 bits.\<close>

fun leadingInt :: "nat \<Rightarrow> string \<Rightarrow> (nat \<times> string) option" where
  "leadingInt x [] = Some (x, [])"
| "leadingInt x (c # s) = (case digit_val c of
      None \<Rightarrow> Some (x, c # s)
    | Some v \<Rightarrow>
        if nat max_int64 div 10 < x then None
        else if nat max_int64 < x * 10 + v then None
        else leadingInt (x * 10 + v) s)"

definition unitMap :: "(string \<times> nat) list" where
  "unitMap =
     [(''ns'', 1), (''us'', 1000), ([CHR 0xC2, CHR 0xB5] @ ''s'', 1000), ([CHR 0xCE, CHR 0xBC] @ ''s'', 1000),
      (''ms'', 1000000), (''s'', 1000000000), (''m'', 60000000000), (''h'', 3600000000000)]"

definition starts_number :: "string \<Rightarrow> bool" where
  "starts_number s \<longleftrightarrow> s \<noteq> [] \<and> (hd s = CHR ''.'' \<or> digit_val (hd s) \<noteq> None)"

text \<open>\<open>scale *= 10\<close> for every digit of the fraction, and \<open>int64(float64(f) * (float64(unit) / scale))\<close>.\<close>

fun float_scale :: "nat \<Rightarrow> float64" where
  "float_scale 0 = float_of 1"
| "float_scale (Suc n) = float_mul (float_scale n) (float_of 10)"

definition fraction_ns :: "nat \<Rightarrow> nat \<Rightarrow> nat \<Rightarrow> nat" where
  "fraction_ns f n unit = float_trunc (float_mul (float_of f) (float_div (float_of unit) (float_scale n)))"

definition invalid_duration :: "string \<Rightarrow> error" where
  "invalid_duration orig = ExtErr (''time: invalid duration '' @ orig)"

text \<open>The number in front of a unit: before the point, and after it with the number of digits.\<close>

definition parse_number :: "string \<Rightarrow> (nat \<times> nat \<times> nat \<times> string) option" where
  "parse_number s =
     (if \<not> starts_number s then None
      else (case leadingInt 0 s of
          None \<Rightarrow> None
        | Some (v, r) \<Rightarrow>
            if r \<noteq> [] \<and> hd r = CHR ''.'' then (case leadingInt 0 (tl r) of
                None \<Rightarrow> None
              | Some (f, r') \<Rightarrow>
                  if length r = length s \<and> length r' = length (tl r) then None
                  else Some (v, f, length (tl r) - length r', r'))
            else Some (v, 0, 0, r)))"

text \<open>A unit is made of the bytes up to the next point or digit.\<close>

definition unit_char :: "char \<Rightarrow> bool" where
  "unit_char c \<longleftrightarrow> \<not> (c = CHR ''.'' \<or> digit_val c \<noteq> None)"

text \<open>One number with its unit, in nanoseconds.\<close>

definition parse_term :: "string \<Rightarrow> string \<Rightarrow> error + (nat \<times> string)" where
  "parse_term orig s = (case parse_number s of
      None \<Rightarrow> Inl (invalid_duration orig)
    | Some (v, f, n, r) \<Rightarrow>
        (let u = takeWhile unit_char r;
             rest = dropWhile unit_char r
         in if u = [] then Inl (ExtErr (''time: missing unit in duration '' @ orig))
            else (case map_of unitMap u of
                None \<Rightarrow> Inl (ExtErr (''time: unknown unit '' @ u @ '' in duration '' @ orig))
              | Some unit \<Rightarrow>
                  if nat max_int64 div unit < v then Inl (invalid_duration orig)
                  else (let v' = v * unit + (if 0 < f then fraction_ns f n unit else 0) in
                    if nat max_int64 < v' then Inl (invalid_duration orig) else Inr (v', rest)))))"

lemma leadingInt_rest: "leadingInt x s = Some (v, r) \<Longrightarrow> length r \<le> length s"
  by (induction x s rule: leadingInt.induct) (auto split: option.splits if_splits)

lemma parse_number_rest: "parse_number s = Some (v, f, n, r) \<Longrightarrow> length r \<le> length s"
  by (auto simp: parse_number_def split: if_splits option.splits dest!: leadingInt_rest)

lemma parse_term_rest:
  assumes "parse_term orig s = Inr (v, rest)"
  shows "length rest < length s"
proof -
  let ?letter = unit_char
  from assms obtain v' f n r where r: "parse_number s = Some (v', f, n, r)"
    and u: "takeWhile ?letter r \<noteq> []" "rest = dropWhile ?letter r"
    by (auto simp: parse_term_def Let_def split: option.splits if_splits)
  have "length (takeWhile ?letter r) + length (dropWhile ?letter r) = length r"
    by (metis length_append takeWhile_dropWhile_id)
  moreover have "0 < length (takeWhile ?letter r)" using u(1) by blast
  ultimately have "length rest < length r" unfolding u(2) by linarith
  with parse_number_rest [OF r] show ?thesis by simp
qed

function parse_terms :: "string \<Rightarrow> nat \<Rightarrow> string \<Rightarrow> error + nat" where
  "parse_terms orig d s =
     (if s = [] then Inr d
      else (case parse_term orig s of
          Inl err \<Rightarrow> Inl err
        | Inr (v, rest) \<Rightarrow>
            if nat max_int64 < d + v then Inl (invalid_duration orig) else parse_terms orig (d + v) rest))"
  by pat_completeness auto
termination
  by (relation "measure (\<lambda>(orig, d, s). length s)") (auto dest: parse_term_rest)

declare parse_terms.simps [simp del]

definition ParseDuration :: "string \<Rightarrow> error + int" where
  "ParseDuration orig =
     (let neg = (orig \<noteq> [] \<and> hd orig = CHR ''-'');
          s = (if orig \<noteq> [] \<and> (hd orig = CHR ''-'' \<or> hd orig = CHR ''+'') then tl orig else orig)
      in if s = ''0'' then Inr 0
         else if s = [] then Inl (invalid_duration orig)
         else map_sum id (\<lambda>d. if neg then - int d else int d) (parse_terms orig 0 s))"

section \<open>What a duration means\<close>

text \<open>A number with a unit: before the point, the digits after it and their value, the unit.\<close>

record duration_term =
  dt_whole :: nat
  dt_digits :: nat
  dt_frac :: nat
  dt_unit :: string

definition term_text :: "duration_term \<Rightarrow> string" where
  "term_text t = nat_digits (dt_whole t) @ (if dt_digits t = 0 then [] else CHR ''.'' # pad (dt_digits t) (dt_frac t)) @ dt_unit t"

definition unit_ns :: "duration_term \<Rightarrow> nat" where
  "unit_ns t = (case map_of unitMap (dt_unit t) of None \<Rightarrow> 0 | Some ns \<Rightarrow> ns)"

text \<open>The unit is known and the last digit of the fraction stands for a whole number of nanoseconds.\<close>

definition term_ok :: "duration_term \<Rightarrow> bool" where
  "term_ok t \<longleftrightarrow> dt_unit t \<in> fst ` set unitMap \<and> dt_frac t < 10 ^ dt_digits t \<and> 10 ^ dt_digits t dvd unit_ns t"

definition term_ns :: "duration_term \<Rightarrow> nat" where
  "term_ns t = dt_whole t * unit_ns t + dt_frac t * (unit_ns t div 10 ^ dt_digits t)"

lemma foldl_digits_le: "x \<le> foldl (\<lambda>a c. 10 * a + (of_char c - 48)) (x :: nat) t"
proof (induction t arbitrary: x)
  case (Cons c t)
  have "x \<le> 10 * x + (of_char c - 48)" by simp
  also have "\<dots> \<le> foldl (\<lambda>a c. 10 * a + (of_char c - 48)) (10 * x + (of_char c - 48)) t" by (rule Cons.IH)
  finally show ?case by simp
qed simp

lemma leadingInt_digits:
  assumes "\<forall>c \<in> set t. digit_val c \<noteq> None" and "r = [] \<or> digit_val (hd r) = None"
    and "x \<le> nat max_int64"
  shows "leadingInt x (t @ r) =
    (let v = foldl (\<lambda>a c. 10 * a + (of_char c - 48)) x t in if v \<le> nat max_int64 then Some (v, r) else None)"
  using assms(1,3)
proof (induction t arbitrary: x)
  case Nil
  then show ?case using assms(2) by (cases r) auto
next
  case (Cons c t)
  from Cons.prems(1) obtain d where d: "digit_val c = Some d" by auto
  then have c: "of_char c - 48 = d" by (simp add: digit_val_def Let_def split: if_splits)
  show ?case
  proof (cases "10 * x + d \<le> nat max_int64")
    case True
    then have "\<not> nat max_int64 div 10 < x" by (simp add: max_int64_def)
    with True c d Cons.IH [of "10 * x + d"] Cons.prems(1) show ?thesis by (simp add: mult.commute)
  next
    case False
    with foldl_digits_le [of "10 * x + d" t] c d show ?thesis by (simp add: Let_def mult.commute not_le)
  qed
qed

lemma leadingInt_text:
  assumes "\<forall>c \<in> set t. digit_val c \<noteq> None" and "r = [] \<or> digit_val (hd r) = None"
  shows "leadingInt 0 (t @ r) = (if dec_value t \<le> nat max_int64 then Some (dec_value t, r) else None)"
  using leadingInt_digits [OF assms, of 0] by (simp add: dec_value_def Let_def)

lemma digits_are_digits: "\<forall>c \<in> set (nat_digits n). digit_val c \<noteq> None"
  using set_nat_digits [of n] by auto

text \<open>Fractions of whole nanoseconds are exact.\<close>

lemma float_scale_exact: "n \<le> 12 \<Longrightarrow> float_val (float_scale n) = 10 ^ n"
proof (induction n)
  case (Suc n)
  have ten: "float_val (float_of 10) = 10" by (simp add: float_of_exact)
  have split: "(10 :: real) ^ n * 10 = real (5 ^ Suc n) * 2 powi int (Suc n)"
    by (simp add: power_int_def nat_add_distrib flip: power_mult_distrib)
  have "(5 :: nat) ^ Suc n \<le> 5 ^ 12" using Suc.prems by (intro power_increasing) simp_all
  then have "(5 :: nat) ^ Suc n < 2 ^ 53" by (simp del: power_Suc)
  with float_mul_exact [of "float_scale n" "float_of 10" "5 ^ Suc n" "int (Suc n)"] Suc ten split
  show ?case by simp
qed (simp add: float_of_exact)

lemma fraction_ns_exact:
  assumes "f < 10 ^ n" and "10 ^ n dvd unit" and "0 < unit" and "unit \<le> 3600000000000"
  shows "fraction_ns f n unit = f * (unit div 10 ^ n)"
proof -
  define q where "q = unit div 10 ^ n"
  have unit: "unit = 10 ^ n * q" using assms(2) by (simp add: q_def)
  with assms(3) have "0 < q" by (auto intro: gr0I)
  then have ten: "10 ^ n \<le> unit" by (simp add: unit)
  have "n \<le> 12"
  proof (rule ccontr)
    assume "\<not> n \<le> 12"
    then have "(10 :: nat) ^ 13 \<le> 10 ^ n" by (intro power_increasing) simp_all
    with ten assms(4) show False by simp
  qed
  note scale = float_scale_exact [OF this]
  have small: "f < 2 ^ 53" "q < 2 ^ 53" "f * q < 2 ^ 53"
  proof -
    show "f < 2 ^ 53" using assms(1,4) ten by simp
    have "q \<le> unit" using unit by simp
    then show "q < 2 ^ 53" using assms(4) by simp
    have "f * q \<le> unit" unfolding unit using assms(1) by (intro mult_right_mono) simp_all
    then show "f * q < 2 ^ 53" using assms(4) by simp
  qed
  have u: "float_val (float_of unit) = real unit" using assms(4) by (intro float_of_exact) simp
  have d: "float_val (float_div (float_of unit) (float_scale n)) = real q"
    using float_div_exact [of "float_of unit" "float_scale n" q 0] scale u small(2) by (simp add: unit)
  have "float_val (float_mul (float_of f) (float_div (float_of unit) (float_scale n))) = real (f * q)"
    using float_mul_exact [of "float_of f" "float_div (float_of unit) (float_scale n)" "f * q" 0] d
      float_of_exact [OF small(1)] small(3) by simp
  then show ?thesis unfolding fraction_ns_def q_def [symmetric] by (rule float_trunc_exact)
qed

text \<open>The units have no digits and no point.\<close>

lemma unitMap_facts:
  assumes "u \<in> fst ` set unitMap"
  shows "u \<noteq> []" "list_all unit_char u"
    "\<exists>ns. map_of unitMap u = Some ns \<and> 0 < ns \<and> ns \<le> 3600000000000"
  using assms by (auto simp: unitMap_def unit_char_def digit_val_def)

definition unit_sep :: "string \<Rightarrow> bool" where
  "unit_sep rest \<longleftrightarrow> rest = [] \<or> starts_number rest"

lemma unit_split:
  assumes "u \<in> fst ` set unitMap" and "unit_sep rest"
  shows "takeWhile unit_char (u @ rest) = u"
    "dropWhile unit_char (u @ rest) = rest"
proof -
  have u: "\<forall>c \<in> set u. unit_char c" using unitMap_facts(2) [OF assms(1)] by (simp add: list_all_iff)
  have "takeWhile unit_char rest = []"
    "dropWhile unit_char rest = rest"
    using assms(2) by (cases rest; auto simp: unit_sep_def starts_number_def unit_char_def)+
  then show "takeWhile unit_char (u @ rest) = u"
    "dropWhile unit_char (u @ rest) = rest"
    using u by (simp_all add: takeWhile_append2 dropWhile_append2)
qed

lemma starts_number_digits: "starts_number (nat_digits n @ r)"
proof -
  obtain c cs where "nat_digits n = c # cs" by (cases "nat_digits n") auto
  then show ?thesis using digits_are_digits [of n] by (simp add: starts_number_def)
qed

lemma parse_number_text:
  assumes "u \<in> fst ` set unitMap" and "f < 10 ^ n" and "10 ^ n \<le> (3600000000000 :: nat)"
  shows "parse_number (nat_digits v @ (if n = 0 then [] else CHR ''.'' # pad n f) @ u @ rest) =
    (if v \<le> nat max_int64 then Some (v, f, n, u @ rest) else None)"
proof -
  obtain c u' where u: "u = c # u'" using unitMap_facts(1) [OF assms(1)] by (cases u) auto
  have c: "c \<noteq> CHR ''.''" "digit_val c = None" using unitMap_facts(2) [OF assms(1)] u by (auto simp: unit_char_def)
  show ?thesis
  proof (cases "n = 0")
    case True
    with c u assms(2) show ?thesis
      by (simp add: parse_number_def starts_number_digits leadingInt_text [OF digits_are_digits] dec_value_nat_digits)
  next
    case False
    have "dec_value (pad n f) \<le> nat max_int64" using assms(2,3) by (simp add: max_int64_def)
    moreover have "\<forall>c \<in> set (pad n f). digit_val c \<noteq> None" using pad_digits by blast
    ultimately have "leadingInt 0 (pad n f @ u @ rest) = Some (f, u @ rest)"
      using c u by (subst leadingInt_text) auto
    moreover have "digit_val (CHR ''.'') = None" by (simp add: digit_val_def)
    ultimately show ?thesis using False assms(2)
      by (simp add: parse_number_def starts_number_digits leadingInt_text [OF digits_are_digits] dec_value_nat_digits)
  qed
qed

lemma parse_term_text:
  assumes "term_ok t" and "unit_sep rest"
  shows "parse_term orig (term_text t @ rest) =
    (if term_ns t \<le> nat max_int64 then Inr (term_ns t, rest) else Inl (invalid_duration orig))"
proof -
  from assms(1) have u: "dt_unit t \<in> fst ` set unitMap" and f: "dt_frac t < 10 ^ dt_digits t"
    and dvd: "10 ^ dt_digits t dvd unit_ns t" by (simp_all add: term_ok_def)
  obtain ns where ns: "map_of unitMap (dt_unit t) = Some ns" "0 < ns" "ns \<le> 3600000000000"
    using unitMap_facts(3) [OF u] by blast
  then have unit: "unit_ns t = ns" by (simp add: unit_ns_def)
  with dvd ns have ten: "10 ^ dt_digits t \<le> (3600000000000 :: nat)" by (meson dvd_imp_le le_trans)
  note n = parse_number_text [OF u f ten, of "dt_whole t" rest]
  note split = unit_split [OF u assms(2)]
  have frac: "(if 0 < dt_frac t then fraction_ns (dt_frac t) (dt_digits t) ns else 0) = dt_frac t * (ns div 10 ^ dt_digits t)"
    using fraction_ns_exact [OF f dvd] ns unit by simp
  show ?thesis
  proof (cases "nat max_int64 div ns < dt_whole t")
    case True
    then have "nat max_int64 < dt_whole t * ns" using ns(2) by (simp add: div_less_iff_less_mult)
    then have "\<not> term_ns t \<le> nat max_int64" by (simp add: term_ns_def unit)
    with True show ?thesis by (simp add: parse_term_def term_text_def n split unitMap_facts(1) [OF u] ns(1))
  next
    case False
    then have "dt_whole t * ns \<le> nat max_int64" using ns(2) by (simp add: div_less_iff_less_mult not_less)
    moreover have "dt_whole t * 1 \<le> dt_whole t * ns" using ns(2) by (intro mult_left_mono) simp_all
    ultimately have "dt_whole t \<le> nat max_int64" by linarith
    with False show ?thesis
      by (simp add: parse_term_def term_text_def n split unitMap_facts(1) [OF u] ns(1) frac term_ns_def unit not_le)
  qed
qed

lemma unit_sep_terms: "unit_sep (concat (map term_text ts))"
  by (cases ts) (simp_all add: unit_sep_def term_text_def starts_number_digits)

lemma parse_terms_text:
  assumes "list_all term_ok ts" and "d \<le> nat max_int64"
  shows "parse_terms orig d (concat (map term_text ts)) =
    (if d + (\<Sum>t\<leftarrow>ts. term_ns t) \<le> nat max_int64 then Inr (d + (\<Sum>t\<leftarrow>ts. term_ns t)) else Inl (invalid_duration orig))"
  using assms
proof (induction ts arbitrary: d)
  case Nil
  then show ?case by (simp add: parse_terms.simps)
next
  case (Cons t ts)
  note p = parse_term_text [of t "concat (map term_text ts)" orig, OF _ unit_sep_terms]
  have ne: "term_text t \<noteq> []" by (simp add: term_text_def)
  show ?case
  proof (cases "d + term_ns t \<le> nat max_int64")
    case True
    with Cons p ne show ?thesis by (subst parse_terms.simps) (simp add: add.assoc)
  next
    case False
    with Cons p ne show ?thesis by (subst parse_terms.simps) simp
  qed
qed

text \<open>A sum of numbers with units, with or without a sign, is read exactly, or refused if it is out of range.\<close>

definition sign_text :: "int \<Rightarrow> string" where
  "sign_text sg = (if sg < 0 then ''-'' else [])"

lemma ParseDuration_text:
  assumes "list_all term_ok ts" and "ts \<noteq> []" and "sg \<in> {1, -1}"
    and "amount = (\<Sum>t\<leftarrow>ts. term_ns t)" and "tx = sign_text sg @ concat (map term_text ts)"
  shows "ParseDuration tx = (if int amount \<le> max_int64 then Inr (sg * int amount) else Inl (invalid_duration tx))"
proof -
  let ?s = "concat (map term_text ts)"
  have sep: "starts_number ?s" using unit_sep_terms [of ts] assms(2) by (auto simp: unit_sep_def term_text_def neq_Nil_conv)
  then have hd: "?s \<noteq> []" "hd ?s \<noteq> CHR ''-''" "hd ?s \<noteq> CHR ''+''"
    by (auto simp: starts_number_def digit_val_def)
  have "?s \<noteq> ''0''"
  proof
    assume zero: "?s = ''0''"
    from assms(2) obtain t ts' where ts: "ts = t # ts'" by (cases ts) auto
    with assms(1) have u: "dt_unit t \<in> fst ` set unitMap" by (simp add: term_ok_def)
    have "dt_unit t \<noteq> []" by (rule unitMap_facts(1) [OF u])
    then have "2 \<le> length ?s" by (cases "nat_digits (dt_whole t)"; cases "dt_unit t") (simp_all add: ts term_text_def)
    with zero show False by simp
  qed
  moreover have "(if tx \<noteq> [] \<and> (hd tx = CHR ''-'' \<or> hd tx = CHR ''+'') then tl tx else tx) = ?s"
    and "(tx \<noteq> [] \<and> hd tx = CHR ''-'') = (sg < 0)"
    using hd by (auto simp: assms(5) sign_text_def)
  moreover have "(int amount \<le> max_int64) = (amount \<le> nat max_int64)" by (auto simp: max_int64_def)
  ultimately show ?thesis
    using parse_terms_text [OF assms(1), of 0 tx] assms(3) hd(1) by (auto simp: ParseDuration_def Let_def simp flip: assms(4))
qed

end
