(* ===== verification/Go_Time_Parse.thy ===== *)
theory Go_Time_Parse
  imports Go_Duration
begin

text \<open>
  The type \<open>Time\<close> of package \<open>time\<close>: an instant and a location, its text in the format RFC 822, and
  \<open>Parse\<close> for the layout RFC 3339, from which \<open>UnmarshalJSON\<close> reads a time stamp, as in Go 1.6. A stamp that
  \<open>MarshalJSON\<close> wrote is read as the same instant, in UTC, in the local time zone or in one without a name.
\<close>

section \<open>Times\<close>

datatype location = UTC | Local | FixedZone string int

text \<open>The local time zone gives the abbreviation and the offset in force at a second since 1970.\<close>

type_synonym local_zone = "int \<Rightarrow> string \<times> int"

record Time =
  t_ns :: int
  t_loc :: location

definition zone_at :: "local_zone \<Rightarrow> Time \<Rightarrow> string \<times> int" where
  "zone_at Z t = (case t_loc t of
      UTC \<Rightarrow> (''UTC'', 0)
    | Local \<Rightarrow> Z (t_ns t div 1000000000)
    | FixedZone name off \<Rightarrow> (name, off))"

text \<open>\<open>Time{}\<close> is the start of the year 1.\<close>

definition zero_time :: Time where
  "zero_time = \<lparr>t_ns = - 62135596800000000000, t_loc = UTC\<rparr>"

definition shortMonthNames :: "string list" where
  "shortMonthNames = [''Jan'', ''Feb'', ''Mar'', ''Apr'', ''May'', ''Jun'', ''Jul'', ''Aug'', ''Sep'', ''Oct'', ''Nov'', ''Dec'']"

text \<open>A zone without a name is printed as hours and minutes.\<close>

definition zone_name :: "string \<times> int \<Rightarrow> string" where
  "zone_name z = (if fst z \<noteq> [] then fst z
     else let m = \<bar>snd z\<bar> div 60 in
       (if snd z \<le> - 60 then CHR ''-'' else CHR ''+'') # pad 2 (nat (m div 60)) @ pad 2 (nat (m mod 60)))"

text \<open>\<open>t.Format("02 Jan 06 15:04 MST")\<close>\<close>

definition Format_RFC822 :: "local_zone \<Rightarrow> Time \<Rightarrow> string" where
  "Format_RFC822 Z t = (case clock (snd (zone_at Z t)) (t_ns t) of ((y, m, d), sec, ns) \<Rightarrow>
     pad 2 (nat d) @ '' '' @ shortMonthNames ! (m - 1) @ '' '' @ pad 2 (nat (max 0 y) mod 100) @ '' ''
     @ pad 2 (sec div 3600) @ '':'' @ pad 2 (sec div 60 mod 60) @ '' '' @ zone_name (zone_at Z t))"

definition MarshalJSON :: "local_zone \<Rightarrow> Time \<Rightarrow> error + string" where
  "MarshalJSON Z t = Time_MarshalJSON (snd (zone_at Z t)) (t_ns t)"

section \<open>Parsing\<close>

definition isDigit :: "string \<Rightarrow> nat \<Rightarrow> bool" where
  "isDigit s i \<longleftrightarrow> i < length s \<and> digit_val (s ! i) \<noteq> None"

definition atoi :: "string \<Rightarrow> int option" where
  "atoi s = (let sign = (s \<noteq> [] \<and> (hd s = CHR ''-'' \<or> hd s = CHR ''+'')) in
     case leadingInt 0 (if sign then tl s else s) of
       Some (q, []) \<Rightarrow> Some (if sign \<and> hd s = CHR ''-'' then - int q else int q)
     | _ \<Rightarrow> None)"

text \<open>A number of two digits, or of one where the layout allows it.\<close>

definition getnum :: "string \<Rightarrow> bool \<Rightarrow> (nat \<times> string) option" where
  "getnum s fixed =
     (if \<not> isDigit s 0 then None
      else if \<not> isDigit s 1 then (if fixed then None else Some (dec_value (take 1 s), drop 1 s))
      else Some (dec_value (take 2 s), drop 2 s))"

text \<open>\<open>skip\<close>, for a prefix of one byte.\<close>

fun skip :: "char \<Rightarrow> string \<Rightarrow> string option" where
  "skip c [] = None"
| "skip c (x # s) = (if x = c then Some s else None)"

definition get_year :: "string \<Rightarrow> (int \<times> string) option" where
  "get_year s = (if length s < 4 \<or> \<not> isDigit s 0 then None
     else map_option (\<lambda>y. (y, drop 4 s)) (atoi (take 4 s)))"

text \<open>Seconds may have a fraction, whatever the layout says (\<open>parseNanoseconds\<close>).\<close>

definition get_fraction :: "string \<Rightarrow> (nat \<times> string) option" where
  "get_fraction s =
     (if 2 \<le> length s \<and> hd s = CHR ''.'' \<and> isDigit s 1 then
        (let ds = takeWhile (\<lambda>c. digit_val c \<noteq> None) (tl s) in
         case atoi ds of
           None \<Rightarrow> None
         | Some ns \<Rightarrow> if ns < 0 \<or> 1000000000 \<le> ns then None
             else Some (nat ns * 10 ^ (9 - length ds), dropWhile (\<lambda>c. digit_val c \<noteq> None) (tl s)))
      else Some (0, s))"

text \<open>\<open>Z07:00\<close>: \<open>None\<close> is UTC.\<close>

definition get_zone :: "string \<Rightarrow> (int option \<times> string) option" where
  "get_zone s =
     (if s \<noteq> [] \<and> hd s = CHR ''Z'' then Some (None, tl s)
      else if length s < 6 \<or> s ! 3 \<noteq> CHR '':'' then None
      else (case (atoi (take 2 (drop 1 s)), atoi (take 2 (drop 4 s))) of
          (Some hr, Some mm) \<Rightarrow>
            (let off = (hr * 60 + mm) * 60 in
             if hd s = CHR ''+'' then Some (Some off, drop 6 s)
             else if hd s = CHR ''-'' then Some (Some (- off), drop 6 s)
             else None)
        | _ \<Rightarrow> None))"

text \<open>The date and the time of day, as nanoseconds since 1970 in their own time zone. A day 0 is the one before
  the first.\<close>

definition parse_date :: "string \<Rightarrow> ((int \<times> nat \<times> nat) \<times> string) option" where
  "parse_date s =
     Option.bind (get_year s) (\<lambda>(y, s). Option.bind (skip (CHR ''-'') s) (\<lambda>s.
     Option.bind (getnum s True) (\<lambda>(m, s). if m = 0 \<or> 12 < m then None else
     Option.bind (skip (CHR ''-'') s) (\<lambda>s.
     Option.bind (getnum s True) (\<lambda>(d, s). Some ((y, m, d), s))))))"

definition parse_clock :: "string \<Rightarrow> ((nat \<times> nat) \<times> string) option" where
  "parse_clock s =
     Option.bind (getnum s False) (\<lambda>(h, s). if 24 \<le> h then None else
     Option.bind (skip (CHR '':'') s) (\<lambda>s.
     Option.bind (getnum s True) (\<lambda>(mi, s). if 60 \<le> mi then None else
     Option.bind (skip (CHR '':'') s) (\<lambda>s.
     Option.bind (getnum s True) (\<lambda>(se, s). if 60 \<le> se then None else
     Option.bind (get_fraction s) (\<lambda>(ns, s). Some ((3600 * h + 60 * mi + se, ns), s)))))))"

text \<open>\<open>Parse(RFC3339, s)\<close>: an offset that is the one of the local time zone at that instant stands for it.\<close>

definition Parse_RFC3339 :: "local_zone \<Rightarrow> string \<Rightarrow> Time option" where
  "Parse_RFC3339 Z s =
     Option.bind (parse_date s) (\<lambda>((y, m, d), s). Option.bind (skip (CHR ''T'') s) (\<lambda>s.
     Option.bind (parse_clock s) (\<lambda>((sec, ns), s). Option.bind (get_zone s) (\<lambda>(zone, s).
       if s \<noteq> [] \<or> daysIn m y < int d then None
       else (let t = 1000000000 * (86400 * (days_of_date y m (int d) - 719162) + int sec) + int ns in
         case zone of
           None \<Rightarrow> Some \<lparr>t_ns = t, t_loc = UTC\<rparr>
         | Some off \<Rightarrow>
             (let u = t - 1000000000 * off in
              Some \<lparr>t_ns = u, t_loc = (if snd (Z (u div 1000000000)) = off then Local else FixedZone [] off)\<rparr>))))))"

section \<open>Reading what was written\<close>

text \<open>The location of a time that was written with an offset and is read under a local time zone.\<close>

definition read_location :: "local_zone \<Rightarrow> int \<Rightarrow> int \<Rightarrow> location" where
  "read_location Z off ns =
     (if off = 0 then UTC else if snd (Z (ns div 1000000000)) = off then Local else FixedZone [] off)"

lemma atoi_digits:
  assumes "\<forall>c \<in> set t. digit_val c \<noteq> None" and "dec_value t \<le> nat max_int64"
  shows "atoi t = Some (int (dec_value t))"
proof -
  have "leadingInt 0 t = Some (dec_value t, [])" using leadingInt_text [OF assms(1), of "[]"] assms(2) by simp
  moreover have "\<not> (t \<noteq> [] \<and> (hd t = CHR ''-'' \<or> hd t = CHR ''+''))"
    using assms(1) by (cases t) (auto simp: digit_val_def)
  ultimately show ?thesis by (auto simp: atoi_def Let_def)
qed

lemma two_digits:
  assumes "n < 100"
  obtains a b where "pad 2 n = [a, b]" "digit_val a \<noteq> None" "digit_val b \<noteq> None"
proof -
  have "length (pad 2 n) = 2" using assms by simp
  then obtain a b where "pad 2 n = [a, b]" by (auto simp: length_Suc_conv numeral_2_eq_2)
  with that pad_digits [of _ 2 n] show thesis by auto
qed

lemma getnum_pad: "n < 100 \<Longrightarrow> getnum (pad 2 n @ s) fixed = Some (n, s)"
  using dec_value_pad [of 2 n] by (elim two_digits) (simp add: getnum_def isDigit_def del: dec_value_pad)

lemma get_year_pad:
  assumes "n < 10000"
  shows "get_year (pad 4 n @ s) = Some (int n, s)"
proof -
  have len: "length (pad 4 n) = 4" using assms by simp
  then have "pad 4 n \<noteq> []" by auto
  then have "isDigit (pad 4 n @ s) 0" using pad_digits [of _ 4 n] len by (simp add: isDigit_def nth_append)
  moreover have "atoi (pad 4 n) = Some (int n)"
    using assms atoi_digits [of "pad 4 n"] pad_digits by (simp add: max_int64_def)
  ultimately show ?thesis using len by (simp add: get_year_def)
qed

lemma fraction_digits:
  assumes "ns < 1000000000" and "ns \<noteq> 0"
  obtains t where "fraction_text ns = CHR ''.'' # t" "t \<noteq> []" "\<forall>c \<in> set t. digit_val c \<noteq> None" "dec_value t \<le> ns"
proof -
  define t where "t = rev (dropWhile (\<lambda>c. c = CHR ''0'') (rev (pad 9 ns)))"
  have f: "fraction_text ns = CHR ''.'' # t" using assms(2) by (simp add: fraction_text_def t_def)
  have "set t \<subseteq> set (pad 9 ns)" unfolding t_def by (auto dest: set_dropWhileD)
  then have d: "\<forall>c \<in> set t. digit_val c \<noteq> None" using pad_digits by blast
  have r: "read_fraction (fraction_text ns @ ''Z'') = (ns, ''Z'')"
    using assms(1) by (intro read_fraction_text) (simp_all add: digit_val_def)
  moreover from d have "takeWhile (\<lambda>c. digit_val c \<noteq> None) (t @ ''Z'') = t"
    by (simp add: takeWhile_append2 digit_val_def)
  ultimately have v: "dec_value t * 10 ^ (9 - length t) = ns" unfolding f by (simp add: read_fraction_def Let_def)
  with assms(2) have "t \<noteq> []" by (auto simp: dec_value_def)
  moreover have "dec_value t * 1 \<le> dec_value t * 10 ^ (9 - length t)" by (intro mult_left_mono) simp_all
  ultimately show thesis using that f d v by simp
qed

lemma get_fraction_text:
  assumes "ns < 1000000000" and "z \<noteq> []" and "digit_val (hd z) = None" and "hd z \<noteq> CHR ''.''"
  shows "get_fraction (fraction_text ns @ z) = Some (ns, z)"
proof (cases "ns = 0")
  case True
  with assms show ?thesis by (simp add: fraction_text_def get_fraction_def)
next
  case False
  obtain t where t: "fraction_text ns = CHR ''.'' # t" "t \<noteq> []" "\<forall>c \<in> set t. digit_val c \<noteq> None" "dec_value t \<le> ns"
    using fraction_digits [OF assms(1) False] .
  have ds: "takeWhile (\<lambda>c. digit_val c \<noteq> None) (t @ z) = t" "dropWhile (\<lambda>c. digit_val c \<noteq> None) (t @ z) = z"
    using t(3) assms(2,3) by (cases z; auto simp: takeWhile_append2 dropWhile_append2)+
  have "atoi t = Some (int (dec_value t))" using t(3,4) assms(1) by (intro atoi_digits) (simp_all add: max_int64_def)
  moreover have "read_fraction (fraction_text ns @ z) = (ns, z)" using assms by (rule read_fraction_text)
  moreover have "isDigit (fraction_text ns @ z) 1" using t(1-3) by (cases t) (simp_all add: isDigit_def)
  moreover have "2 \<le> length (fraction_text ns @ z)" using t(1,2) by (cases t) simp_all
  ultimately show ?thesis
    using t(2,4) assms(1) by (auto simp: get_fraction_def read_fraction_def t(1) ds Let_def Suc_le_eq simp del: not_None_eq)
qed

lemma get_zone_text:
  assumes "60 dvd off" and "\<bar>off\<bar> < 360000"
  shows "get_zone (zone_text off) = Some (if off = 0 then None else Some off, [])"
proof (cases "off = 0")
  case False
  define z where "z = nat (\<bar>off\<bar> div 60)"
  have "0 \<le> \<bar>off\<bar> div 60" by (simp add: pos_imp_zdiv_nonneg_iff)
  then have z: "60 * int z = \<bar>off\<bar>" using assms(1) by (simp add: z_def)
  with assms(2) have h: "z div 60 < 100" and m: "z mod 60 < 100" by auto
  obtain a b where a: "pad 2 (z div 60) = [a, b]" using two_digits [OF h] by blast
  obtain c d where c: "pad 2 (z mod 60) = [c, d]" using two_digits [OF m] by blast
  have "atoi (pad 2 (z div 60)) = Some (int (z div 60))" "atoi (pad 2 (z mod 60)) = Some (int (z mod 60))"
    using h m pad_digits by (simp_all add: atoi_digits max_int64_def)
  then have n: "atoi [a, b] = Some (int (z div 60))" "atoi [c, d] = Some (int (z mod 60))" by (simp_all only: a c)
  have minus: "off \<le> - 60 \<longleftrightarrow> off < 0" using assms(1) False by presburger
  have "nat (\<bar>off\<bar> div 60 div 60) = z div 60" "nat (\<bar>off\<bar> div 60 mod 60) = z mod 60"
    by (simp_all add: z_def nat_div_distrib nat_mod_distrib pos_imp_zdiv_nonneg_iff)
  then have zt: "zone_text off = (if off < 0 then CHR ''-'' else CHR ''+'') # [a, b] @ '':'' @ [c, d]"
    using False minus by (simp add: zone_text_def Let_def a c)
  have "int z = int (z div 60) * 60 + int (z mod 60)" by (simp add: zdiv_int zmod_int)
  with z have "(int (z div 60) * 60 + int (z mod 60)) * 60 = \<bar>off\<bar>" by (metis mult.commute)
  then have "(int (z div 60) * 60 + int (z mod 60)) * 60 = (if off < 0 then - off else off)" by simp
  with False n show ?thesis by (auto simp: zt get_zone_def Let_def)
qed (simp add: zone_text_def get_zone_def)

text \<open>A time that was written is read as the same instant, if its zone is a whole number of minutes from UTC;
  the time zone of the reader may be another one.\<close>

lemma Parse_Marshal:
  assumes "MarshalJSON Z' t = Inr s" and "zone_at Z' t = (name, off)" and "60 dvd off" and "\<bar>off\<bar> < 360000"
  shows "Parse_RFC3339 Z s = Some \<lparr>t_ns = t_ns t, t_loc = read_location Z off (t_ns t)\<rparr>"
proof -
  obtain y m d sec ns where c: "clock off (t_ns t) = ((y, m, d), sec, ns)" by (metis prod_cases3)
  from assms(1,2) have ok: "year_ok off (t_ns t)" and s: "s = RFC3339Nano off (t_ns t)"
    by (simp_all add: MarshalJSON_def Time_MarshalJSON_def split: if_splits)
  with c have y: "nat y < 10000" "0 \<le> y" by (auto simp: year_ok_def)
  note spec = clock_spec [OF c]
  have small: "m < 100" "nat d < 100" "sec div 3600 < 24" "sec div 60 mod 60 < 60" "sec mod 60 < 60" using spec by auto
  let ?r = "fraction_text ns @ zone_text off"
  let ?q = "pad 2 (sec div 3600) @ '':'' @ pad 2 (sec div 60 mod 60) @ '':'' @ pad 2 (sec mod 60) @ ?r"
  have "parse_date s = Some ((y, m, nat d), CHR ''T'' # ?q)"
    using y small spec(4,5) by (simp add: s RFC3339Nano_def c parse_date_def get_year_pad getnum_pad)
  moreover have "parse_clock ?q = Some ((sec, ns), zone_text off)"
    using small seconds_split [of sec] get_fraction_text [OF spec(3) zone_start]
    by (simp add: parse_clock_def getnum_pad not_le)
  ultimately have "Parse_RFC3339 Z s =
      (let t' = 1000000000 * (86400 * (days_of_date y m d - 719162) + int sec) + int ns in
         if off = 0 then Some \<lparr>t_ns = t', t_loc = UTC\<rparr>
         else (let u = t' - 1000000000 * off in
           Some \<lparr>t_ns = u, t_loc = (if snd (Z (u div 1000000000)) = off then Local else FixedZone [] off)\<rparr>))"
    using get_zone_text [OF assms(3,4)] spec(6,8) by (simp add: Parse_RFC3339_def)
  moreover have "1000000000 * (86400 * (days_of_date y m d - 719162) + int sec) + int ns - 1000000000 * off = t_ns t"
    using spec(1) by (simp add: algebra_simps)
  ultimately show ?thesis
    using assms(2) by (cases "off = 0") (simp_all add: Let_def read_location_def)
qed

text \<open>The date and the time of day of that time are those of the sender.\<close>

lemma read_location_offset:
  "snd (zone_at Z \<lparr>t_ns = ns, t_loc = read_location Z off ns\<rparr>) = off"
  by (simp add: zone_at_def read_location_def)

text \<open>A time that was never set is written as the start of the year 1.\<close>

lemma Marshal_zero_time: "MarshalJSON Z zero_time = Inr ''0001-01-01T00:00:00Z''"
proof -
  have "clock 0 (- 62135596800000000000) = ((1, 1, 1), 0, 0)" by code_simp
  moreover have "pad 2 1 = ''01''" "pad 2 0 = ''00''" "pad 4 1 = ''0001''" by code_simp+
  ultimately show ?thesis
    by (simp add: MarshalJSON_def zero_time_def zone_at_def Time_MarshalJSON_def year_ok_def RFC3339Nano_def
        fraction_text_def zone_text_def)
qed

end
