(* ===== verification/Go_Url.thy ===== *)
theory Go_Url
  imports Go_Strings
begin

text \<open>
  Which method and URL \<open>http.NewRequest\<close> accepts: the parser of \<open>net/url\<close>, as in Go 1.6, as far as it can fail. The
  parts of a URL that it finds are only kept where a later step depends on them. A URL that starts with an
  ordinary scheme and host is accepted when no per cent sign follows.
\<close>

section \<open>Escapes\<close>

datatype url_mode = encodePath | encodeUserPassword | encodeFragment | encodeHost | encodeZone

definition alnum :: "char \<Rightarrow> bool" where
  "alnum c \<longleftrightarrow> (let n = (of_char c :: nat) in 48 \<le> n \<and> n \<le> 57 \<or> 65 \<le> n \<and> n \<le> 90 \<or> 97 \<le> n \<and> n \<le> 122)"

definition shouldEscape :: "char \<Rightarrow> url_mode \<Rightarrow> bool" where
  "shouldEscape c mode \<longleftrightarrow>
     (if alnum c then False
      else if mode \<in> {encodeHost, encodeZone} \<and> c \<in> set ([CHR 0x21, CHR 0x22, CHR 0x27] @ ''$&()*+,;=:[]<>'') then False
      else if c \<in> set ''-_.~'' then False
      else if c \<in> set ''$&+,/:;=?@'' then (case mode of
          encodePath \<Rightarrow> c = CHR ''?''
        | encodeUserPassword \<Rightarrow> c \<in> set ''@/?:''
        | encodeFragment \<Rightarrow> False
        | _ \<Rightarrow> True)
      else True)"

definition unhex :: "char \<Rightarrow> nat option" where
  "unhex c = (let n = of_char c in
     if 48 \<le> n \<and> n \<le> 57 then Some (n - 48)
     else if 97 \<le> n \<and> n \<le> 102 then Some (n - 87)
     else if 65 \<le> n \<and> n \<le> 70 then Some (n - 55)
     else None)"

definition EscapeError :: "string \<Rightarrow> error" where
  "EscapeError s = Errorf ''invalid URL escape %q'' [ArgS (take 3 s)]"

definition InvalidHostError :: "string \<Rightarrow> error" where
  "InvalidHostError s = Errorf ''invalid character %q in host name'' [ArgS s]"

text \<open>The error of \<open>unescape\<close>, if it has one: a per cent sign is followed by two hexadecimal digits; in a host,
  only bytes outside ASCII and the per cent sign itself are escaped, and the other bytes are allowed ones.\<close>

fun unescape_error :: "url_mode \<Rightarrow> string \<Rightarrow> error option" where
  "unescape_error mode [] = None"
| "unescape_error mode (c # s) =
     (if c = CHR ''%'' then
        (if length s < 2 then Some (EscapeError (c # s))
         else (case (unhex (s ! 0), unhex (s ! 1)) of
             (Some a, Some b) \<Rightarrow>
               if mode = encodeHost \<and> a < 8 \<and> take 2 s \<noteq> ''25'' then Some (EscapeError (c # s))
               else if mode = encodeZone \<and> take 2 s \<noteq> ''25'' \<and> 16 * a + b \<noteq> 32 \<and> shouldEscape (char_of (16 * a + b)) encodeHost
                 then Some (EscapeError (c # s))
               else unescape_error mode (drop 2 s)
           | _ \<Rightarrow> Some (EscapeError (c # s))))
      else if mode \<in> {encodeHost, encodeZone} \<and> (of_char c :: nat) < 0x80 \<and> shouldEscape c mode then Some (InvalidHostError [c])
      else unescape_error mode s)"

section \<open>The parts of a URL\<close>

text \<open>\<open>split(s, c, true)\<close>: before and after the first \<open>c\<close>.\<close>

definition cut :: "string \<Rightarrow> char \<Rightarrow> string \<times> string" where
  "cut s c = (takeWhile (\<lambda>x. x \<noteq> c) s, drop 1 (dropWhile (\<lambda>x. x \<noteq> c) s))"

text \<open>\<open>getscheme\<close>: the letters before the first colon, and the rest.\<close>

fun scheme_from :: "string \<Rightarrow> string \<Rightarrow> error + (string \<times> string)" where
  "scheme_from seen [] = Inr ([], seen)"
| "scheme_from seen (c # s) =
     (let n = (of_char c :: nat) in
      if 65 \<le> n \<and> n \<le> 90 \<or> 97 \<le> n \<and> n \<le> 122 then scheme_from (seen @ [c]) s
      else if 48 \<le> n \<and> n \<le> 57 \<or> c \<in> set ''+-.'' then
        (if seen = [] then Inr ([], c # s) else scheme_from (seen @ [c]) s)
      else if c = CHR '':'' then
        (if seen = [] then Inl (Errorf ''missing protocol scheme'' []) else Inr (seen, s))
      else Inr ([], seen @ c # s))"

definition validOptionalPort :: "string \<Rightarrow> bool" where
  "validOptionalPort port \<longleftrightarrow> port = [] \<or> hd port = CHR '':'' \<and> list_all (\<lambda>c. digit_val c \<noteq> None) (tl port)"

text \<open>Before and after the last \<open>c\<close>, if there is one.\<close>

definition cut_last :: "string \<Rightarrow> char \<Rightarrow> (string \<times> string) option" where
  "cut_last s c = (if c \<in> set s then Some (rev (drop 1 (dropWhile (\<lambda>x. x \<noteq> c) (rev s))), rev (takeWhile (\<lambda>x. x \<noteq> c) (rev s)))
     else None)"

text \<open>The position of the first \<open>%25\<close>.\<close>

fun zone_index :: "string \<Rightarrow> nat option" where
  "zone_index [] = None"
| "zone_index (c # s) = (if take 3 (c # s) = ''%25'' then Some 0 else map_option Suc (zone_index s))"

definition first_error :: "error option list \<Rightarrow> error option" where
  "first_error es = (case dropWhile (\<lambda>e. e = None) es of [] \<Rightarrow> None | e # _ \<Rightarrow> e)"

definition parseHost :: "string \<Rightarrow> error option" where
  "parseHost host =
     (if HasPrefix host ''['' then (case cut_last host (CHR '']'') of
          None \<Rightarrow> Some (Errorf ''missing ']' in host'' [])
        | Some (inside, colonPort) \<Rightarrow>
            if \<not> validOptionalPort colonPort then Some (Errorf ''invalid port %q after host'' [ArgS colonPort])
            else (case zone_index inside of
                Some z \<Rightarrow> first_error [unescape_error encodeHost (take z inside), unescape_error encodeZone (drop z inside),
                  unescape_error encodeHost (CHR '']'' # colonPort)]
              | None \<Rightarrow> unescape_error encodeHost host))
      else unescape_error encodeHost host)"

definition parseAuthority :: "string \<Rightarrow> error option" where
  "parseAuthority authority = (case cut_last authority (CHR ''@'') of
      None \<Rightarrow> parseHost authority
    | Some (userinfo, host) \<Rightarrow> first_error [parseHost host,
        (if CHR '':'' \<notin> set userinfo then unescape_error encodeUserPassword userinfo
         else first_error [unescape_error encodeUserPassword (fst (cut userinfo (CHR '':''))),
                unescape_error encodeUserPassword (snd (cut userinfo (CHR '':'')))])])"

definition parse_error :: "string \<Rightarrow> error \<Rightarrow> error" where
  "parse_error rawurl err = Errorf ''parse %s: %v'' [ArgS rawurl, ArgE err]"

definition url_parse :: "string \<Rightarrow> error option" where
  "url_parse rawurl =
     (if rawurl = ''*'' then None
      else (case scheme_from [] rawurl of
          Inl err \<Rightarrow> Some (parse_error rawurl err)
        | Inr (scheme, r) \<Rightarrow>
            (let rest = fst (cut r (CHR ''?'')) in
             if \<not> HasPrefix rest ''/'' \<and> scheme \<noteq> [] then None
             else if HasPrefix rest ''//'' \<and> (scheme \<noteq> [] \<or> \<not> HasPrefix rest ''///'') then
               map_option (parse_error rawurl) (first_error
                 [parseAuthority (takeWhile (\<lambda>x. x \<noteq> CHR ''/'') (drop 2 rest)),
                  unescape_error encodePath (dropWhile (\<lambda>x. x \<noteq> CHR ''/'') (drop 2 rest))])
             else map_option (parse_error rawurl) (unescape_error encodePath rest))))"

definition url_Parse :: "string \<Rightarrow> error option" where
  "url_Parse rawurl = (case cut rawurl (CHR ''#'') of (u, frag) \<Rightarrow>
     first_error [url_parse u, map_option (parse_error rawurl) (unescape_error encodeFragment frag)])"

definition isToken :: "char \<Rightarrow> bool" where
  "isToken c \<longleftrightarrow> alnum c \<or> c \<in> set ([CHR 0x21, CHR 0x27, CHR 0x60] @ ''#$%&*+-.^_|~'')"

definition http_NewRequest :: "string \<Rightarrow> string \<Rightarrow> error option" where
  "http_NewRequest meth url =
     (if meth = [] \<or> list_all isToken meth then url_Parse url
      else Some (Errorf ''net/http: invalid method %q'' [ArgS meth]))"

section \<open>Ordinary URLs\<close>

lemma unescape_plain:
  assumes "CHR ''%'' \<notin> set s" and "mode \<in> {encodeHost, encodeZone} \<Longrightarrow> \<forall>c \<in> set s. \<not> shouldEscape c mode"
  shows "unescape_error mode s = None"
  using assms by (induction mode s rule: unescape_error.induct) auto

definition host_char :: "char \<Rightarrow> bool" where
  "host_char c \<longleftrightarrow> alnum c \<or> c \<in> set ''-._~:''"

definition letter :: "char \<Rightarrow> bool" where
  "letter c \<longleftrightarrow> (let n = (of_char c :: nat) in 65 \<le> n \<and> n \<le> 90 \<or> 97 \<le> n \<and> n \<le> 122)"

text \<open>\<open>scheme://host\<close>, the host with a port or without.\<close>

definition plain_base :: "string \<Rightarrow> bool" where
  "plain_base base \<longleftrightarrow> (\<exists>scheme host. base = scheme @ ''://'' @ host \<and> scheme \<noteq> [] \<and> list_all letter scheme \<and> list_all host_char host)"

lemma first_error_None [simp]: "first_error [] = None" "first_error (None # es) = first_error es" "first_error (Some e # es) = Some e"
  by (simp_all add: first_error_def)

lemma scheme_from_letters:
  assumes "list_all letter scheme" and "seen @ scheme \<noteq> []"
  shows "scheme_from seen (scheme @ CHR '':'' # r) = Inr (seen @ scheme, r)"
  using assms by (induction scheme arbitrary: seen) (auto simp: letter_def Let_def)

lemma host_char_facts:
  assumes "host_char c"
  shows "\<not> shouldEscape c encodeHost" "c \<notin> set ''#%/?@[''"
  using assms by (auto simp: host_char_def shouldEscape_def alnum_def Let_def)

lemma cut_append: "c \<notin> set s \<Longrightarrow> cut (s @ r) c = (s @ fst (cut r c), snd (cut r c))"
  by (induction s) (auto simp: cut_def)

lemma parseAuthority_plain:
  assumes "list_all host_char host"
  shows "parseAuthority host = None"
proof -
  have c: "\<not> shouldEscape c encodeHost" "c \<notin> set ''#%/?@[''" if "c \<in> set host" for c
    using host_char_facts [of c] assms that by (simp_all add: list_all_iff)
  have n: "CHR ''@'' \<notin> set host" "CHR ''%'' \<notin> set host" "CHR ''['' \<notin> set host" using c(2) by force+
  then have "\<not> HasPrefix host ''[''" by (auto simp: HasPrefix_iff)
  moreover have "unescape_error encodeHost host = None" using c(1) n(2) by (intro unescape_plain) auto
  ultimately show ?thesis using n(1) by (simp add: parseAuthority_def cut_last_def parseHost_def)
qed

text \<open>A request to such a URL is accepted, whatever the path is, unless the path has a per cent sign.\<close>

lemma NewRequest_accepts:
  assumes "plain_base base" and "path \<noteq> []" and "hd path = CHR ''/''" and "CHR ''%'' \<notin> set path" and "list_all isToken meth"
  shows "http_NewRequest meth (base @ path) = None"
proof -
  from assms(1) obtain scheme host where base: "base = scheme @ ''://'' @ host" and sch: "scheme \<noteq> []" "list_all letter scheme"
    and host: "list_all host_char host" unfolding plain_base_def by blast
  have l: "c \<notin> set ''#%/?@[:''" if "c \<in> set scheme" for c
    using sch(2) that by (auto simp: list_all_iff letter_def Let_def)
  have h: "c \<notin> set ''#%/?@[''" if "c \<in> set host" for c using host_char_facts(2) [of c] host that by (simp add: list_all_iff)
  obtain p where path: "path = CHR ''/'' # p" using assms(2,3) by (cases path) auto
  obtain p1 frag where p1: "cut p (CHR ''#'') = (p1, frag)" by fastforce
  then have sub: "set p1 \<subseteq> set p" "set frag \<subseteq> set p"
    by (auto simp: cut_def dest: set_takeWhileD in_set_dropD set_dropWhileD)
  let ?u = "base @ CHR ''/'' # p1"
  have "CHR ''#'' \<notin> set (base @ ''/'')" using l h by (auto simp: base)
  from cut_append [OF this, of p] p1 have cut: "cut (base @ path) (CHR ''#'') = (?u, frag)" by (simp add: path)
  have frag: "unescape_error encodeFragment frag = None" using sub(2) assms(4) by (intro unescape_plain) (auto simp: path)
  have "?u \<noteq> ''*''" using sch(1) by (cases scheme) (auto simp: base)
  moreover have "scheme_from [] ?u = Inr (scheme, ''//'' @ host @ CHR ''/'' # p1)"
    using scheme_from_letters [of scheme "[]" "''//'' @ host @ CHR ''/'' # p1"] sch by (simp add: base)
  moreover obtain p2 where "fst (cut (''//'' @ host @ CHR ''/'' # p1) (CHR ''?'')) = ''//'' @ host @ CHR ''/'' # p2" "set p2 \<subseteq> set p1"
  proof
    have "CHR ''?'' \<notin> set (''//'' @ host @ ''/'')" using h by auto
    from cut_append [OF this, of p1]
    show "fst (cut (''//'' @ host @ CHR ''/'' # p1) (CHR ''?'')) = ''//'' @ host @ CHR ''/'' # fst (cut p1 (CHR ''?''))" by simp
    show "set (fst (cut p1 (CHR ''?''))) \<subseteq> set p1" by (auto simp: cut_def dest: set_takeWhileD)
  qed
  moreover have "takeWhile (\<lambda>x. x \<noteq> CHR ''/'') (host @ CHR ''/'' # r) = host"
    "dropWhile (\<lambda>x. x \<noteq> CHR ''/'') (host @ CHR ''/'' # r) = CHR ''/'' # r" for r
    using h by (auto simp: takeWhile_append2 dropWhile_append2)
  moreover have "unescape_error encodePath (CHR ''/'' # r) = None" if "set r \<subseteq> set p1" for r
    using that sub(1) assms(4) by (intro unescape_plain) (auto simp: path)
  ultimately have "url_parse ?u = None"
    using sch(1) parseAuthority_plain [OF host] by (simp add: url_parse_def HasPrefix_def)
  with cut frag assms(5) show ?thesis by (simp add: http_NewRequest_def url_Parse_def)
qed

lemma plain_base_default: "plain_base ''https://cloud.weave.works''"
  unfolding plain_base_def
  by (intro exI [of _ "''https''"] exI [of _ "''cloud.weave.works''"]) (simp add: letter_def host_char_def alnum_def)

end
