(* ===== verification/Wcloud_Client.thy ===== *)
theory Wcloud_Client
  imports Tool_World Go_Json_Codec Go_Time_Parse Go_Url
begin

text \<open>
  The client of the deployment service (\<open>tools/cmd/wcloud/types.go\<close> and \<open>client.go\<close>): its data with
  their JSON form, and one operation per call of the service's interface.

  The service is the field \<open>http_Do\<close> of the environment; an answer has a status and a body, a
  stream of bytes that may end in an error. \<open>local_zone\<close> is the time zone that the machine is set to.
  A time is read from a JSON string after its escapes were resolved, while the package reads the literal, in
  which no service writes any.
\<close>

section \<open>Data\<close>

record Deployment =
  d_ID :: string
  d_CreatedAt :: Time
  d_ImageName :: string
  d_Version :: string
  d_Priority :: int
  d_State :: string
  d_TriggeringUser :: string
  d_IntendedServices :: "string list option"

record NotificationConfig =
  SlackWebhookURL :: string
  SlackUsername :: string
  MessageTemplate :: string
  ApplyMessageTemplate :: string

record Config =
  RepoURL :: string
  RepoBranch :: string
  RepoPath :: string
  RepoKey :: string
  KubeconfigPath :: string
  AutoApply :: bool
  Notifications :: "NotificationConfig list option"
  ConfigFileBlackList :: "string list option"
  CommitMessageTemplate :: string

record Client =
  token :: string
  baseURL :: string

record http_req =
  rq_Method :: string
  rq_URL :: string
  rq_Authorization :: string
  rq_Body :: "string option"

record http_res =
  rs_StatusCode :: int
  rs_Status :: string
  rs_Body :: stream

record 'w wcloud_env =
  os_Args :: "string list"
  os_Env :: "string list"
  http_Do :: "http_req \<Rightarrow> ('w, error + http_res) outside_call"
  now :: "('w, int) outside_call"
  user_Current :: "('w, error + string) outside_call"
  ReadFile :: "string \<Rightarrow> ('w, error + string) outside_call"
  yaml_Unmarshal :: "string \<Rightarrow> Config \<Rightarrow> error + Config"
  yaml_Marshal :: "Config \<Rightarrow> error + string"
  local_zone :: local_zone

section \<open>JSON\<close>

definition zero_notification :: NotificationConfig where
  "zero_notification = \<lparr>SlackWebhookURL = [], SlackUsername = [], MessageTemplate = [], ApplyMessageTemplate = []\<rparr>"

definition zero_config :: Config where
  "zero_config = \<lparr>RepoURL = [], RepoBranch = [], RepoPath = [], RepoKey = [], KubeconfigPath = [], AutoApply = False,
     Notifications = None, ConfigFileBlackList = None, CommitMessageTemplate = []\<rparr>"

definition encode_notification :: "NotificationConfig \<Rightarrow> json" where
  "encode_notification n = JObj
     [(''slack_webhook_url'', encode_string (SlackWebhookURL n)),
      (''slack_username'', encode_string (SlackUsername n)),
      (''message_template'', encode_string (MessageTemplate n)),
      (''apply_message_template'', encode_string (ApplyMessageTemplate n))]"

definition notification_fields :: "NotificationConfig fields" where
  "notification_fields =
     [(''slack_webhook_url'', field SlackWebhookURL (\<lambda>x n. n\<lparr>SlackWebhookURL := x\<rparr>) decode_string),
      (''slack_username'', field SlackUsername (\<lambda>x n. n\<lparr>SlackUsername := x\<rparr>) decode_string),
      (''message_template'', field MessageTemplate (\<lambda>x n. n\<lparr>MessageTemplate := x\<rparr>) decode_string),
      (''apply_message_template'', field ApplyMessageTemplate (\<lambda>x n. n\<lparr>ApplyMessageTemplate := x\<rparr>) decode_string)]"

definition encode_config :: "Config \<Rightarrow> json" where
  "encode_config c = JObj
     [(''repo_url'', encode_string (RepoURL c)),
      (''repo_branch'', encode_string (RepoBranch c)),
      (''repo_path'', encode_string (RepoPath c)),
      (''repo_key'', encode_string (RepoKey c)),
      (''kubeconfig_path'', encode_string (KubeconfigPath c)),
      (''auto_apply'', encode_bool (AutoApply c)),
      (''notifications'', encode_slice encode_notification (Notifications c)),
      (''config_file_black_list'', encode_slice encode_string (ConfigFileBlackList c)),
      (''commit_message_template'', encode_string (CommitMessageTemplate c))]"

definition config_fields :: "Config fields" where
  "config_fields =
     [(''repo_url'', field RepoURL (\<lambda>x c. c\<lparr>RepoURL := x\<rparr>) decode_string),
      (''repo_branch'', field RepoBranch (\<lambda>x c. c\<lparr>RepoBranch := x\<rparr>) decode_string),
      (''repo_path'', field RepoPath (\<lambda>x c. c\<lparr>RepoPath := x\<rparr>) decode_string),
      (''repo_key'', field RepoKey (\<lambda>x c. c\<lparr>RepoKey := x\<rparr>) decode_string),
      (''kubeconfig_path'', field KubeconfigPath (\<lambda>x c. c\<lparr>KubeconfigPath := x\<rparr>) decode_string),
      (''auto_apply'', field AutoApply (\<lambda>x c. c\<lparr>AutoApply := x\<rparr>) decode_bool),
      (''notifications'', field Notifications (\<lambda>x c. c\<lparr>Notifications := x\<rparr>)
         (decode_slice (decode_struct notification_fields) zero_notification)),
      (''config_file_black_list'', field ConfigFileBlackList (\<lambda>x c. c\<lparr>ConfigFileBlackList := x\<rparr>)
         (decode_slice decode_string [])),
      (''commit_message_template'', field CommitMessageTemplate (\<lambda>x c. c\<lparr>CommitMessageTemplate := x\<rparr>) decode_string)]"

definition encode_deployment :: "local_zone \<Rightarrow> Deployment \<Rightarrow> error + json" where
  "encode_deployment Z d = map_sum id (\<lambda>created. JObj
     [(''id'', encode_string (d_ID d)),
      (''created_at'', JStr created),
      (''image_name'', encode_string (d_ImageName d)),
      (''version'', encode_string (d_Version d)),
      (''priority'', encode_int (d_Priority d)),
      (''status'', encode_string (d_State d)),
      (''triggering_user'', encode_string (d_TriggeringUser d)),
      (''intended_services'', encode_slice encode_string (d_IntendedServices d))])
     (MarshalJSON Z (d_CreatedAt d))"

text \<open>\<open>Time.UnmarshalJSON\<close>; null is no time for it before Go 1.8.\<close>

fun decode_time :: "local_zone \<Rightarrow> Time decoder" where
  "decode_time Z (JStr x) old = (case Parse_RFC3339 Z x of None \<Rightarrow> Inl unmarshal_error | Some t \<Rightarrow> Inr t)"
| "decode_time Z _ old = Inl unmarshal_error"

definition deployment_fields :: "local_zone \<Rightarrow> Deployment fields" where
  "deployment_fields Z =
     [(''id'', field d_ID (\<lambda>x d. d\<lparr>d_ID := x\<rparr>) decode_string),
      (''created_at'', field d_CreatedAt (\<lambda>x d. d\<lparr>d_CreatedAt := x\<rparr>) (decode_time Z)),
      (''image_name'', field d_ImageName (\<lambda>x d. d\<lparr>d_ImageName := x\<rparr>) decode_string),
      (''version'', field d_Version (\<lambda>x d. d\<lparr>d_Version := x\<rparr>) decode_string),
      (''priority'', field d_Priority (\<lambda>x d. d\<lparr>d_Priority := x\<rparr>) decode_int),
      (''status'', field d_State (\<lambda>x d. d\<lparr>d_State := x\<rparr>) decode_string),
      (''triggering_user'', field d_TriggeringUser (\<lambda>x d. d\<lparr>d_TriggeringUser := x\<rparr>) decode_string),
      (''intended_services'', field d_IntendedServices (\<lambda>x d. d\<lparr>d_IntendedServices := x\<rparr>) (decode_slice decode_string []))]"

definition zero_deployment :: Deployment where
  "zero_deployment = \<lparr>d_ID = [], d_CreatedAt = zero_time, d_ImageName = [], d_Version = [], d_Priority = 0,
     d_State = [], d_TriggeringUser = [], d_IntendedServices = None\<rparr>"

text \<open>The anonymous struct of \<open>GetDeployments\<close> has one field.\<close>

definition deployments_fields :: "local_zone \<Rightarrow> Deployment list option fields" where
  "deployments_fields Z =
     [(''deployments'', decode_slice (decode_struct (deployment_fields Z)) zero_deployment)]"

section \<open>The operations\<close>

definition NewClient :: "string \<Rightarrow> string \<Rightarrow> Client" where
  "NewClient tok base = \<lparr>token = tok, baseURL = base\<rparr>"

definition newRequest :: "Client \<Rightarrow> string \<Rightarrow> string \<Rightarrow> string option \<Rightarrow> error + http_req" where
  "newRequest c meth path body = (case http_NewRequest meth (baseURL c @ path) of
      Some err \<Rightarrow> Inl err
    | None \<Rightarrow> Inr \<lparr>rq_Method = meth, rq_URL = baseURL c @ path,
        rq_Authorization = ''Scope-Probe token='' @ token c, rq_Body = body\<rparr>)"

definition ReadAll :: "stream \<Rightarrow> error + string" where
  "ReadAll b = (case snd b of Some err \<Rightarrow> Inl err | None \<Rightarrow> Inr (fst b))"

definition status_error :: "http_res \<Rightarrow> error" where
  "status_error res = Errorf ''Error making request: %s'' [ArgS (rs_Status res)]"

definition Deploy :: "'w wcloud_env \<Rightarrow> Client \<Rightarrow> Deployment \<Rightarrow> (('w, 'm, 'z) tool_scheme, error option) go" where
  "Deploy E c deployment = (case encode_deployment (local_zone E) deployment of
      Inl err \<Rightarrow> go_return (Some err)
    | Inr v \<Rightarrow> (case newRequest c ''POST'' ''/api/deploy/deploy'' (Some (json_line v)) of
        Inl err \<Rightarrow> go_return (Some err)
      | Inr req \<Rightarrow> go_bind (ask (http_Do E req)) (\<lambda>r. case r of
          Inl err \<Rightarrow> go_return (Some err)
        | Inr res \<Rightarrow> if rs_StatusCode res \<noteq> 204 then go_return (Some (status_error res)) else go_return None)))"

definition GetDeployments :: "'w wcloud_env \<Rightarrow> Client \<Rightarrow> int \<Rightarrow> int \<Rightarrow> (('w, 'm, 'z) tool_scheme, error + Deployment list) go" where
  "GetDeployments E c from through =
     (case newRequest c ''GET'' (''/api/deploy/deploy?from='' @ Itoa from @ ''&through='' @ Itoa through) None of
        Inl err \<Rightarrow> go_return (Inl err)
      | Inr req \<Rightarrow> go_bind (ask (http_Do E req)) (\<lambda>r. case r of
          Inl err \<Rightarrow> go_return (Inl err)
        | Inr res \<Rightarrow>
            if rs_StatusCode res \<noteq> 200 then go_return (Inl (status_error res))
            else (case json_Decode (decode_struct (deployments_fields (local_zone E))) (rs_Body res) None of
                Inl err \<Rightarrow> go_return (Inl err)
              | Inr ds \<Rightarrow> go_return (Inr (case ds of None \<Rightarrow> [] | Some xs \<Rightarrow> xs)))))"

definition GetEvents :: "'w wcloud_env \<Rightarrow> Client \<Rightarrow> int \<Rightarrow> int \<Rightarrow> (('w, 'm, 'z) tool_scheme, error + string) go" where
  "GetEvents E c from through =
     (case newRequest c ''GET'' (''/api/deploy/event?from='' @ Itoa from @ ''&through='' @ Itoa through) None of
        Inl err \<Rightarrow> go_return (Inl err)
      | Inr req \<Rightarrow> go_bind (ask (http_Do E req)) (\<lambda>r. case r of
          Inl err \<Rightarrow> go_return (Inl err)
        | Inr res \<Rightarrow>
            if rs_StatusCode res \<noteq> 200 then go_return (Inl (status_error res)) else go_return (ReadAll (rs_Body res))))"

definition GetConfig :: "'w wcloud_env \<Rightarrow> Client \<Rightarrow> (('w, 'm, 'z) tool_scheme, error + Config) go" where
  "GetConfig E c =
     (case newRequest c ''GET'' ''/api/config/deploy'' None of
        Inl err \<Rightarrow> go_return (Inl err)
      | Inr req \<Rightarrow> go_bind (ask (http_Do E req)) (\<lambda>r. case r of
          Inl err \<Rightarrow> go_return (Inl err)
        | Inr res \<Rightarrow>
            if rs_StatusCode res = 404 then go_return (Inl (Errorf ''No configuration uploaded yet.'' []))
            else if rs_StatusCode res \<noteq> 200 then go_return (Inl (status_error res))
            else go_return (json_Decode (decode_struct config_fields) (rs_Body res) zero_config)))"

definition SetConfig :: "'w wcloud_env \<Rightarrow> Client \<Rightarrow> Config \<Rightarrow> (('w, 'm, 'z) tool_scheme, error option) go" where
  "SetConfig E c config =
     (case newRequest c ''POST'' ''/api/config/deploy'' (Some (json_line (encode_config config))) of
        Inl err \<Rightarrow> go_return (Some err)
      | Inr req \<Rightarrow> go_bind (ask (http_Do E req)) (\<lambda>r. case r of
          Inl err \<Rightarrow> go_return (Some err)
        | Inr res \<Rightarrow> if rs_StatusCode res \<noteq> 204 then go_return (Some (status_error res)) else go_return None))"

definition GetLogs :: "'w wcloud_env \<Rightarrow> Client \<Rightarrow> string \<Rightarrow> (('w, 'm, 'z) tool_scheme, error + string) go" where
  "GetLogs E c deployID =
     (case newRequest c ''GET'' (''/api/deploy/deploy/'' @ deployID @ ''/log'') None of
        Inl err \<Rightarrow> go_return (Inl err)
      | Inr req \<Rightarrow> go_bind (ask (http_Do E req)) (\<lambda>r. case r of
          Inl err \<Rightarrow> go_return (Inl err)
        | Inr res \<Rightarrow>
            if rs_StatusCode res \<noteq> 200 then go_return (Inl (status_error res)) else go_return (ReadAll (rs_Body res))))"

text \<open>The requests to a service with an ordinary base URL are accepted.\<close>

lemma request_accepted:
  assumes "plain_base base" and "meth \<in> {''GET'', ''POST''}" and "path \<noteq> []" and "hd path = CHR ''/''" and "CHR ''%'' \<notin> set path"
  shows "http_NewRequest meth (base @ path) = None"
  using assms(2) by (intro NewRequest_accepts [OF assms(1,3,4,5)]) (auto simp: isToken_def alnum_def)

lemma percent_Itoa: "CHR ''%'' \<notin> set (Itoa i)"
proof
  assume "CHR ''%'' \<in> set (Itoa i)"
  then obtain d where "d < 10" "CHR ''%'' = digit_char d" by (auto dest: Itoa_chars)
  then have "(of_char (CHR ''%'') :: nat) = 48 + d" by (simp only: of_char_digit)
  with \<open>d < 10\<close> show False by simp
qed

section \<open>Encoding and decoding a configuration\<close>

definition valid_notification :: "NotificationConfig \<Rightarrow> NotificationConfig" where
  "valid_notification n = \<lparr>SlackWebhookURL = to_valid (SlackWebhookURL n), SlackUsername = to_valid (SlackUsername n),
     MessageTemplate = to_valid (MessageTemplate n), ApplyMessageTemplate = to_valid (ApplyMessageTemplate n)\<rparr>"

definition valid_config :: "Config \<Rightarrow> Config" where
  "valid_config c = \<lparr>RepoURL = to_valid (RepoURL c), RepoBranch = to_valid (RepoBranch c), RepoPath = to_valid (RepoPath c),
     RepoKey = to_valid (RepoKey c), KubeconfigPath = to_valid (KubeconfigPath c), AutoApply = AutoApply c,
     Notifications = map_option (map valid_notification) (Notifications c),
     ConfigFileBlackList = map_option (map to_valid) (ConfigFileBlackList c),
     CommitMessageTemplate = to_valid (CommitMessageTemplate c)\<rparr>"

lemmas config_codec = encode_notification_def notification_fields_def valid_notification_def zero_notification_def
  encode_config_def config_fields_def valid_config_def zero_config_def find_field_def field_def to_valid_ascii

interpretation jn: json_codec encode_notification "decode_struct notification_fields" valid_notification zero_notification
proof
  fix n
  show "printable (encode_notification n)" by (simp add: encode_notification_def js.printable_enc)
  show "decode_struct notification_fields (valid_json (encode_notification n)) zero_notification = Inr (valid_notification n)"
    by (simp add: config_codec js.dec_enc)
  show "valid_json (encode_notification (valid_notification n)) = valid_json (encode_notification n)"
    by (simp add: config_codec js.enc_norm)
qed

interpretation jns: json_codec "encode_slice encode_notification"
  "decode_slice (decode_struct notification_fields) zero_notification" "map_option (map valid_notification)" None
  by (rule jn.slice_codec)

interpretation jc: json_codec encode_config "decode_struct config_fields" valid_config zero_config
proof
  fix c
  show "printable (encode_config c)"
    by (simp add: encode_config_def js.printable_enc jb.printable_enc jns.printable_enc jss.printable_enc)
  show "decode_struct config_fields (valid_json (encode_config c)) zero_config = Inr (valid_config c)"
    by (simp add: encode_config_def config_fields_def find_field_def field_def zero_config_def valid_config_def
        to_valid_ascii js.dec_enc jb.dec_enc jns.dec_enc jss.dec_enc)
  show "valid_json (encode_config (valid_config c)) = valid_json (encode_config c)"
    by (simp add: encode_config_def valid_config_def js.enc_norm jns.enc_norm jss.enc_norm)
qed

definition config_request :: "Client \<Rightarrow> string \<Rightarrow> string option \<Rightarrow> http_req" where
  "config_request c meth body = \<lparr>rq_Method = meth, rq_URL = baseURL c @ ''/api/config/deploy'',
     rq_Authorization = ''Scope-Probe token='' @ token c, rq_Body = body\<rparr>"

text \<open>A service that keeps the configuration it is sent: an upload is answered with 204, and a
  request for it after that with 200 and the same bytes.\<close>

definition keeps_config :: "'w wcloud_env \<Rightarrow> Client \<Rightarrow> bool" where
  "keeps_config E c \<longleftrightarrow> (\<forall>w body. \<exists>up w' down w''.
     http_Do E (config_request c ''POST'' (Some body)) w = (Inr up, w') \<and> rs_StatusCode up = 204
     \<and> http_Do E (config_request c ''GET'' None) w' = (Inr down, w'') \<and> rs_StatusCode down = 200
     \<and> rs_Body down = (body, None))"

text \<open>
  C35: a configuration that was uploaded comes back. With an ordinary base URL and a service that keeps what it is sent,
  \<open>SetConfig\<close> succeeds and \<open>GetConfig\<close> after it returns the same configuration, except that bytes of
  its strings that are not valid UTF-8 have been replaced; nil slices stay nil and empty ones empty.
\<close>

theorem config_roundtrip:
  assumes "plain_base (baseURL c)" and "keeps_config E c"
  shows "\<exists>s' s''. SetConfig E c config s = (Returns None, s')
    \<and> GetConfig E c s' = (Returns (Inr (valid_config config)), s'')"
proof -
  let ?b = "json_line (encode_config config)"
  from assms(2) obtain up w' down w'' where
    "http_Do E (config_request c ''POST'' (Some ?b)) (outside s) = (Inr up, w')" "rs_StatusCode up = 204"
    "http_Do E (config_request c ''GET'' None) w' = (Inr down, w'')" "rs_StatusCode down = 200" "rs_Body down = (?b, None)"
    unfolding keeps_config_def by meson
  moreover have "http_NewRequest meth (baseURL c @ ''/api/config/deploy'') = None" if "meth \<in> {''GET'', ''POST''}" for meth
    using that by (intro request_accepted [OF assms(1)]) simp_all
  ultimately show ?thesis
    by (simp add: SetConfig_def GetConfig_def newRequest_def config_request_def go_run jc.decode_print_line)
qed

definition demo_service :: "http_req \<Rightarrow> (string, error + http_res) outside_call" where
  "demo_service req w =
     (if rq_Method req = ''POST''
      then (Inr \<lparr>rs_StatusCode = 204, rs_Status = ''204 No Content'', rs_Body = ([], None)\<rparr>, the (rq_Body req))
      else (Inr \<lparr>rs_StatusCode = 200, rs_Status = ''200 OK'', rs_Body = (w, None)\<rparr>, w))"

definition demo_wcloud :: "string list \<Rightarrow> string wcloud_env" where
  "demo_wcloud args = \<lparr>os_Args = args, os_Env = [''SERVICE_TOKEN=abc''], http_Do = demo_service,
     now = (\<lambda>w. (1500000000000000000, w)), user_Current = (\<lambda>w. (Inr ''jane'', w)),
     ReadFile = (\<lambda>_ w. (Inr ''x'', w)),
     yaml_Unmarshal = (\<lambda>_ c. Inr c), yaml_Marshal = (\<lambda>_. Inr ''y''), local_zone = (\<lambda>_. (''CET'', 3600))\<rparr>"

lemma demo_base: "plain_base ''http://x''"
  unfolding plain_base_def by (intro exI [of _ "''http''"] exI [of _ "''x''"]) (simp add: letter_def host_char_def alnum_def)

theorem config_roundtrip_witness:
  "\<exists>s' s''. SetConfig (demo_wcloud []) (NewClient ''abc'' ''http://x'') zero_config \<lparr>outside = [], stdout = []\<rparr> = (Returns None, s')
    \<and> GetConfig (demo_wcloud []) (NewClient ''abc'' ''http://x'') s' = (Returns (Inr (valid_config zero_config)), s'')"
proof (rule config_roundtrip)
  show "keeps_config (demo_wcloud []) (NewClient ''abc'' ''http://x'')"
    by (simp add: keeps_config_def demo_wcloud_def demo_service_def config_request_def)
qed (simp add: NewClient_def demo_base)

section \<open>The operations and the service\<close>

text \<open>One request with the token in its header, its answer read if the status is the expected one.\<close>

definition service :: "'w wcloud_env \<Rightarrow> Client \<Rightarrow> string \<Rightarrow> string \<Rightarrow> string option \<Rightarrow>
    (http_res \<Rightarrow> error + 'a) \<Rightarrow> ('w, 'm, 'z) tool_scheme \<Rightarrow> (error + 'a) outcome \<times> ('w, 'm, 'z) tool_scheme" where
  "service E c meth path body answer s =
     (case http_NewRequest meth (baseURL c @ path) of
        Some err \<Rightarrow> (Returns (Inl err), s)
      | None \<Rightarrow> (case http_Do E \<lparr>rq_Method = meth, rq_URL = baseURL c @ path,
            rq_Authorization = ''Scope-Probe token='' @ token c, rq_Body = body\<rparr> (outside s) of
          (Inl err, w) \<Rightarrow> (Returns (Inl err), s\<lparr>outside := w\<rparr>)
        | (Inr res, w) \<Rightarrow> (Returns (answer res), s\<lparr>outside := w\<rparr>)))"

definition expect :: "int \<Rightarrow> (http_res \<Rightarrow> error + 'a) \<Rightarrow> http_res \<Rightarrow> error + 'a" where
  "expect code read res = (if rs_StatusCode res = code then read res else Inl (status_error res))"

definition decoded :: "'a decoder \<Rightarrow> 'a \<Rightarrow> http_res \<Rightarrow> error + 'a" where
  "decoded dec zero res = json_Decode dec (rs_Body res) zero"

text \<open>An operation without a result returns only the error.\<close>

definition only_error :: "(error + unit) outcome \<times> 's \<Rightarrow> error option outcome \<times> 's" where
  "only_error r = (case r of
      (Returns (Inl err), s) \<Rightarrow> (Returns (Some err), s)
    | (Returns (Inr u), s) \<Rightarrow> (Returns None, s)
    | (Panics p, s) \<Rightarrow> (Panics p, s)
    | (Exits n, s) \<Rightarrow> (Exits n, s)
    | (Blocks, s) \<Rightarrow> (Blocks, s))"

definition ok :: "http_res \<Rightarrow> error + unit" where
  "ok res = Inr ()"

lemma service_monadic:
  "service E c meth path body answer s = (case newRequest c meth path body of
      Inl err \<Rightarrow> go_return (Inl err)
    | Inr req \<Rightarrow> go_bind (ask (http_Do E req)) (\<lambda>r. go_return (case r of Inl err \<Rightarrow> Inl err | Inr res \<Rightarrow> answer res))) s"
  by (simp add: service_def newRequest_def ask_def go_bind_def go_return_def split: option.split sum.split prod.split)

lemma get_service:
  assumes "\<And>err. f (Inl err) = go_return (Inl err)" and "\<And>res. f (Inr res) = go_return (answer res)"
  shows "(case newRequest c meth path body of Inl err \<Rightarrow> go_return (Inl err) | Inr req \<Rightarrow> go_bind (ask (http_Do E req)) f) s
    = service E c meth path body answer s"
proof -
  have "f = (\<lambda>r. go_return (case r of Inl err \<Rightarrow> Inl err | Inr res \<Rightarrow> answer res))"
    by (rule ext) (simp add: assms split: sum.split)
  then show ?thesis by (simp only: service_monadic)
qed

lemma post_service:
  assumes "\<And>err. f (Inl err) = go_return (Some err)"
    and "\<And>res. f (Inr res) = go_return (if rs_StatusCode res \<noteq> 204 then Some (status_error res) else None)"
  shows "(case newRequest c meth path body of Inl err \<Rightarrow> go_return (Some err) | Inr req \<Rightarrow> go_bind (ask (http_Do E req)) f) s
    = only_error (service E c meth path body (expect 204 ok) s)"
proof (cases "newRequest c meth path body")
  case (Inl err)
  then show ?thesis by (simp add: service_monadic only_error_def go_run)
next
  case (Inr req)
  then show ?thesis
    by (cases "fst (http_Do E req (outside s))")
      (simp_all add: service_monadic only_error_def go_run assms expect_def ok_def)
qed

lemma get_operations:
  "GetConfig E c s = service E c ''GET'' ''/api/config/deploy'' None
     (\<lambda>res. if rs_StatusCode res = 404 then Inl (Errorf ''No configuration uploaded yet.'' [])
        else expect 200 (decoded (decode_struct config_fields) zero_config) res) s"
  "GetDeployments E c from through s =
     service E c ''GET'' (''/api/deploy/deploy?from='' @ Itoa from @ ''&through='' @ Itoa through) None
       (expect 200 (\<lambda>res. map_sum id (\<lambda>ds. case ds of None \<Rightarrow> [] | Some xs \<Rightarrow> xs)
          (decoded (decode_struct (deployments_fields (local_zone E))) None res))) s"
  "GetEvents E c from through s =
     service E c ''GET'' (''/api/deploy/event?from='' @ Itoa from @ ''&through='' @ Itoa through) None (expect 200 (ReadAll \<circ> rs_Body)) s"
  "GetLogs E c i s = service E c ''GET'' (''/api/deploy/deploy/'' @ i @ ''/log'') None (expect 200 (ReadAll \<circ> rs_Body)) s"
  unfolding GetConfig_def GetDeployments_def GetEvents_def GetLogs_def
  by (rule get_service; simp add: expect_def decoded_def split: sum.split)+

lemma post_operations:
  "Deploy E c d s = (case encode_deployment (local_zone E) d of
      Inl err \<Rightarrow> (Returns (Some err), s)
    | Inr v \<Rightarrow> only_error (service E c ''POST'' ''/api/deploy/deploy'' (Some (json_line v)) (expect 204 ok) s))"
  "SetConfig E c config s =
     only_error (service E c ''POST'' ''/api/config/deploy'' (Some (json_line (encode_config config))) (expect 204 ok) s)"
proof -
  show "SetConfig E c config s =
     only_error (service E c ''POST'' ''/api/config/deploy'' (Some (json_line (encode_config config))) (expect 204 ok) s)"
    unfolding SetConfig_def by (rule post_service) simp_all
  show "Deploy E c d s = (case encode_deployment (local_zone E) d of
      Inl err \<Rightarrow> (Returns (Some err), s)
    | Inr v \<Rightarrow> only_error (service E c ''POST'' ''/api/deploy/deploy'' (Some (json_line v)) (expect 204 ok) s))"
  proof (cases "encode_deployment (local_zone E) d")
    case (Inr v)
    have "Deploy E c d s = (case newRequest c ''POST'' ''/api/deploy/deploy'' (Some (json_line v)) of
        Inl err \<Rightarrow> go_return (Some err)
      | Inr req \<Rightarrow> go_bind (ask (http_Do E req)) (\<lambda>r. case r of
          Inl err \<Rightarrow> go_return (Some err)
        | Inr res \<Rightarrow> if rs_StatusCode res \<noteq> 204 then go_return (Some (status_error res)) else go_return None)) s"
      by (simp add: Deploy_def Inr)
    also have "\<dots> = only_error (service E c ''POST'' ''/api/deploy/deploy'' (Some (json_line v)) (expect 204 ok) s)"
      by (rule post_service) simp_all
    finally show ?thesis using Inr by simp
  qed (simp add: Deploy_def go_run)
qed

text \<open>
  Every operation of the client is one request, with the token, whose answer is read only if
  it has the expected status: 204 for the two that post, 200 for those that get; \<open>GetConfig\<close> has an
  error of its own for 404. An error of the encoder, of \<open>http.NewRequest\<close>, of the connection, of the
  status or of reading the body is returned, the first of them; nothing else of the process changes.
\<close>

lemma client_operations:
  "Deploy E c d s = (case encode_deployment (local_zone E) d of
      Inl err \<Rightarrow> (Returns (Some err), s)
    | Inr v \<Rightarrow> only_error (service E c ''POST'' ''/api/deploy/deploy'' (Some (json_line v)) (expect 204 ok) s))
   \<and> SetConfig E c config s =
        only_error (service E c ''POST'' ''/api/config/deploy'' (Some (json_line (encode_config config))) (expect 204 ok) s)
   \<and> GetConfig E c s = service E c ''GET'' ''/api/config/deploy'' None
        (\<lambda>res. if rs_StatusCode res = 404 then Inl (Errorf ''No configuration uploaded yet.'' [])
           else expect 200 (decoded (decode_struct config_fields) zero_config) res) s
   \<and> GetDeployments E c from through s =
        service E c ''GET'' (''/api/deploy/deploy?from='' @ Itoa from @ ''&through='' @ Itoa through) None
          (expect 200 (\<lambda>res. map_sum id (\<lambda>ds. case ds of None \<Rightarrow> [] | Some xs \<Rightarrow> xs)
             (decoded (decode_struct (deployments_fields (local_zone E))) None res))) s
   \<and> GetEvents E c from through s =
        service E c ''GET'' (''/api/deploy/event?from='' @ Itoa from @ ''&through='' @ Itoa through) None (expect 200 (ReadAll \<circ> rs_Body)) s
   \<and> GetLogs E c i s = service E c ''GET'' (''/api/deploy/deploy/'' @ i @ ''/log'') None (expect 200 (ReadAll \<circ> rs_Body)) s"
  by (intro conjI post_operations get_operations)

end
