(* ===== verification/Wcloud.thy ===== *)
theory Wcloud
  imports Wcloud_Client
begin

text \<open>
  The command line tool of the deployment service (\<open>tools/cmd/wcloud/cli.go\<close>). Package \<open>flag\<close> is modelled
  for flags that take a value, which are the only ones in use; what it prints to the standard error
  is left out. The table of \<open>list\<close>, drawn by a package that is not part of the repository, is the
  message with its rows; YAML, user names and the clock are fields of the environment. The clock is
  in nanoseconds since the epoch.
\<close>

section \<open>Flags\<close>

type_synonym 'f setter = "string \<Rightarrow> 'f \<Rightarrow> error + 'f"

definition flag_error :: error where
  "flag_error = ExtErr ''flag: cannot parse''"

text \<open>\<open>FlagSet.Parse\<close>: a flag is \<open>-name\<close> or \<open>--name\<close>, with \<open>=value\<close> or the next argument as its value;
  \<open>--\<close> and the first argument that is not a flag end the flags. The result are the values and the
  arguments left.\<close>

fun parse_flags :: "(string \<times> 'f setter) list \<Rightarrow> string list \<Rightarrow> 'f \<Rightarrow> error + ('f \<times> string list)" where
  "parse_flags defs [] f = Inr (f, [])"
| "parse_flags defs (s # args) f =
     (if length s < 2 \<or> hd s \<noteq> CHR ''-'' then Inr (f, s # args)
      else if s = ''--'' then Inr (f, args)
      else
        (let name = (if s ! 1 = CHR ''-'' then drop 2 s else drop 1 s) in
         if name = [] \<or> hd name = CHR ''-'' \<or> hd name = CHR ''='' then Inl flag_error
         else (case map_of defs (takeWhile (\<lambda>x. x \<noteq> CHR ''='') name) of
             None \<Rightarrow> Inl flag_error
           | Some put \<Rightarrow>
               (case dropWhile (\<lambda>x. x \<noteq> CHR ''='') name of
                  _ # v \<Rightarrow> (case put v f of Inl err \<Rightarrow> Inl flag_error | Inr f' \<Rightarrow> parse_flags defs args f')
                | [] \<Rightarrow> (case args of
                    [] \<Rightarrow> Inl flag_error
                  | v # args' \<Rightarrow> (case put v f of Inl err \<Rightarrow> Inl flag_error | Inr f' \<Rightarrow> parse_flags defs args' f'))))))"

section \<open>The commands\<close>

datatype cli_message =
    Usage
  | ErrorLine error
  | ReadingConfig error
  | Table "string list" "string list list"
  | Events string
  | Text string

type_synonym 'w cli = "('w, cli_message) tool"

definition usage :: "('w cli, unit) go" where
  "usage = print Usage"

text \<open>\<open>fmt.Println(err.Error()); os.Exit(1)\<close>\<close>

definition fail :: "error \<Rightarrow> ('w cli, unit) go" where
  "fail err = go_seq (print (ErrorLine err)) (go_exit 1)"

definition env :: "'w wcloud_env \<Rightarrow> string \<Rightarrow> string \<Rightarrow> string" where
  "env E key def = (case LookupEnv (os_Env E) key of Some val \<Rightarrow> val | None \<Rightarrow> def)"

record deploy_flags =
  username :: string
  services :: "string list option"

text \<open>\<open>ArrayFlags.Set\<close> appends; a nil slice becomes one of length 1.\<close>

definition ArrayFlags_Set :: "string \<Rightarrow> string list option \<Rightarrow> string list option" where
  "ArrayFlags_Set value a = Some ((case a of None \<Rightarrow> [] | Some xs \<Rightarrow> xs) @ [value])"

definition ArrayFlags_String :: "string list option \<Rightarrow> string" where
  "ArrayFlags_String a = Join (case a of None \<Rightarrow> [] | Some xs \<Rightarrow> xs) '',''"

definition deploy_flag_set :: "(string \<times> deploy_flags setter) list" where
  "deploy_flag_set =
     [(''u'', \<lambda>v f. Inr (f\<lparr>username := v\<rparr>)),
      (''service'', \<lambda>v f. Inr (f\<lparr>services := ArrayFlags_Set v (services f)\<rparr>))]"

text \<open>\<open>strings.SplitN(s, ":", 2)\<close>: at the first colon.\<close>

definition SplitN2 :: "string \<Rightarrow> char \<Rightarrow> string list" where
  "SplitN2 s c = (case dropWhile (\<lambda>x. x \<noteq> c) s of [] \<Rightarrow> [s] | _ # rest \<Rightarrow> [takeWhile (\<lambda>x. x \<noteq> c) s, rest])"

definition deploy_user :: "'w wcloud_env \<Rightarrow> string \<Rightarrow> ('w cli, error + string) go" where
  "deploy_user E name = (if name = [] then ask (user_Current E) else go_return (Inr name))"

definition deploy :: "'w wcloud_env \<Rightarrow> Client \<Rightarrow> string list \<Rightarrow> ('w cli, unit) go" where
  "deploy E c args = (case parse_flags deploy_flag_set args \<lparr>username = [], services = None\<rparr> of
      Inl err \<Rightarrow> usage
    | Inr (fl, rest) \<Rightarrow>
        if length rest \<noteq> 1 then usage
        else (let parts = SplitN2 (rest ! 0) (CHR '':'') in
          if length parts < 2 then usage
          else go_bind (deploy_user E (username fl)) (\<lambda>u. case u of
              Inl err \<Rightarrow> fail err
            | Inr name \<Rightarrow> go_bind (Deploy E c (zero_deployment\<lparr>d_ImageName := parts ! 0, d_Version := parts ! 1,
                  d_TriggeringUser := name, d_IntendedServices := services fl\<rparr>)) (\<lambda>r. case r of
                Some err \<Rightarrow> fail err
              | None \<Rightarrow> go_return ()))))"

text \<open>The flag \<open>since\<close> of \<open>list\<close> and \<open>events\<close>; the default is seven days.\<close>

definition since_flag_set :: "(string \<times> int setter) list" where
  "since_flag_set = [(''since'', \<lambda>v f. ParseDuration v)]"

definition default_since :: int where
  "default_since = 7 * 24 * 3600 * 1000000000"

definition Unix :: "int \<Rightarrow> int" where
  "Unix t = t div 1000000000"

definition list :: "'w wcloud_env \<Rightarrow> Client \<Rightarrow> string list \<Rightarrow> ('w cli, unit) go" where
  "list E c args = (case parse_flags since_flag_set args default_since of
      Inl err \<Rightarrow> usage
    | Inr (since, rest) \<Rightarrow> go_bind (ask (now E)) (\<lambda>through.
        go_bind (GetDeployments E c (Unix (through - since)) (Unix through)) (\<lambda>r. case r of
            Inl err \<Rightarrow> fail err
          | Inr deployments \<Rightarrow> print (Table [''Created'', ''ID'', ''Image'', ''Version'', ''State'']
              (map (\<lambda>d. [Format_RFC822 (local_zone E) (d_CreatedAt d), d_ID d, d_ImageName d, d_Version d, d_State d]) deployments)))))"

definition events :: "'w wcloud_env \<Rightarrow> Client \<Rightarrow> string list \<Rightarrow> ('w cli, unit) go" where
  "events E c args = (case parse_flags since_flag_set args default_since of
      Inl err \<Rightarrow> usage
    | Inr (since, rest) \<Rightarrow> go_bind (ask (now E)) (\<lambda>through.
        go_bind (GetEvents E c (Unix (through - since)) (Unix through)) (\<lambda>r. case r of
            Inl err \<Rightarrow> fail err
          | Inr bytes \<Rightarrow> print (Events bytes))))"

text \<open>\<open>filepath.Ext\<close>: from the last dot of the last element of the path on.\<close>

definition Ext :: "string \<Rightarrow> string" where
  "Ext path = (let base = takeWhile (\<lambda>x. x \<noteq> CHR ''/'') (rev path) in
     if CHR ''.'' \<in> set base then CHR ''.'' # rev (takeWhile (\<lambda>x. x \<noteq> CHR ''.'') base) else [])"

definition loadConfig :: "'w wcloud_env \<Rightarrow> string \<Rightarrow> ('w cli, error + Config) go" where
  "loadConfig E filename = (let extension = Ext filename in
     go_bind (ask (ReadFile E filename)) (\<lambda>r. case r of
        Inl err \<Rightarrow> go_return (Inl err)
      | Inr buf \<Rightarrow>
          if extension = ''.yaml'' \<or> extension = ''.yml'' then go_return (yaml_Unmarshal E buf zero_config)
          else go_return (json_Decode (decode_struct config_fields) (buf, None) zero_config)))"

definition config :: "'w wcloud_env \<Rightarrow> Client \<Rightarrow> string list \<Rightarrow> ('w cli, unit) go" where
  "config E c args =
     (if 1 < length args then usage
      else if length args = 1 then
        go_bind (loadConfig E (args ! 0)) (\<lambda>r. case r of
            Inl err \<Rightarrow> go_seq (print (ReadingConfig err)) (go_exit 1)
          | Inr cfg \<Rightarrow> go_bind (SetConfig E c cfg) (\<lambda>e. case e of
                Some err \<Rightarrow> fail err
              | None \<Rightarrow> go_return ()))
      else
        go_bind (GetConfig E c) (\<lambda>r. case r of
            Inl err \<Rightarrow> fail err
          | Inr cfg \<Rightarrow> (case yaml_Marshal E cfg of
                Inl err \<Rightarrow> fail err
              | Inr buf \<Rightarrow> print (Text buf))))"

definition logs :: "'w wcloud_env \<Rightarrow> Client \<Rightarrow> string list \<Rightarrow> ('w cli, unit) go" where
  "logs E c args =
     (if length args \<noteq> 1 then usage
      else go_bind (GetLogs E c (args ! 0)) (\<lambda>r. case r of
          Inl err \<Rightarrow> fail err
        | Inr bytes \<Rightarrow> print (Text bytes)))"

definition wcloud_main :: "'w wcloud_env \<Rightarrow> ('w cli, unit) go" where
  "wcloud_main E =
     (if length (os_Args E) \<le> 1 then go_seq usage (go_exit 1)
      else
        (let c = NewClient (env E ''SERVICE_TOKEN'' []) (env E ''BASE_URL'' ''https://cloud.weave.works'');
             cmd = os_Args E ! 1; args = drop 2 (os_Args E)
         in if cmd = ''deploy'' then deploy E c args
            else if cmd = ''list'' then list E c args
            else if cmd = ''config'' then config E c args
            else if cmd = ''logs'' then logs E c args
            else if cmd = ''events'' then events E c args
            else usage))"

section \<open>What a command prints and how it ends\<close>

text \<open>Operations that return and print nothing, and commands, which print at most one message and
  end the process exactly after printing an error.\<close>

definition silent :: "('w cli, 'a) go \<Rightarrow> bool" where
  "silent m \<longleftrightarrow> (\<forall>s. \<exists>x s'. m s = (Returns x, s') \<and> stdout s' = stdout s)"

fun is_failure :: "cli_message \<Rightarrow> bool" where
  "is_failure (ErrorLine err) = True"
| "is_failure (ReadingConfig err) = True"
| "is_failure _ = False"

definition reports :: "('w cli, unit) go \<Rightarrow> bool" where
  "reports m \<longleftrightarrow> (\<forall>s. \<exists>ms. length ms \<le> 1 \<and> stdout (snd (m s)) = stdout s @ ms
     \<and> fst (m s) = (if list_ex is_failure ms then Exits 1 else Returns ()))"

lemma reports_print: "\<not> is_failure msg \<Longrightarrow> reports (print msg)"
  unfolding reports_def by (auto simp: print_run intro: exI [of _ "[msg]"])

lemma reports_return: "reports (go_return ())"
  unfolding reports_def by (auto simp: go_run)

lemma reports_exit: "is_failure msg \<Longrightarrow> reports (go_seq (print msg) (go_exit 1))"
  unfolding reports_def by (auto simp: go_run intro: exI [of _ "[msg]"])

lemma reports_bind:
  assumes "silent m" and "\<And>x. reports (f x)"
  shows "reports (go_bind m f)"
  unfolding reports_def
proof
  fix s
  from assms(1) obtain x s' where m: "m s = (Returns x, s')" "stdout s' = stdout s" unfolding silent_def by blast
  from assms(2) [of x] obtain ms where "length ms \<le> 1" "stdout (snd (f x s')) = stdout s' @ ms"
      "fst (f x s') = (if list_ex is_failure ms then Exits 1 else Returns ())" unfolding reports_def by blast
  with m show "\<exists>ms. length ms \<le> 1 \<and> stdout (snd (go_bind m f s)) = stdout s @ ms
      \<and> fst (go_bind m f s) = (if list_ex is_failure ms then Exits 1 else Returns ())"
    by (auto simp: go_bind_simps)
qed

lemma silent_ask: "silent (ask c)"
  by (simp add: silent_def ask_run)

lemma silent_return: "silent (go_return x)"
  by (simp add: silent_def go_run)

lemma silent_service: "(\<And>s. m s = service E c meth path body answer s) \<Longrightarrow> silent m"
  by (simp add: silent_def service_def split: option.split prod.split sum.split)

lemma silent_post: "(\<And>s. m s = only_error (service E c meth path body answer s)) \<Longrightarrow> silent m"
  by (simp add: silent_def only_error_def service_def split: option.split prod.split sum.split)

lemma silent_bind:
  assumes "silent m" and "\<And>x. silent (f x)"
  shows "silent (go_bind m f)"
  unfolding silent_def
proof
  fix s
  from assms(1) obtain x s' where m: "m s = (Returns x, s')" "stdout s' = stdout s" unfolding silent_def by blast
  from assms(2) [of x] obtain y s'' where "f x s' = (Returns y, s'')" "stdout s'' = stdout s'" unfolding silent_def by blast
  with m show "\<exists>y s''. go_bind m f s = (Returns y, s'') \<and> stdout s'' = stdout s" by (simp add: go_bind_simps)
qed

lemma silent_client:
  "silent (Deploy E c d)" "silent (SetConfig E c cfg)" "silent (GetConfig E c)"
  "silent (GetDeployments E c from through)" "silent (GetEvents E c from through)" "silent (GetLogs E c i)"
proof -
  show "silent (Deploy E c d)"
  proof (cases "encode_deployment (local_zone E) d")
    case (Inl err)
    then show ?thesis by (simp add: silent_def post_operations(1))
  next
    case (Inr v)
    then show ?thesis by (intro silent_post) (simp add: post_operations(1))
  qed
  show "silent (SetConfig E c cfg)" by (rule silent_post) (rule post_operations(2))
  show "silent (GetConfig E c)" by (rule silent_service) (rule get_operations(1))
  show "silent (GetDeployments E c from through)" by (rule silent_service) (rule get_operations(2))
  show "silent (GetEvents E c from through)" by (rule silent_service) (rule get_operations(3))
  show "silent (GetLogs E c i)" by (rule silent_service) (rule get_operations(4))
qed

lemma silent_local: "silent (deploy_user E name)" "silent (loadConfig E path)"
proof -
  show "silent (deploy_user E name)" by (simp add: deploy_user_def silent_ask silent_return)
  show "silent (loadConfig E path)" unfolding loadConfig_def Let_def
    by (rule silent_bind [OF silent_ask]) (simp add: silent_return split: sum.split)
qed

lemmas silent_rules = silent_ask silent_return silent_client silent_local

lemma reports_usage: "reports usage"
  by (simp add: usage_def reports_print)

lemma reports_fail: "reports (fail err)"
  by (simp add: fail_def reports_exit)

lemma reports_commands:
  "reports (deploy E c args)" "reports (list E c args)" "reports (events E c args)"
  "reports (config E c args)" "reports (logs E c args)"
  unfolding deploy_def list_def events_def config_def logs_def Let_def
  by (auto split: sum.split option.split prod.split
      intro!: reports_bind silent_rules reports_fail reports_usage reports_print reports_return reports_exit)

definition commands :: "string list" where
  "commands = [''deploy'', ''list'', ''config'', ''logs'', ''events'']"



section \<open>What is deployed\<close>

lemma SplitN2_first: "c \<notin> set a \<Longrightarrow> SplitN2 (a @ c # b) c = [a, b]"
  by (simp add: SplitN2_def dropWhile_append takeWhile_tail)

lemma SplitN2_none: "c \<notin> set s \<Longrightarrow> SplitN2 s c = [s]"
proof -
  assume "c \<notin> set s"
  then have "dropWhile (\<lambda>x. x \<noteq> c) s = []" by (auto simp: dropWhile_eq_Nil_conv)
  then show ?thesis by (simp only: SplitN2_def list.case)
qed

lemma parse_services:
  assumes "arg \<noteq> []" and "hd arg \<noteq> CHR ''-''"
  shows "parse_flags deploy_flag_set (concat (map (\<lambda>v. [''-service'', v]) svcs) @ [arg]) f =
    Inr (f\<lparr>services := (if svcs = [] then services f else Some ((case services f of None \<Rightarrow> [] | Some xs \<Rightarrow> xs) @ svcs))\<rparr>, [arg])"
proof (induction svcs arbitrary: f)
  case Nil
  then show ?case using assms by simp
next
  case (Cons v svcs)
  let ?rest = "concat (map (\<lambda>v. [''-service'', v]) svcs) @ [arg]"
  have "parse_flags deploy_flag_set (''-service'' # v # ?rest) f =
      parse_flags deploy_flag_set ?rest (f\<lparr>services := ArrayFlags_Set v (services f)\<rparr>)"
    by (simp add: deploy_flag_set_def Let_def)
  also note Cons.IH
  finally show ?case by (simp add: ArrayFlags_Set_def del: parse_flags.simps)
qed

text \<open>The JSON value that stands for a deployment of an image by a user.\<close>

definition deploy_json :: "string \<Rightarrow> string \<Rightarrow> string \<Rightarrow> string list \<Rightarrow> json" where
  "deploy_json img version user svcs = JObj
     [(''id'', JStr []),
      (''created_at'', JStr ''0001-01-01T00:00:00Z''),
      (''image_name'', JStr img),
      (''version'', JStr version),
      (''priority'', JNum ''0''),
      (''status'', JStr []),
      (''triggering_user'', JStr user),
      (''intended_services'', if svcs = [] then JNull else JArr (map JStr svcs))]"

lemma encode_new_deployment:
  "encode_deployment Z \<lparr>d_ID = [], d_CreatedAt = zero_time, d_ImageName = img, d_Version = version, d_Priority = 0,
     d_State = [], d_TriggeringUser = user, d_IntendedServices = (if svcs = [] then None else Some svcs)\<rparr> =
   Inr (deploy_json img version user svcs)"
proof -
  have "Itoa 0 = ''0''" by code_simp
  then show ?thesis
    by (simp add: encode_deployment_def deploy_json_def Marshal_zero_time encode_string_def encode_int_def encode_slice_def)
qed

text \<open>
  C36: what \<open>wcloud deploy\<close> sends. For an argument \<open>image:version\<close>, after any number of \<open>-service\<close> flags,
  one request is posted with the token, whose body is the text of a deployment of that image and
  version by the current user, for these services in this order, null if there are none; the time of
  creation is the zero time. An image is what stands before the first colon, so a version may contain
  colons and the name of an image may not. The command succeeds if the service accepts the request, and
  otherwise prints the error and exits with status 1. An argument without a colon sends nothing.
\<close>

theorem deploy_command:
  assumes "CHR '':'' \<notin> set img" and "hd img \<noteq> CHR ''-''" and "img \<noteq> []"
    and "user_Current E (outside s) = (Inr user, w)"
  shows "deploy E c (concat (map (\<lambda>v. [''-service'', v]) svcs) @ [img @ '':'' @ version]) s =
      go_bind (only_error \<circ> service E c ''POST'' ''/api/deploy/deploy''
          (Some (json_line (deploy_json img version user svcs))) (expect 204 ok))
        (\<lambda>r. case r of Some err \<Rightarrow> fail err | None \<Rightarrow> go_return ()) (s\<lparr>outside := w\<rparr>)
    \<and> deploy E c (concat (map (\<lambda>v. [''-service'', v]) svcs) @ [img]) s = (Returns (), s\<lparr>stdout := stdout s @ [Usage]\<rparr>)"
proof
  let ?d = "\<lparr>d_ID = [], d_CreatedAt = zero_time, d_ImageName = img, d_Version = version, d_Priority = 0,
     d_State = [], d_TriggeringUser = user, d_IntendedServices = (if svcs = [] then None else Some svcs)\<rparr>"
  have p: "parse_flags deploy_flag_set (concat (map (\<lambda>v. [''-service'', v]) svcs) @ [arg]) \<lparr>username = [], services = None\<rparr> =
      Inr (\<lparr>username = [], services = (if svcs = [] then None else Some svcs)\<rparr>, [arg])"
    if "arg \<noteq> []" "hd arg \<noteq> CHR ''-''" for arg
    using parse_services [OF that] by simp
  have "parse_flags deploy_flag_set (concat (map (\<lambda>v. [''-service'', v]) svcs) @ [img @ '':'' @ version]) \<lparr>username = [], services = None\<rparr> =
      Inr (\<lparr>username = [], services = (if svcs = [] then None else Some svcs)\<rparr>, [img @ '':'' @ version])"
    using assms(2,3) by (intro p) simp_all
  then have "deploy E c (concat (map (\<lambda>v. [''-service'', v]) svcs) @ [img @ '':'' @ version]) s =
      go_bind (Deploy E c ?d) (\<lambda>r. case r of Some err \<Rightarrow> fail err | None \<Rightarrow> go_return ()) (s\<lparr>outside := w\<rparr>)"
    using assms(1,4) by (simp add: deploy_def SplitN2_first deploy_user_def ask_def go_bind_simps zero_deployment_def)
  also have "Deploy E c ?d = only_error \<circ> service E c ''POST'' ''/api/deploy/deploy''
      (Some (json_line (deploy_json img version user svcs))) (expect 204 ok)"
    by (rule ext) (simp add: post_operations(1) encode_new_deployment)
  finally show "deploy E c (concat (map (\<lambda>v. [''-service'', v]) svcs) @ [img @ '':'' @ version]) s =
      go_bind (only_error \<circ> service E c ''POST'' ''/api/deploy/deploy''
          (Some (json_line (deploy_json img version user svcs))) (expect 204 ok))
        (\<lambda>r. case r of Some err \<Rightarrow> fail err | None \<Rightarrow> go_return ()) (s\<lparr>outside := w\<rparr>)" .
  from p [OF assms(3,2)] show "deploy E c (concat (map (\<lambda>v. [''-service'', v]) svcs) @ [img]) s =
      (Returns (), s\<lparr>stdout := stdout s @ [Usage]\<rparr>)"
    using assms(1) by (simp add: deploy_def SplitN2_none usage_def print_run)
qed

theorem deploy_command_witness:
  "\<exists>s'. deploy (demo_wcloud []) (NewClient ''abc'' ''http://x'') (concat (map (\<lambda>v. [''-service'', v]) [''api'']) @ [''app'' @ '':'' @ ''v1''])
     \<lparr>outside = [], stdout = []\<rparr> = (Returns (), s') \<and> stdout s' = []
     \<and> outside s' = json_line (deploy_json ''app'' ''v1'' ''jane'' [''api''])"
proof -
  have d: "CHR '':'' \<notin> set ''app''" "hd ''app'' \<noteq> CHR ''-''" "''app'' \<noteq> []"
    "user_Current (demo_wcloud []) (outside \<lparr>outside = [], stdout = []\<rparr>) = (Inr ''jane'', [])"
    by (simp_all add: demo_wcloud_def)
  have a: "http_NewRequest ''POST'' (baseURL (NewClient ''abc'' ''http://x'') @ ''/api/deploy/deploy'') = None"
    by (rule request_accepted) (simp_all add: NewClient_def demo_base)
  show ?thesis
    using conjunct1 [OF deploy_command [OF d, of "NewClient ''abc'' ''http://x''" "[''api'']" "''v1''"]]
    by (simp add: service_def a only_error_def expect_def ok_def demo_wcloud_def demo_service_def go_run)
qed

end
