(* ===== verification/Wcloud_List.thy ===== *)
theory Wcloud_List
  imports Wcloud
begin

text \<open>
  The commands \<open>list\<close> and \<open>events\<close> of the wcloud tool, from the text of the flag \<open>-since\<close> to the request, and from
  the bytes of the answer to the table that is printed. The service is another machine, with a local time zone
  of its own.
\<close>

section \<open>The flag\<close>

lemma parse_since:
  "parse_flags since_flag_set [''-since'', v] old = (case ParseDuration v of Inl err \<Rightarrow> Inl flag_error | Inr d \<Rightarrow> Inr (d, []))"
  by (simp add: since_flag_set_def split: sum.split)

definition duration_text :: "int \<Rightarrow> duration_term list \<Rightarrow> string" where
  "duration_text sg ts = sign_text sg @ concat (map term_text ts)"

definition duration_ns :: "duration_term list \<Rightarrow> nat" where
  "duration_ns ts = (\<Sum>t\<leftarrow>ts. term_ns t)"

definition a_duration :: "int \<Rightarrow> duration_term list \<Rightarrow> bool" where
  "a_duration sg ts \<longleftrightarrow> list_all term_ok ts \<and> ts \<noteq> [] \<and> sg \<in> {1, -1}"

lemma parse_since_duration:
  assumes "a_duration sg ts"
  shows "parse_flags since_flag_set [''-since'', duration_text sg ts] old =
    (if int (duration_ns ts) \<le> max_int64 then Inr (sg * int (duration_ns ts), []) else Inl flag_error)"
  using assms ParseDuration_text [of ts sg "duration_ns ts" "duration_text sg ts"]
  by (simp add: parse_since a_duration_def duration_text_def duration_ns_def del: parse_flags.simps)

text \<open>
  The flag \<open>-since\<close>. For any sum of decimal numbers with units, with or without a minus sign, whose
  fractions are whole nanoseconds, \<open>wcloud events\<close> asks for exactly that long before now, in whole seconds;
  without the flag for seven days. A duration of more than 2^63-1 nanoseconds, which is some 292
  years, is refused: the commands print the usage, ask nothing and end with success.
\<close>

lemma since_flag:
  assumes "a_duration sg ts" and "now E (outside s) = (t, w)"
  shows "(int (duration_ns ts) \<le> max_int64 \<longrightarrow>
      events E c [''-since'', duration_text sg ts] s =
        go_bind (GetEvents E c ((t - sg * int (duration_ns ts)) div 1000000000) (t div 1000000000))
          (\<lambda>r. case r of Inl err \<Rightarrow> fail err | Inr bytes \<Rightarrow> print (Events bytes)) (s\<lparr>outside := w\<rparr>))
    \<and> (\<not> int (duration_ns ts) \<le> max_int64 \<longrightarrow>
      events E c [''-since'', duration_text sg ts] s = (Returns (), s\<lparr>stdout := stdout s @ [Usage]\<rparr>)
      \<and> list E c [''-since'', duration_text sg ts] s = (Returns (), s\<lparr>stdout := stdout s @ [Usage]\<rparr>))
    \<and> events E c [] s =
        go_bind (GetEvents E c ((t - 604800000000000) div 1000000000) (t div 1000000000))
          (\<lambda>r. case r of Inl err \<Rightarrow> fail err | Inr bytes \<Rightarrow> print (Events bytes)) (s\<lparr>outside := w\<rparr>)"
  using parse_since_duration [OF assms(1), of default_since] assms(2)
  by (simp add: events_def list_def default_since_def ask_def go_bind_simps Unix_def usage_def print_run del: parse_flags.simps(2))

definition demo_duration :: "duration_term list" where
  "demo_duration = [\<lparr>dt_whole = 1, dt_digits = 0, dt_frac = 0, dt_unit = ''h''\<rparr>, \<lparr>dt_whole = 2, dt_digits = 1, dt_frac = 5, dt_unit = ''s''\<rparr>]"

lemma demo_duration_facts:
  "a_duration 1 demo_duration" "duration_ns demo_duration = 3602500000000" "duration_text 1 demo_duration = ''1h2.5s''"
proof -
  show "a_duration 1 demo_duration"
    by (simp add: a_duration_def demo_duration_def term_ok_def unit_ns_def unitMap_def)
  show "duration_ns demo_duration = 3602500000000"
    by (simp add: duration_ns_def demo_duration_def term_ns_def unit_ns_def unitMap_def)
  show "duration_text 1 demo_duration = ''1h2.5s''" by code_simp
qed

lemma since_flag_witness:
  "events (demo_wcloud []) (NewClient ''abc'' ''http://x'') [''-since'', ''1h2.5s''] \<lparr>outside = ''deployed'', stdout = []\<rparr>
    = (Returns (), \<lparr>outside = ''deployed'', stdout = [Events ''deployed'']\<rparr>)"
proof -
  let ?s = "\<lparr>outside = ''deployed'', stdout = []\<rparr>"
  have n: "now (demo_wcloud []) (outside ?s) = (1500000000000000000, ''deployed'')" by (simp add: demo_wcloud_def)
  let ?path = "''/api/deploy/event?from='' @ Itoa ((1500000000000000000 - 1 * int (duration_ns demo_duration)) div 1000000000)
    @ ''&through='' @ Itoa (1500000000000000000 div 1000000000)"
  have a: "http_NewRequest ''GET'' (baseURL (NewClient ''abc'' ''http://x'') @ ?path) = None"
    by (rule request_accepted) (simp_all add: NewClient_def demo_base percent_Itoa)
  have "events (demo_wcloud []) (NewClient ''abc'' ''http://x'') [''-since'', duration_text 1 demo_duration] ?s =
      go_bind (GetEvents (demo_wcloud []) (NewClient ''abc'' ''http://x'')
          ((1500000000000000000 - 1 * int (duration_ns demo_duration)) div 1000000000) (1500000000000000000 div 1000000000))
        (\<lambda>r. case r of Inl err \<Rightarrow> fail err | Inr bytes \<Rightarrow> print (Events bytes)) (?s\<lparr>outside := ''deployed''\<rparr>)"
    using since_flag [OF demo_duration_facts(1) n, of "NewClient ''abc'' ''http://x''"]
    by (simp add: demo_duration_facts(2) max_int64_def)
  then show ?thesis
    using a by (simp add: demo_duration_facts(2,3) go_bind_simps get_operations(3) service_def expect_def ReadAll_def demo_wcloud_def
        demo_service_def print_run)
qed

section \<open>Deployments\<close>

text \<open>What a service can write, and what the client has read then.\<close>

definition sent_offset :: "local_zone \<Rightarrow> Deployment \<Rightarrow> int" where
  "sent_offset Z d = snd (zone_at Z (d_CreatedAt d))"

definition sendable :: "local_zone \<Rightarrow> Deployment \<Rightarrow> bool" where
  "sendable Z d \<longleftrightarrow> 60 dvd sent_offset Z d \<and> \<bar>sent_offset Z d\<bar> < 360000
     \<and> - max_int64 - 1 \<le> d_Priority d \<and> d_Priority d \<le> max_int64"

definition read_deployment :: "local_zone \<Rightarrow> int \<Rightarrow> Deployment \<Rightarrow> Deployment" where
  "read_deployment Z off d = \<lparr>d_ID = to_valid (d_ID d),
     d_CreatedAt = \<lparr>t_ns = t_ns (d_CreatedAt d), t_loc = read_location Z off (t_ns (d_CreatedAt d))\<rparr>,
     d_ImageName = to_valid (d_ImageName d), d_Version = to_valid (d_Version d), d_Priority = d_Priority d,
     d_State = to_valid (d_State d), d_TriggeringUser = to_valid (d_TriggeringUser d),
     d_IntendedServices = map_option (map to_valid) (d_IntendedServices d)\<rparr>"

lemma rfc3339_ascii: "MarshalJSON Z t = Inr x \<Longrightarrow> to_valid x = x"
  by (auto simp: MarshalJSON_def Time_MarshalJSON_def split: if_splits)

lemma decode_encode_deployment:
  assumes "encode_deployment Z' d = Inr v" and "sendable Z' d"
  shows "printable v" "decode_struct (deployment_fields Z) (valid_json v) zero_deployment = Inr (read_deployment Z (sent_offset Z' d) d)"
proof -
  from assms(1) obtain x where x: "MarshalJSON Z' (d_CreatedAt d) = Inr x"
    by (cases "MarshalJSON Z' (d_CreatedAt d)") (auto simp: encode_deployment_def)
  show "printable v"
    using assms(1) x by (auto simp: encode_deployment_def js.printable_enc jss.printable_enc encode_int_def)
  have "zone_at Z' (d_CreatedAt d) = (fst (zone_at Z' (d_CreatedAt d)), sent_offset Z' d)" by (simp add: sent_offset_def)
  from Parse_Marshal [OF x this, of Z] assms(2)
  have p: "Parse_RFC3339 Z x = Some \<lparr>t_ns = t_ns (d_CreatedAt d), t_loc = read_location Z (sent_offset Z' d) (t_ns (d_CreatedAt d))\<rparr>"
    by (simp add: sendable_def)
  have n: "decode_int (valid_json (encode_int (d_Priority d))) 0 = Inr (d_Priority d)"
    using assms(2) by (simp add: sendable_def encode_int_def ParseInt_Itoa)
  show "decode_struct (deployment_fields Z) (valid_json v) zero_deployment = Inr (read_deployment Z (sent_offset Z' d) d)"
    using assms(1) x p n rfc3339_ascii [OF x]
    by (auto simp: encode_deployment_def deployment_fields_def find_field_def field_def zero_deployment_def read_deployment_def
        to_valid_ascii js.dec_enc jss.dec_enc)
qed

lemma decode_encode_deployments:
  assumes "list_all2 (\<lambda>d v. sendable Z' d \<and> encode_deployment Z' d = Inr v) ds vs"
  shows "list_all printable vs"
    "decode_elements (decode_struct (deployment_fields Z)) zero_deployment (map valid_json vs) [] =
      Inr (map (\<lambda>d. read_deployment Z (sent_offset Z' d) d) ds)"
proof -
  from assms have "list_all printable vs \<and>
    decode_elements (decode_struct (deployment_fields Z)) zero_deployment (map valid_json vs) [] =
      Inr (map (\<lambda>d. read_deployment Z (sent_offset Z' d) d) ds)"
  proof (induction rule: list_all2_induct)
    case (Cons d ds v vs)
    then have "printable v" "decode_struct (deployment_fields Z) (valid_json v) zero_deployment =
        Inr (read_deployment Z (sent_offset Z' d) d)"
      using decode_encode_deployment [of Z' d v] by blast+
    with Cons.IH show ?case by simp
  qed simp
  then show "list_all printable vs"
    "decode_elements (decode_struct (deployment_fields Z)) zero_deployment (map valid_json vs) [] =
      Inr (map (\<lambda>d. read_deployment Z (sent_offset Z' d) d) ds)" by blast+
qed

lemma decode_answer:
  assumes "list_all2 (\<lambda>d v. sendable Z' d \<and> encode_deployment Z' d = Inr v) ds vs"
  shows "json_Decode (decode_struct (deployments_fields Z)) (json_text (JObj [(''deployments'', JArr vs)]) @ rest, e) None =
    Inr (Some (map (\<lambda>d. read_deployment Z (sent_offset Z' d) d) ds))"
  using decode_encode_deployments [OF assms]
  by (simp add: json_Decode_def read_print_prefix deployments_fields_def find_field_def to_valid_ascii del: json_text.simps)

section \<open>The table\<close>

text \<open>The date and the time of day of the sender, and the zone as the client knows it.\<close>

definition shown_zone :: "local_zone \<Rightarrow> int \<Rightarrow> int \<Rightarrow> string" where
  "shown_zone Z off ns =
     (if off = 0 then ''UTC''
      else let here = Z (ns div 1000000000) in
        if snd here = off \<and> fst here \<noteq> [] then fst here else zone_name ([], off))"

definition shown_time :: "local_zone \<Rightarrow> int \<Rightarrow> int \<Rightarrow> string" where
  "shown_time Z off ns = (case clock off ns of ((y, m, d), sec, nsec) \<Rightarrow>
     pad 2 (nat d) @ '' '' @ shortMonthNames ! (m - 1) @ '' '' @ pad 2 (nat (max 0 y) mod 100) @ '' ''
     @ pad 2 (sec div 3600) @ '':'' @ pad 2 (sec div 60 mod 60) @ '' '' @ shown_zone Z off ns)"

definition shown_row :: "local_zone \<Rightarrow> local_zone \<Rightarrow> Deployment \<Rightarrow> string list" where
  "shown_row Z Z' d = [shown_time Z (sent_offset Z' d) (t_ns (d_CreatedAt d)), to_valid (d_ID d), to_valid (d_ImageName d),
     to_valid (d_Version d), to_valid (d_State d)]"

lemma zone_name_read: "zone_name (zone_at Z \<lparr>t_ns = ns, t_loc = read_location Z off ns\<rparr>) = shown_zone Z off ns"
  by (simp add: zone_name_def shown_zone_def zone_at_def read_location_def Let_def)

lemma Format_read:
  "Format_RFC822 Z \<lparr>t_ns = ns, t_loc = read_location Z off ns\<rparr> = shown_time Z off ns"
  by (simp add: Format_RFC822_def shown_time_def read_location_offset zone_name_read)

text \<open>
  C37: what \<open>wcloud list\<close> asks for and prints. With a duration as the flag \<open>-since\<close>, the service, at an ordinary URL, is asked for
  the deployments from that long before now until now, with the token. If its answer is the text of its
  deployments, whatever follows it, the table has a row for each of them, in the same order: the
  minute of its creation as the service wrote it, with the name of the local zone where the offset is the
  local one, \<open>UTC\<close> or the offset itself otherwise, then ID, image, version and state.
\<close>

theorem list_command:
  assumes "a_duration sg ts" and "int (duration_ns ts) \<le> max_int64" and "now E (outside s) = (t, w)"
    and "url = baseURL c @ ''/api/deploy/deploy?from='' @ Itoa ((t - sg * int (duration_ns ts)) div 1000000000)
      @ ''&through='' @ Itoa (t div 1000000000)"
    and "plain_base (baseURL c)"
    and "http_Do E \<lparr>rq_Method = ''GET'', rq_URL = url, rq_Authorization = ''Scope-Probe token='' @ token c, rq_Body = None\<rparr> w = (Inr res, w')"
    and "rs_StatusCode res = 200" and "rs_Body res = (json_text (JObj [(''deployments'', JArr vs)]) @ rest, e)"
    and "list_all2 (\<lambda>d v. sendable Z' d \<and> encode_deployment Z' d = Inr v) ds vs"
  shows "list E c [''-since'', duration_text sg ts] s =
    (Returns (), s\<lparr>outside := w', stdout := stdout s
       @ [Table [''Created'', ''ID'', ''Image'', ''Version'', ''State''] (map (shown_row (local_zone E) Z') ds)]\<rparr>)"
proof -
  let ?ds = "map (\<lambda>d. read_deployment (local_zone E) (sent_offset Z' d) d) ds"
  have accepted: "http_NewRequest ''GET'' url = None"
    unfolding assms(4) by (rule request_accepted [OF assms(5)]) (simp_all add: percent_Itoa)
  have "GetDeployments E c ((t - sg * int (duration_ns ts)) div 1000000000) (t div 1000000000) (s\<lparr>outside := w\<rparr>) =
      (Returns (Inr ?ds), s\<lparr>outside := w'\<rparr>)"
    unfolding get_operations(2) service_def assms(4) [symmetric]
    using accepted assms(6-8) decode_answer [OF assms(9)] by (simp add: expect_def decoded_def del: json_text.simps)
  moreover have "[Format_RFC822 (local_zone E) (d_CreatedAt d), d_ID d, d_ImageName d, d_Version d, d_State d] =
      shown_row (local_zone E) Z' d'" if "d = read_deployment (local_zone E) (sent_offset Z' d') d'" for d d'
    by (simp add: that read_deployment_def shown_row_def Format_read)
  ultimately show ?thesis
    using parse_since_duration [OF assms(1), of default_since] assms(2,3)
    by (simp add: list_def ask_def go_bind_simps Unix_def print_run comp_def del: parse_flags.simps(2))
qed

definition demo_deployment :: Deployment where
  "demo_deployment = \<lparr>d_ID = ''7'', d_CreatedAt = \<lparr>t_ns = 1493780706000000000, t_loc = Local\<rparr>, d_ImageName = ''app'', d_Version = ''v1'',
     d_Priority = 0, d_State = ''running'', d_TriggeringUser = ''jane'', d_IntendedServices = None\<rparr>"

definition demo_deployment_json :: json where
  "demo_deployment_json = JObj
     [(''id'', JStr ''7''), (''created_at'', JStr ''2017-05-03T05:05:06+02:00''), (''image_name'', JStr ''app''), (''version'', JStr ''v1''),
      (''priority'', JNum ''0''), (''status'', JStr ''running''), (''triggering_user'', JStr ''jane''), (''intended_services'', JNull)]"

lemma digit_chars:
  "digit_char 0 = CHR ''0''" "digit_char (Suc 0) = CHR ''1''" "digit_char 2 = CHR ''2''" "digit_char 3 = CHR ''3''" "digit_char 4 = CHR ''4''"
  "digit_char 5 = CHR ''5''" "digit_char 6 = CHR ''6''" "digit_char 7 = CHR ''7''" "digit_char 8 = CHR ''8''" "digit_char 9 = CHR ''9''"
  by code_simp+

lemma demo_moment: "clock 7200 1493780706000000000 = ((2017, 5, 3), 18306, 0)"
proof -
  have "absDate 736451 = (2017, 5, 3)" by code_simp
  then show ?thesis by (simp add: clock_def Let_def)
qed

lemma demo_pads:
  "pad 4 2017 = ''2017''" "pad 2 5 = ''05''" "pad 2 3 = ''03''" "pad 2 6 = ''06''" "pad 2 17 = ''17''" "pad 2 2 = ''02''" "pad 2 0 = ''00''"
  by (simp_all add: pad_def nat_digits.simps digit_chars)

lemma demo_encoded: "encode_deployment (\<lambda>_. (''CEST'', 7200)) demo_deployment = Inr demo_deployment_json"
proof -
  have "MarshalJSON (\<lambda>_. (''CEST'', 7200)) \<lparr>t_ns = 1493780706000000000, t_loc = Local\<rparr> = Inr ''2017-05-03T05:05:06+02:00''"
    by (simp add: MarshalJSON_def zone_at_def Time_MarshalJSON_def year_ok_def RFC3339Nano_def demo_moment fraction_text_def
        zone_text_def Let_def demo_pads)
  moreover have "Itoa 0 = ''0''" by (simp add: Itoa_def nat_digits.simps digit_chars)
  ultimately show ?thesis
    by (simp add: encode_deployment_def demo_deployment_def demo_deployment_json_def encode_string_def encode_int_def encode_slice_def)
qed

lemma demo_row: "shown_row (\<lambda>_. (''CET'', 3600)) (\<lambda>_. (''CEST'', 7200)) demo_deployment =
    [''03 May 17 05:05 +0200'', ''7'', ''app'', ''v1'', ''running'']"
  by (simp add: shown_row_def shown_time_def shown_zone_def sent_offset_def zone_at_def demo_deployment_def demo_moment
      shortMonthNames_def zone_name_def Let_def demo_pads to_valid_ascii)

theorem list_command_witness:
  "list (demo_wcloud []) (NewClient ''abc'' ''http://x'') [''-since'', ''1h2.5s'']
     \<lparr>outside = json_text (JObj [(''deployments'', JArr [demo_deployment_json])]), stdout = []\<rparr> =
   (Returns (), \<lparr>outside = json_text (JObj [(''deployments'', JArr [demo_deployment_json])]),
      stdout = [Table [''Created'', ''ID'', ''Image'', ''Version'', ''State''] [[''03 May 17 05:05 +0200'', ''7'', ''app'', ''v1'', ''running'']]]\<rparr>)"
proof -
  let ?w = "json_text (JObj [(''deployments'', JArr [demo_deployment_json])])"
  let ?s = "\<lparr>outside = ?w, stdout = []\<rparr>"
  let ?Z' = "\<lambda>_. (''CEST'', 7200)"
  let ?c = "NewClient ''abc'' ''http://x''"
  have small: "int (duration_ns demo_duration) \<le> max_int64" by (simp add: demo_duration_facts(2) max_int64_def)
  have n: "now (demo_wcloud []) (outside ?s) = (1500000000000000000, ?w)" by (simp add: demo_wcloud_def)
  have r: "plain_base (baseURL ?c)"
    "http_Do (demo_wcloud []) \<lparr>rq_Method = ''GET'', rq_URL = url, rq_Authorization = ''Scope-Probe token='' @ token ?c, rq_Body = None\<rparr> ?w
      = (Inr \<lparr>rs_StatusCode = 200, rs_Status = ''200 OK'', rs_Body = (?w, None)\<rparr>, ?w)" for url
    by (simp_all add: demo_wcloud_def demo_service_def NewClient_def demo_base)
  have ok: "sendable ?Z' demo_deployment"
    by (simp add: sendable_def sent_offset_def demo_deployment_def zone_at_def max_int64_def)
  have ds: "list_all2 (\<lambda>d v. sendable ?Z' d \<and> encode_deployment ?Z' d = Inr v) [demo_deployment] [demo_deployment_json]"
    using demo_encoded ok by simp
  have row: "shown_row (local_zone (demo_wcloud [])) ?Z' demo_deployment = [''03 May 17 05:05 +0200'', ''7'', ''app'', ''v1'', ''running'']"
    using demo_row by (simp add: demo_wcloud_def)
  have body: "rs_StatusCode \<lparr>rs_StatusCode = 200, rs_Status = ''200 OK'', rs_Body = (?w, None)\<rparr> = 200"
    "rs_Body \<lparr>rs_StatusCode = 200, rs_Status = ''200 OK'', rs_Body = (?w, None)\<rparr> = (?w @ [], None)"
    by simp_all
  from list_command [OF demo_duration_facts(1) small n refl r body ds]
  show ?thesis by (simp add: demo_duration_facts(3) row del: json_text.simps)
qed

end
