(* ===== verification/Docker_Monitor.thy ===== *)
theory Docker_Monitor
  imports Docker Transitions
begin

text \<open>
  The event monitor of the vendored Docker client (\<open>go-dockerclient/event.go\<close>) together with the goroutine of
  \<open>docker.go\<close> that uses it. The monitor is a goroutine that takes the events of the daemon from a buffered
  channel, which a goroutine that reads the connection fills, and starts a goroutine for every event, which
  sends it to the listeners. The client has one listener, a new unbuffered channel for every round of the
  outer loop of \<open>Start\<close>.

  Any number of these goroutines are interleaved in small steps. Connecting to the daemon and the data that it
  sends are choices of the schedule. The count of a wait group never becomes negative (\<open>monitor_ok\<close>), where the
  package \<open>sync\<close> would panic. The read-write lock of the monitor is held by the senders while they wait for a
  listener to receive; as in package \<open>sync\<close>, a goroutine that waits for the write lock keeps new readers out. A
  function that reads under the lock without blocking is one step.
\<close>

section \<open>Events\<close>

record raw_event =
  re_Action :: string
  re_Type :: string
  re_ActorID :: string
  re_Attributes :: "string \<rightharpoonup> string"
  re_Status :: string
  re_ID :: string
  re_From :: string
  re_Time :: int

text \<open>Events of API versions before 1.22 have no action and no type; the members of one form are filled in from
  the other.\<close>

definition transformEvent :: "raw_event \<Rightarrow> raw_event" where
  "transformEvent e =
     (if re_Action e = [] \<and> re_Type e = [] then
        (let image = (re_Status e \<in> {''delete'', ''import'', ''pull'', ''push'', ''tag'', ''untag''}) in
         e\<lparr>re_Action := re_Status e, re_ActorID := re_ID e, re_Type := (if image then ''image'' else ''container''),
           re_Attributes := (if \<not> image \<and> re_From e \<noteq> [] then [''image'' \<mapsto> re_From e] else Map.empty)\<rparr>)
      else
        e\<lparr>re_Status := (if re_Status e \<noteq> [] then re_Status e
              else if re_Type e = ''image'' \<or> re_Type e = ''container'' then re_Action e
              else re_Type e @ '':'' @ re_Action e),
          re_ID := (if re_ID e \<noteq> [] then re_ID e else re_ActorID e),
          re_From := (if re_From e \<noteq> [] then re_From e
              else case re_Attributes e ''image'' of None \<Rightarrow> [] | Some v \<Rightarrow> v)\<rparr>)"

text \<open>What \<open>docker.go\<close> looks at.\<close>

definition api_event :: "raw_event \<Rightarrow> APIEvents" where
  "api_event e = \<lparr>ev_Status = re_Status e, ev_ID = re_ID e\<rparr>"

datatype event_msg = Event raw_event | EOFEvent

datatype monitor_error = ErrNoListeners | DecodeError

section \<open>The goroutines\<close>

text \<open>The client, with the number of its listener: one point per call of \<open>AddEventListener\<close>, \<open>getContainers\<close>,
  the loop, and \<open>RemoveEventListener\<close>, which is deferred and also runs when \<open>getContainers\<close> has panicked (the
  flag).\<close>

datatype client_pc =
    Check_enabled nat
  | Enable nat
  | Add_listener nat
  | List_containers nat
  | Receive nat
  | Handle nat raw_event
  | Remove_listener nat bool
  | Count_listeners nat bool
  | Disable nat bool
  | Sleep nat

text \<open>\<open>monitorEvents\<close>; connecting counts the attempts and has read the number of the channels.\<close>

datatype monitor_pc =
    Wait_listener
  | Read_channels nat
  | Connect nat nat
  | Loop
  | Select
  | Update_last_seen raw_event
  | Disable_monitoring
  | Monitor_done

text \<open>The goroutine of \<open>eventHijack\<close>, with the number of the channels it was given.\<close>

datatype reader_pc =
    Decode nat
  | Report_error nat raw_event
  | Check_channel nat raw_event
  | Put nat raw_event
  | Lock_EOF nat
  | Put_EOF nat
  | Reader_done

text \<open>\<open>sendEvent\<close>; \<open>Sending\<close> has the listeners that are left.\<close>

datatype sender_pc =
    Start_sending raw_event
  | No_listeners
  | Sending raw_event "nat list"
  | Sent

datatype lock_owner = Client_lock | Monitor_lock nat

text \<open>The monitor's channels are numbered, since \<open>enableEventMonitoring\<close> makes new ones; \<open>m_current\<close> is the number
  of those in use. \<open>m_requests\<close> are the requests for events that the daemon has got. A writer is the goroutine that
  holds the write lock, or waits for it while \<open>m_readers\<close> is not 0.
  \<open>m_streamed\<close> and \<open>m_received\<close> are the events read from the connection and those the client received, and
  \<open>m_store\<close> is the state of the process that the client works on.\<close>

record ('w, 'z) monitor =
  m_enabled :: bool
  m_lastSeen :: int
  m_current :: nat
  m_C :: "event_msg list list"
  m_errC :: "monitor_error list list"
  m_closed :: "bool list"
  m_listeners :: "nat list"
  m_listener_closed :: "nat \<Rightarrow> bool"
  m_wait_group :: int
  m_readers :: nat
  m_writer :: "lock_owner option"
  m_client :: client_pc
  m_monitors :: "monitor_pc list"
  m_sources :: "reader_pc list"
  m_senders :: "sender_pc list"
  m_requests :: "string list"
  m_crashed :: bool
  m_streamed :: "raw_event list"
  m_received :: "raw_event list"
  m_store :: "('w, 'z) Store_scheme"

text \<open>\<open>Lock\<close> first keeps new readers out, and the body runs when there are no readers; \<open>None\<close> is a step that is
  not possible. The body of \<open>disableEventMonitoring\<close> may itself wait.\<close>

definition with_lock ::
  "lock_owner \<Rightarrow> (('w, 'z) monitor \<Rightarrow> ('w, 'z) monitor option) \<Rightarrow> ('w, 'z) monitor \<Rightarrow> ('w, 'z) monitor option" where
  "with_lock who body s =
     (case m_writer s of
        None \<Rightarrow> Some (s\<lparr>m_writer := Some who\<rparr>)
      | Some w \<Rightarrow> if w = who \<and> m_readers s = 0 then map_option (\<lambda>t. t\<lparr>m_writer := None\<rparr>) (body s) else None)"

text \<open>A function that only reads under the lock.\<close>

definition with_rlock :: "(('w, 'z) monitor \<Rightarrow> ('w, 'z) monitor) \<Rightarrow> ('w, 'z) monitor \<Rightarrow> ('w, 'z) monitor option" where
  "with_rlock body s = (if m_writer s = None then Some (body s) else None)"

section \<open>The functions of the monitor\<close>

definition addListener :: "nat \<Rightarrow> ('w, 'z) monitor \<Rightarrow> ('w, 'z) monitor" where
  "addListener l s = (if l \<in> set (m_listeners s) then s
     else s\<lparr>m_wait_group := m_wait_group s + 1, m_listeners := m_listeners s @ [l]\<rparr>)"

definition removeListener :: "nat \<Rightarrow> ('w, 'z) monitor \<Rightarrow> ('w, 'z) monitor" where
  "removeListener l s = (if l \<in> set (m_listeners s)
     then s\<lparr>m_listeners := filter (\<lambda>x. x \<noteq> l) (m_listeners s), m_wait_group := m_wait_group s - 1\<rparr> else s)"

definition closeListeners :: "('w, 'z) monitor \<Rightarrow> ('w, 'z) monitor" where
  "closeListeners s = s\<lparr>m_listener_closed := (\<lambda>l. l \<in> set (m_listeners s) \<or> m_listener_closed s l),
     m_wait_group := m_wait_group s - int (length (m_listeners s)), m_listeners := []\<rparr>"

definition enableEventMonitoring :: "('w, 'z) monitor \<Rightarrow> ('w, 'z) monitor" where
  "enableEventMonitoring s = (if m_enabled s then s
     else s\<lparr>m_enabled := True, m_lastSeen := 0, m_current := length (m_C s), m_C := m_C s @ [[]], m_errC := m_errC s @ [[]],
       m_closed := m_closed s @ [False], m_monitors := m_monitors s @ [Wait_listener]\<rparr>)"

definition disableEventMonitoring :: "('w, 'z) monitor \<Rightarrow> ('w, 'z) monitor option" where
  "disableEventMonitoring s = (let t = closeListeners s in
     if m_wait_group t \<noteq> 0 then None
     else if m_enabled t then Some (t\<lparr>m_enabled := False, m_closed := (m_closed t)[m_current t := True]\<rparr>)
     else Some t)"

definition updateLastSeen :: "raw_event \<Rightarrow> ('w, 'z) monitor \<Rightarrow> ('w, 'z) monitor" where
  "updateLastSeen e s = (if m_lastSeen s < re_Time e then s\<lparr>m_lastSeen := re_Time e\<rparr> else s)"

section \<open>Steps\<close>

text \<open>The client. A panic in its goroutine ends the process after the deferred call.\<close>

definition leave_round :: "nat \<Rightarrow> bool \<Rightarrow> ('w, 'z) monitor \<Rightarrow> ('w, 'z) monitor" where
  "leave_round l panicking s = (if panicking then s\<lparr>m_crashed := True\<rparr> else s\<lparr>m_client := Sleep l\<rparr>)"

definition after_call :: "nat \<Rightarrow> ('a outcome \<times> ('w, 'z) Store_scheme) \<Rightarrow> ('a \<Rightarrow> client_pc)
    \<Rightarrow> ('w, 'z) monitor \<Rightarrow> ('w, 'z) monitor option" where
  "after_call l r f s = (case r of
      (Returns x, st) \<Rightarrow> Some (s\<lparr>m_client := f x, m_store := st\<rparr>)
    | (Panics p, st) \<Rightarrow> Some (s\<lparr>m_client := Remove_listener l True, m_store := st\<rparr>)
    | (Exits n, st) \<Rightarrow> Some (s\<lparr>m_crashed := True, m_store := st\<rparr>)
    | (Blocks, st) \<Rightarrow> None)"

definition client_step :: "'w env \<Rightarrow> ('w, 'z) monitor \<Rightarrow> ('w, 'z) monitor option" where
  "client_step E s = (case m_client s of
      Check_enabled l \<Rightarrow> with_rlock (\<lambda>s. s\<lparr>m_client := (if m_enabled s then Add_listener l else Enable l)\<rparr>) s
    | Enable l \<Rightarrow> with_lock Client_lock (\<lambda>s. Some ((enableEventMonitoring s)\<lparr>m_client := Add_listener l\<rparr>)) s
    | Add_listener l \<Rightarrow> with_lock Client_lock (\<lambda>s. Some ((addListener l s)
          \<lparr>m_client := (if l \<in> set (m_listeners s) then Sleep l else List_containers l)\<rparr>)) s
    | List_containers l \<Rightarrow> after_call l (getContainers E (m_store s))
          (\<lambda>e. case e of Some err \<Rightarrow> Remove_listener l False | None \<Rightarrow> Receive l) s
    | Receive l \<Rightarrow> if m_listener_closed s l then Some (s\<lparr>m_client := Remove_listener l False\<rparr>) else None
    | Handle l e \<Rightarrow> after_call l (handleEvent E (api_event e) (m_store s)) (\<lambda>_. Receive l) s
    | Remove_listener l p \<Rightarrow> with_lock Client_lock (\<lambda>s. Some ((removeListener l s)\<lparr>m_client := Count_listeners l p\<rparr>)) s
    | Count_listeners l p \<Rightarrow> with_rlock (\<lambda>s. if m_listeners s = [] then s\<lparr>m_client := Disable l p\<rparr> else leave_round l p s) s
    | Disable l p \<Rightarrow> with_lock Client_lock (\<lambda>s. map_option (leave_round l p) (disableEventMonitoring s)) s
    | Sleep l \<Rightarrow> Some (s\<lparr>m_client := Check_enabled (l + 1)\<rparr>))"

datatype monitor_choice = Continue | Connected | Refused | Take_event | Take_error | Timeout

definition set_monitor :: "nat \<Rightarrow> monitor_pc \<Rightarrow> ('w, 'z) monitor \<Rightarrow> ('w, 'z) monitor" where
  "set_monitor i pc s = s\<lparr>m_monitors := (m_monitors s)[i := pc]\<rparr>"

definition events_uri :: "int \<Rightarrow> string" where
  "events_uri startTime = ''/events'' @ (if startTime \<noteq> 0 then ''?since='' @ Itoa startTime else [])"

text \<open>\<open>monitorEvents\<close> and \<open>connectWithRetry\<close>; whether a connection is made and which channel \<open>select\<close> takes is
  the choice.\<close>

definition guarded :: "bool \<Rightarrow> 's option \<Rightarrow> 's option" where
  "guarded b t = (if b then t else None)"

definition select_event :: "nat \<Rightarrow> ('w, 'z) monitor \<Rightarrow> ('w, 'z) monitor option" where
  "select_event i s = (let g = m_current s in case m_C s ! g of
      [] \<Rightarrow> guarded (m_closed s ! g) (Some (set_monitor i Monitor_done s))
    | m # ms \<Rightarrow> Some (set_monitor i (case m of Event e \<Rightarrow> Update_last_seen e | EOFEvent \<Rightarrow> Disable_monitoring)
        (s\<lparr>m_C := (m_C s)[g := ms]\<rparr>)))"

definition select_error :: "nat \<Rightarrow> ('w, 'z) monitor \<Rightarrow> ('w, 'z) monitor option" where
  "select_error i s = (let g = m_current s in case m_errC s ! g of
      [] \<Rightarrow> guarded (m_closed s ! g) (Some (set_monitor i Loop s))
    | e # es \<Rightarrow> Some (set_monitor i (case e of ErrNoListeners \<Rightarrow> Disable_monitoring | DecodeError \<Rightarrow> Wait_listener)
        (s\<lparr>m_errC := (m_errC s)[g := es]\<rparr>)))"

definition connect :: "nat \<Rightarrow> nat \<Rightarrow> nat \<Rightarrow> monitor_choice \<Rightarrow> ('w, 'z) monitor \<Rightarrow> ('w, 'z) monitor option" where
  "connect i k g c s =
     (if c = Connected then Some (set_monitor i Loop
         (s\<lparr>m_sources := m_sources s @ [Decode g], m_requests := m_requests s @ [events_uri (m_lastSeen s)]\<rparr>))
      else guarded (c = Refused) (Some (set_monitor i (if k < 5 then Read_channels (k + 1) else Disable_monitoring) s)))"

definition monitor_step :: "nat \<Rightarrow> monitor_choice \<Rightarrow> ('w, 'z) monitor \<Rightarrow> ('w, 'z) monitor option" where
  "monitor_step i c s =
     guarded (i < length (m_monitors s)) (case m_monitors s ! i of
        Wait_listener \<Rightarrow> guarded (c = Continue)
          (with_rlock (\<lambda>s. set_monitor i (if m_listeners s = [] then Wait_listener else Read_channels 0) s) s)
      | Read_channels k \<Rightarrow> guarded (c = Continue) (with_rlock (\<lambda>s. set_monitor i (Connect k (m_current s)) s) s)
      | Connect k g \<Rightarrow> connect i k g c s
      | Loop \<Rightarrow> guarded (c = Continue) (with_rlock (\<lambda>s. set_monitor i (if m_enabled s then Select else Monitor_done) s) s)
      | Select \<Rightarrow>
          (if c = Take_event then select_event i s
           else if c = Take_error then select_error i s
           else guarded (c = Timeout) (Some (set_monitor i Loop s)))
      | Update_last_seen e \<Rightarrow> guarded (c = Continue) (with_lock (Monitor_lock i)
          (\<lambda>s. Some (set_monitor i Loop ((updateLastSeen e s)\<lparr>m_senders := m_senders s @ [Start_sending e]\<rparr>))) s)
      | Disable_monitoring \<Rightarrow> guarded (c = Continue) (with_lock (Monitor_lock i)
          (\<lambda>s. map_option (set_monitor i Monitor_done) (disableEventMonitoring s)) s)
      | Monitor_done \<Rightarrow> None)"

datatype source_choice = Go | Decoded raw_event | Malformed raw_event | End_of_stream

definition set_source :: "nat \<Rightarrow> reader_pc \<Rightarrow> ('w, 'z) monitor \<Rightarrow> ('w, 'z) monitor" where
  "set_source i pc s = s\<lparr>m_sources := (m_sources s)[i := pc]\<rparr>"

text \<open>After decoding: an event without a time is skipped.\<close>

definition decoded_event :: "nat \<Rightarrow> nat \<Rightarrow> raw_event \<Rightarrow> ('w, 'z) monitor \<Rightarrow> ('w, 'z) monitor" where
  "decoded_event i g e s = (if re_Time e = 0 then set_source i (Decode g) s
     else set_source i (Check_channel g e) (s\<lparr>m_streamed := m_streamed s @ [e]\<rparr>))"

text \<open>The goroutine of \<open>eventHijack\<close>. Sending on a channel that has been closed panics, and nothing recovers; an
  error of the decoder leaves an event that may be filled in partly.\<close>

definition decode_next :: "nat \<Rightarrow> nat \<Rightarrow> source_choice \<Rightarrow> ('w, 'z) monitor \<Rightarrow> ('w, 'z) monitor option" where
  "decode_next i g c s = (case c of
      Decoded e \<Rightarrow> Some (decoded_event i g e s)
    | Malformed e \<Rightarrow> Some (set_source i (Report_error g e) s)
    | End_of_stream \<Rightarrow> Some (set_source i (Lock_EOF g) s)
    | Go \<Rightarrow> None)"

text \<open>Sending on a buffered channel.\<close>

definition put_message :: "nat \<Rightarrow> event_msg \<Rightarrow> (('w, 'z) monitor \<Rightarrow> ('w, 'z) monitor) \<Rightarrow> ('w, 'z) monitor \<Rightarrow> ('w, 'z) monitor option" where
  "put_message g m done s =
     (if m_closed s ! g then Some (s\<lparr>m_crashed := True\<rparr>)
      else guarded (length (m_C s ! g) < 100) (Some (done (s\<lparr>m_C := (m_C s)[g := m_C s ! g @ [m]]\<rparr>))))"

definition put_error :: "nat \<Rightarrow> monitor_error \<Rightarrow> (('w, 'z) monitor \<Rightarrow> ('w, 'z) monitor) \<Rightarrow> ('w, 'z) monitor \<Rightarrow> ('w, 'z) monitor option" where
  "put_error g err done s =
     (if m_closed s ! g then Some (s\<lparr>m_crashed := True\<rparr>)
      else guarded (m_errC s ! g = []) (Some (done (s\<lparr>m_errC := (m_errC s)[g := [err]]\<rparr>))))"

definition source_step :: "nat \<Rightarrow> source_choice \<Rightarrow> ('w, 'z) monitor \<Rightarrow> ('w, 'z) monitor option" where
  "source_step i c s =
     guarded (i < length (m_sources s)) (case m_sources s ! i of
        Decode g \<Rightarrow> decode_next i g c s
      | Report_error g e \<Rightarrow> guarded (c = Go) (put_error g DecodeError (decoded_event i g e) s)
      | Check_channel g e \<Rightarrow> guarded (c = Go)
          (with_rlock (\<lambda>s. set_source i (if m_enabled s \<and> m_current s = g then Put g e else Reader_done) s) s)
      | Put g e \<Rightarrow> guarded (c = Go) (put_message g (Event (transformEvent e)) (set_source i (Decode g)) s)
      | Lock_EOF g \<Rightarrow> guarded (c = Go)
          (with_rlock (\<lambda>s. if m_enabled s \<and> m_current s = g
             then set_source i (Put_EOF g) (s\<lparr>m_readers := m_readers s + 1\<rparr>) else set_source i Reader_done s) s)
      | Put_EOF g \<Rightarrow> guarded (c = Go)
          (put_message g EOFEvent (\<lambda>s. set_source i Reader_done (s\<lparr>m_readers := m_readers s - 1\<rparr>)) s)
      | Reader_done \<Rightarrow> None)"

definition set_sender :: "nat \<Rightarrow> sender_pc \<Rightarrow> ('w, 'z) monitor \<Rightarrow> ('w, 'z) monitor" where
  "set_sender i pc s = s\<lparr>m_senders := (m_senders s)[i := pc]\<rparr>"

text \<open>The deferred calls of \<open>sendEvent\<close>: \<open>Done\<close> and \<open>RUnlock\<close>.\<close>

definition sent :: "nat \<Rightarrow> ('w, 'z) monitor \<Rightarrow> ('w, 'z) monitor" where
  "sent i s = set_sender i Sent (s\<lparr>m_readers := m_readers s - 1, m_wait_group := m_wait_group s - 1\<rparr>)"

definition sender_step :: "nat \<Rightarrow> ('w, 'z) monitor \<Rightarrow> ('w, 'z) monitor option" where
  "sender_step i s =
     guarded (i < length (m_senders s)) (case m_senders s ! i of
        Start_sending e \<Rightarrow> with_rlock (\<lambda>s.
          if m_enabled s then set_sender i (if m_listeners s = [] then No_listeners else Sending e (m_listeners s))
            (s\<lparr>m_readers := m_readers s + 1, m_wait_group := m_wait_group s + 1\<rparr>)
          else set_sender i Sent s) s
      | No_listeners \<Rightarrow> put_error (m_current s) ErrNoListeners (sent i) s
      | Sending e [] \<Rightarrow> Some (sent i s)
      | Sending e (l # ls) \<Rightarrow> guarded (m_listener_closed s l) (Some (s\<lparr>m_crashed := True\<rparr>))
      | Sent \<Rightarrow> None)"

text \<open>A sender and the client meet at the listener.\<close>

definition deliver :: "nat \<Rightarrow> ('w, 'z) monitor \<Rightarrow> ('w, 'z) monitor option" where
  "deliver i s =
     guarded (i < length (m_senders s)) (case m_senders s ! i of
        Sending e (l # ls) \<Rightarrow> guarded (m_client s = Receive l \<and> \<not> m_listener_closed s l)
          (Some (set_sender i (Sending e ls) (s\<lparr>m_client := Handle l e, m_received := m_received s @ [e]\<rparr>)))
      | _ \<Rightarrow> None)"

datatype 'w choice =
    Step_client
  | Step_monitor nat monitor_choice
  | Step_source nat source_choice
  | Step_sender nat
  | Deliver nat
  | Outside 'w

fun monitor_next :: "'w env \<Rightarrow> 'w choice \<Rightarrow> ('w, 'z) monitor \<Rightarrow> ('w, 'z) monitor option" where
  "monitor_next E c s =
     (if m_crashed s then None
      else (case c of
          Step_client \<Rightarrow> client_step E s
        | Step_monitor i c \<Rightarrow> monitor_step i c s
        | Step_source i c \<Rightarrow> source_step i c s
        | Step_sender i \<Rightarrow> sender_step i s
        | Deliver i \<Rightarrow> deliver i s
        | Outside w \<Rightarrow> Some (s\<lparr>m_store := (m_store s)\<lparr>world := w\<rparr>\<rparr>)))"

definition monitor_start :: "('w, 'z) Store_scheme \<Rightarrow> ('w, 'z) monitor" where
  "monitor_start st = \<lparr>m_enabled = False, m_lastSeen = 0, m_current = 0, m_C = [], m_errC = [], m_closed = [], m_listeners = [],
     m_listener_closed = (\<lambda>_. False), m_wait_group = 0, m_readers = 0, m_writer = None, m_client = Check_enabled 0, m_monitors = [],
     m_sources = [], m_senders = [], m_requests = [], m_crashed = False, m_streamed = [], m_received = [], m_store = st\<rparr>"

text \<open>One step of any goroutine.\<close>

definition monitor_trans :: "'w env \<Rightarrow> ('w, 'z) monitor \<Rightarrow> ('w, 'z) monitor \<Rightarrow> bool" where
  "monitor_trans E s t \<longleftrightarrow> (\<exists>c. monitor_next E c s = Some t)"

lemma steps_with_trans: "steps_with (monitor_next E) cs s = Some t \<Longrightarrow> (monitor_trans E)\<^sup>*\<^sup>* s t"
proof (induction cs arbitrary: s)
  case (Cons c cs)
  then obtain u where u: "monitor_next E c s = Some u" "steps_with (monitor_next E) cs u = Some t"
    by (auto simp del: monitor_next.simps split: option.splits)
  from u(1) have "monitor_trans E s u" unfolding monitor_trans_def by blast
  from converse_rtranclp_into_rtranclp [of "monitor_trans E", OF this Cons.IH [OF u(2)]] show ?case .
qed simp

section \<open>Who holds the read lock\<close>

fun sender_holds :: "sender_pc \<Rightarrow> bool" where
  "sender_holds No_listeners = True"
| "sender_holds (Sending e ls) = True"
| "sender_holds _ = False"

fun source_holds :: "reader_pc \<Rightarrow> bool" where
  "source_holds (Put_EOF g) = True"
| "source_holds _ = False"

definition holders :: "('w, 'z) monitor \<Rightarrow> nat" where
  "holders s = length (filter sender_holds (m_senders s)) + length (filter source_holds (m_sources s))"

lemma filter_update:
  "i < length xs \<Longrightarrow> length (filter P (xs[i := y])) + (if P (xs ! i) then 1 else 0) = length (filter P xs) + (if P y then 1 else 0)"
proof (induction xs arbitrary: i)
  case (Cons x xs)
  then show ?case by (cases i) auto
qed simp

lemma with_lock_Some:
  assumes "with_lock who body s = Some t"
  obtains "m_writer s = None" "t = s\<lparr>m_writer := Some who\<rparr>"
  | u where "m_writer s = Some who" "m_readers s = 0" "body s = Some u" "t = u\<lparr>m_writer := None\<rparr>"
  using assms by (auto simp: with_lock_def split: option.splits if_splits)

lemma with_rlock_Some: "with_rlock body s = Some t \<longleftrightarrow> m_writer s = None \<and> t = body s"
  by (auto simp: with_rlock_def)

lemma after_call_Some:
  assumes "after_call l r f s = Some t"
  obtains x st where "r = (Returns x, st)" "t = s\<lparr>m_client := f x, m_store := st\<rparr>"
  | p st where "r = (Panics p, st)" "t = s\<lparr>m_client := Remove_listener l True, m_store := st\<rparr>"
  | n st where "r = (Exits n, st)" "t = s\<lparr>m_crashed := True, m_store := st\<rparr>"
proof -
  obtain q st where r: "r = (q, st)" by (cases r)
  show thesis
  proof (cases q)
    case (Returns x)
    with r assms show thesis by (intro that(1) [of x st]) (simp_all add: after_call_def)
  next
    case (Panics p)
    with r assms show thesis by (intro that(2) [of p st]) (simp_all add: after_call_def)
  next
    case (Exits n)
    with r assms show thesis by (intro that(3) [of n st]) (simp_all add: after_call_def)
  next
    case Blocks
    with r assms show thesis by (simp add: after_call_def)
  qed
qed

text \<open>The functions that run under the write lock touch neither the senders nor the readers.\<close>

lemma body_frame [simp]:
  "m_senders (addListener l s) = m_senders s" "m_sources (addListener l s) = m_sources s" "m_readers (addListener l s) = m_readers s"
  "m_senders (removeListener l s) = m_senders s" "m_sources (removeListener l s) = m_sources s" "m_readers (removeListener l s) = m_readers s"
  "m_senders (closeListeners s) = m_senders s" "m_sources (closeListeners s) = m_sources s" "m_readers (closeListeners s) = m_readers s"
  "m_senders (enableEventMonitoring s) = m_senders s" "m_sources (enableEventMonitoring s) = m_sources s"
  "m_readers (enableEventMonitoring s) = m_readers s"
  "m_senders (updateLastSeen e s) = m_senders s" "m_sources (updateLastSeen e s) = m_sources s" "m_readers (updateLastSeen e s) = m_readers s"
  "m_senders (leave_round l p s) = m_senders s" "m_sources (leave_round l p s) = m_sources s" "m_readers (leave_round l p s) = m_readers s"
  "m_senders (set_monitor i pc s) = m_senders s" "m_sources (set_monitor i pc s) = m_sources s" "m_readers (set_monitor i pc s) = m_readers s"
  by (simp_all add: addListener_def removeListener_def closeListeners_def enableEventMonitoring_def updateLastSeen_def
      leave_round_def set_monitor_def)

lemma disable_Some:
  assumes "disableEventMonitoring s = Some t"
  shows "m_wait_group s = int (length (m_listeners s))"
    "t = (closeListeners s)\<lparr>m_enabled := False, m_closed := (if m_enabled s then (m_closed s)[m_current s := True] else m_closed s)\<rparr>"
  using assms by (auto simp: disableEventMonitoring_def closeListeners_def Let_def split: if_splits)

lemma disable_frame:
  assumes "disableEventMonitoring s = Some t"
  shows "m_senders t = m_senders s" "m_sources t = m_sources s" "m_readers t = m_readers s"
    "m_client t = m_client s" "m_store t = m_store s" "m_received t = m_received s"
  using disable_Some(2) [OF assms] by (simp_all add: closeListeners_def)

lemma guarded_Some [simp]: "guarded b t = Some u \<longleftrightarrow> b \<and> t = Some u"
  by (simp add: guarded_def)


section \<open>A client that waits for a sender\<close>

definition same_client :: "('w, 'z) monitor \<Rightarrow> ('w, 'z) monitor \<Rightarrow> bool" where
  "same_client s t \<longleftrightarrow> m_client t = m_client s \<and> m_listener_closed t = m_listener_closed s
     \<and> containers (m_store t) = containers (m_store s) \<and> m_received t = m_received s"

lemma with_lock_waits:
  assumes "m_readers s \<noteq> 0"
  shows "with_lock who body s = Some t \<longleftrightarrow> m_writer s = None \<and> t = s\<lparr>m_writer := Some who\<rparr>"
  using assms by (auto simp: with_lock_def split: option.splits if_splits)

lemma monitor_waits:
  assumes "monitor_step i c s = Some t" and "m_readers s \<noteq> 0"
  shows "same_client s t \<and> m_senders t = m_senders s \<and> m_readers t = m_readers s
    \<and> (m_sources t = m_sources s \<or> (\<exists>g. m_sources t = m_sources s @ [Decode g]))"
  using assms(1)
  by (cases "m_monitors s ! i")
    (auto simp: monitor_step_def with_rlock_Some with_lock_waits [OF assms(2)] same_client_def set_monitor_def
      connect_def select_event_def select_error_def Let_def split: if_splits list.splits)

text \<open>The sender at \<open>i\<close> waits for the listener \<open>l\<close>.\<close>

definition waits_for :: "nat \<Rightarrow> nat \<Rightarrow> ('w, 'z) monitor \<Rightarrow> bool" where
  "waits_for i l s \<longleftrightarrow> i < length (m_senders s) \<and> (\<exists>e ls. m_senders s ! i = Sending e (l # ls))
     \<and> \<not> m_listener_closed s l"

definition readers_counted :: "('w, 'z) monitor \<Rightarrow> bool" where
  "readers_counted s \<longleftrightarrow> m_readers s = holders s"

lemma waits_holds: "waits_for i l s \<Longrightarrow> readers_counted s \<Longrightarrow> m_readers s \<noteq> 0"
proof
  assume "waits_for i l s" "readers_counted s" "m_readers s = 0"
  then have "filter sender_holds (m_senders s) = []" "i < length (m_senders s)" "sender_holds (m_senders s ! i)"
    by (auto simp: waits_for_def readers_counted_def holders_def)
  then show False by (auto simp: filter_empty_conv)
qed

lemma source_waits:
  assumes "source_step i c s = Some t" and "readers_counted s"
  shows "same_client s t \<and> m_senders t = m_senders s \<and> readers_counted t"
proof -
  note counts = filter_update [of i "m_sources s" source_holds]
  note defs = source_step_def with_rlock_Some same_client_def readers_counted_def holders_def set_source_def
  show ?thesis
  proof (cases "m_sources s ! i")
    case (Decode g)
    with assms counts show ?thesis by (cases c) (auto simp: defs decode_next_def decoded_event_def)
  next
    case (Put_EOF g)
    with assms counts [of Reader_done] show ?thesis by (auto simp: defs put_message_def split: if_splits)
  qed (use assms counts in \<open>auto simp: defs put_message_def put_error_def decoded_event_def split: if_splits\<close>)
qed

lemma sender_waits:
  assumes "sender_step j s = Some t" and "readers_counted s" and "waits_for i l s"
  shows "same_client s t \<and> waits_for i l t \<and> readers_counted t"
proof -
  note counts = filter_update [of j "m_senders s" sender_holds]
  note defs = sender_step_def with_rlock_Some same_client_def readers_counted_def holders_def set_sender_def waits_for_def
    sent_def
  show ?thesis
  proof (cases "m_senders s ! j")
    case (Start_sending e)
    with assms counts show ?thesis by (auto simp: defs nth_list_update split: if_splits)
  next
    case No_listeners
    with assms counts [of Sent] show ?thesis by (auto simp: defs put_error_def nth_list_update split: if_splits)
  next
    case (Sending e ls)
    with assms counts [of Sent] show ?thesis by (cases ls) (auto simp: defs nth_list_update split: if_splits)
  qed (use assms in \<open>auto simp: defs\<close>)
qed

text \<open>The client is about to remove the listener that a sender is waiting for.\<close>

definition hung :: "('w, 'z) monitor \<Rightarrow> bool" where
  "hung s \<longleftrightarrow> readers_counted s \<and> (\<exists>l p. m_client s = Remove_listener l p) \<and> (\<exists>i l. waits_for i l s)"

lemma hung_step:
  assumes "hung s" and "monitor_next E c s = Some t"
  shows "hung t \<and> same_client s t"
proof -
  from assms(1) obtain i l where w: "waits_for i l s" "readers_counted s" unfolding hung_def by blast
  from waits_holds [OF w] have r: "m_readers s \<noteq> 0" .
  have "same_client s t \<and> waits_for i l t \<and> readers_counted t"
  proof (cases c)
    case Step_client
    with assms r w show ?thesis
      by (auto simp: hung_def client_step_def with_lock_waits same_client_def waits_for_def readers_counted_def
          holders_def split: if_splits)
  next
    case (Step_monitor j d)
    with assms(2) monitor_waits [of j d s t] r w show ?thesis
      by (auto simp: waits_for_def readers_counted_def holders_def same_client_def split: if_splits)
  next
    case (Step_source j d)
    with assms(2) source_waits [of j d s t] w show ?thesis
      by (auto simp: waits_for_def same_client_def split: if_splits)
  next
    case (Step_sender j)
    with assms(2) sender_waits [of j s t i l] w show ?thesis by (auto split: if_splits)
  next
    case (Deliver j)
    with assms show ?thesis by (auto simp: deliver_def hung_def split: if_splits sender_pc.splits list.splits)
  next
    case (Outside v)
    with assms(2) w show ?thesis
      by (auto simp: waits_for_def same_client_def readers_counted_def holders_def split: if_splits)
  qed
  with assms(1) show ?thesis by (auto simp: hung_def same_client_def)
qed


lemma hung_forever:
  "hung s \<Longrightarrow> steps_with (monitor_next E) cs s = Some t \<Longrightarrow> hung t \<and> same_client s t"
proof (induction cs arbitrary: s)
  case Nil
  then show ?case by (simp add: same_client_def)
next
  case (Cons c cs)
  from Cons.prems(2) obtain u where u: "monitor_next E c s = Some u" "steps_with (monitor_next E) cs u = Some t"
    by (auto simp del: monitor_next.simps split: option.splits)
  from hung_step [OF Cons.prems(1) u(1)] Cons.IH [OF _ u(2)] show ?case
    by (auto simp: same_client_def)
qed

text \<open>An event arrives between the call of \<open>AddEventListener\<close> and the end of \<open>getContainers\<close>.\<close>

definition subscribe :: "'w choice list" where
  "subscribe = [Step_client, Step_client, Step_client, Step_client, Step_client,
     Step_monitor 0 Continue, Step_monitor 0 Continue, Step_monitor 0 Connected]"

definition event_arrives :: "raw_event \<Rightarrow> 'w choice list" where
  "event_arrives e = [Step_source 0 (Decoded e), Step_source 0 Go, Step_source 0 Go,
     Step_monitor 0 Continue, Step_monitor 0 Take_event, Step_monitor 0 Continue, Step_monitor 0 Continue]"

definition listening :: "client_pc \<Rightarrow> ('w, 'z) monitor \<Rightarrow> bool" where
  "listening pc s \<longleftrightarrow> m_enabled s \<and> m_current s = 0 \<and> m_C s = [[]] \<and> m_errC s = [[]] \<and> m_closed s = [False]
     \<and> m_listeners s = [0] \<and> \<not> m_listener_closed s 0 \<and> m_writer s = None \<and> m_client s = pc \<and> m_monitors s = [Loop]
     \<and> m_sources s = [Decode 0] \<and> \<not> m_crashed s \<and> m_received s = []"

lemmas monitor_run = client_step_def monitor_step_def source_step_def sender_step_def deliver_def with_lock_def with_rlock_def
  enableEventMonitoring_def addListener_def updateLastSeen_def set_monitor_def set_source_def set_sender_def connect_def
  select_event_def select_error_def put_message_def decode_next_def decoded_event_def guarded_def Let_def

lemma subscribe_run:
  "\<exists>s. steps_with (monitor_next E) subscribe (monitor_start st) = Some s \<and> listening (List_containers 0) s
     \<and> m_senders s = [] \<and> m_readers s = 0 \<and> m_wait_group s = 1 \<and> m_store s = st \<and> m_streamed s = []"
  by (simp add: subscribe_def monitor_start_def monitor_run listening_def)

lemma event_arrives_run:
  assumes "listening pc s" and "m_readers s = 0" and "re_Time e \<noteq> 0"
  shows "\<exists>t. steps_with (monitor_next E) (event_arrives e) s = Some t \<and> listening pc t
     \<and> m_senders t = m_senders s @ [Start_sending (transformEvent e)] \<and> m_readers t = 0 \<and> m_store t = m_store s
     \<and> m_streamed t = m_streamed s @ [e]"
  using assms by (simp add: event_arrives_def monitor_run listening_def)

lemma listening_hung:
  assumes "listening (List_containers 0) s" and "m_senders s = [Start_sending e]" and "m_readers s = 0"
    and "getContainers E (m_store s) = (r, st')" and "r = Panics p \<or> r = Returns (Some err)"
  shows "\<exists>t. steps_with (monitor_next E) [Step_sender 0, Step_client] s = Some t
     \<and> m_client t = Remove_listener 0 (r = Panics p) \<and> hung t \<and> m_store t = st' \<and> m_received t = []"
  using assms by (auto simp: monitor_run listening_def after_call_def hung_def readers_counted_def holders_def waits_for_def)

text \<open>C8: If an event arrives while \<open>getContainers\<close> runs, and \<open>getContainers\<close> then fails, whether with an error or
  because a container is gone and it panics, the client hangs for ever: the goroutine that sends the event waits
  for the client to receive it and holds the read lock, and the client's deferred \<open>RemoveEventListener\<close> waits for
  the write lock. From then on, whatever the daemon and the other goroutines do, the client receives nothing and
  the store of containers does not change; in particular the retry after a second is not reached, nor does the
  panic end the process.\<close>

theorem client_hangs:
  assumes "getContainers E st = (r, st')" and "r = Panics p \<or> r = Returns (Some err)" and "re_Time e \<noteq> 0"
  shows "\<exists>s. steps_with (monitor_next E) (subscribe @ event_arrives e @ [Step_sender 0, Step_client]) (monitor_start st) = Some s
    \<and> (\<forall>cs t. steps_with (monitor_next E) cs s = Some t \<longrightarrow>
         m_client t = Remove_listener 0 (r = Panics p) \<and> m_received t = [] \<and> containers (m_store t) = containers st')"
proof -
  from subscribe_run [of E st] obtain s1 where
    s1: "steps_with (monitor_next E) subscribe (monitor_start st) = Some s1" "listening (List_containers 0) s1"
      "m_senders s1 = []" "m_readers s1 = 0" "m_store s1 = st" by blast
  from event_arrives_run [OF s1(2,4) assms(3), of E] s1 obtain s2 where
    s2: "steps_with (monitor_next E) (event_arrives e) s1 = Some s2" "listening (List_containers 0) s2"
      "m_senders s2 = [Start_sending (transformEvent e)]" "m_readers s2 = 0" "m_store s2 = st" by auto
  from listening_hung [OF s2(2,3,4), of E r st'] s2(5) assms(1,2) obtain s3 where
    s3: "steps_with (monitor_next E) [Step_sender 0, Step_client] s2 = Some s3" "hung s3"
      "m_client s3 = Remove_listener 0 (r = Panics p)" "m_store s3 = st'" "m_received s3 = []" by metis
  from steps_with_then [OF s1(1) steps_with_then [OF s2(1) s3(1)]] hung_forever [OF s3(2)] s3(3-5)
  show ?thesis by (auto simp: same_client_def)
qed

definition failing_env :: "unit env" where
  "failing_env = (demo_env [] demo_inspect)\<lparr>docker_ListContainers := (\<lambda>w. (Inl (ExtErr ''EOF''), w))\<rparr>"

definition demo_event :: "string \<Rightarrow> string \<Rightarrow> int \<Rightarrow> raw_event" where
  "demo_event status k time = \<lparr>re_Action = [], re_Type = [], re_ActorID = [], re_Attributes = Map.empty, re_Status = status,
     re_ID = k, re_From = [], re_Time = time\<rparr>"

lemma demo_containers:
  "getContainers failing_env demo_store = (Returns (Some (ExtErr ''EOF'')), demo_store)"
  "getContainers (demo_env [''c1'', ''c9''] demo_inspect) demo_store =
     (Panics NilDeref, demo_store\<lparr>containers := [''c1'' \<mapsto> \<lparr>State = Running, PID = 42\<rparr>]\<rparr>)"
  "getContainers (demo_env [] demo_inspect) demo_store = (Returns None, demo_store)"
  by (simp_all add: getContainers_def failing_env_def sync_container_run inspection_def demo_inspect_def demo_state_def
      inspected_state_def demo_store_def go_seq_def Let_def go_run)

lemma handleEvent_state:
  assumes "\<not> lock s" and "event_state (re_Status e) = Some state" and "inspection E (re_ID e) (world s) = Inr (Some d)"
  shows "\<exists>s'. handleEvent E (api_event e) s = (Returns (), s') \<and> \<not> lock s' \<and> containers s' =
    (containers s)(re_ID e := if state = Destroyed then None else Some \<lparr>State = state, PID = ds_Pid d\<rparr>)"
  using assms by (simp add: handleEvent_run api_event_def Let_def)

lemma listening_synced:
  assumes "listening (List_containers 0) s" and "getContainers E (m_store s) = (Returns None, st')"
  shows "\<exists>t. steps_with (monitor_next E) [Step_client] s = Some t \<and> listening (Receive 0) t
     \<and> m_senders t = m_senders s \<and> m_readers t = m_readers s \<and> m_store t = st' \<and> m_streamed t = m_streamed s"
  using assms by (simp add: monitor_run listening_def after_call_def)

text \<open>Both senders hold the read lock before the client receives.\<close>

definition deliver_reversed :: "'w choice list" where
  "deliver_reversed = [Step_sender 0, Step_sender 1, Deliver 1, Step_client, Step_sender 1, Deliver 0, Step_client, Step_sender 0]"

lemma deliver_reversed_run:
  assumes "listening (Receive 0) s" and "m_senders s = [Start_sending e1, Start_sending e2]" and "m_readers s = 0"
    and "handleEvent E (api_event e2) (m_store s) = (Returns (), s1)" and "handleEvent E (api_event e1) s1 = (Returns (), s2)"
  shows "\<exists>t. steps_with (monitor_next E) deliver_reversed s = Some t \<and> m_streamed t = m_streamed s \<and> m_received t = [e2, e1]
     \<and> m_client t = Receive 0 \<and> m_C t = [[]] \<and> m_senders t = [Sent, Sent] \<and> m_store t = s2"
  using assms by (simp add: deliver_reversed_def monitor_run listening_def after_call_def sent_def)

text \<open>C19: The events may be received in another order than the daemon sent them, since every event is sent by its own
  goroutine: if two events about one container arrive one after the other, there is a run in which the store ends,
  with nothing left to be delivered, in the state of the first.\<close>

theorem events_reordered:
  assumes "getContainers E st = (Returns None, st')" and "\<not> lock st'" and "\<And>w. inspection E k w = Inr (Some d)"
    and "re_Time e1 \<noteq> 0" and "re_Time e2 \<noteq> 0" and "re_ID (transformEvent e1) = k" and "re_ID (transformEvent e2) = k"
    and "event_state (re_Status (transformEvent e1)) = Some state1" and "event_state (re_Status (transformEvent e2)) = Some state2"
  shows "\<exists>cs s. steps_with (monitor_next E) cs (monitor_start st) = Some s \<and> m_streamed s = [e1, e2]
    \<and> m_received s = [transformEvent e2, transformEvent e1] \<and> m_client s = Receive 0 \<and> m_C s = [[]] \<and> m_senders s = [Sent, Sent]
    \<and> containers (m_store s) k = (if state1 = Destroyed then None else Some \<lparr>State = state1, PID = ds_Pid d\<rparr>)"
proof -
  from subscribe_run [of E st] obtain s1 where
    s1: "steps_with (monitor_next E) subscribe (monitor_start st) = Some s1" "listening (List_containers 0) s1"
      "m_senders s1 = []" "m_readers s1 = 0" "m_store s1 = st" "m_streamed s1 = []" by blast
  from listening_synced [OF s1(2), of E st'] assms(1) s1 obtain s2 where
    s2: "steps_with (monitor_next E) [Step_client] s1 = Some s2" "listening (Receive 0) s2"
      "m_senders s2 = []" "m_readers s2 = 0" "m_store s2 = st'" "m_streamed s2 = []" by auto
  from event_arrives_run [OF s2(2,4) assms(4), of E] s2 obtain s3 where
    s3: "steps_with (monitor_next E) (event_arrives e1) s2 = Some s3" "listening (Receive 0) s3" "m_readers s3 = 0"
      "m_senders s3 = [Start_sending (transformEvent e1)]" "m_store s3 = st'" "m_streamed s3 = [e1]" by auto
  from event_arrives_run [OF s3(2,3) assms(5), of E] s3 obtain s4 where
    s4: "steps_with (monitor_next E) (event_arrives e2) s3 = Some s4" "listening (Receive 0) s4" "m_readers s4 = 0"
      "m_senders s4 = [Start_sending (transformEvent e1), Start_sending (transformEvent e2)]"
      "m_store s4 = st'" "m_streamed s4 = [e1, e2]" by auto
  from handleEvent_state [OF assms(2,9), of E d] assms(3,7) obtain h2 where
    h2: "handleEvent E (api_event (transformEvent e2)) st' = (Returns (), h2)" "\<not> lock h2" by auto
  from handleEvent_state [OF h2(2) assms(8), of E d] assms(3,6) obtain h1 where
    h1: "handleEvent E (api_event (transformEvent e1)) h2 = (Returns (), h1)"
      "containers h1 k = (if state1 = Destroyed then None else Some \<lparr>State = state1, PID = ds_Pid d\<rparr>)" by auto
  from deliver_reversed_run [OF s4(2,4,3), of E h2 h1] h2(1) h1(1) s4 obtain s5 where
    s5: "steps_with (monitor_next E) deliver_reversed s4 = Some s5" "m_streamed s5 = [e1, e2]"
      "m_received s5 = [transformEvent e2, transformEvent e1]" "m_client s5 = Receive 0" "m_C s5 = [[]]"
      "m_senders s5 = [Sent, Sent]" "m_store s5 = h1" by auto
  show ?thesis
    by (intro exI conjI, rule steps_with_then [OF s1(1) steps_with_then [OF s2(1) steps_with_then [OF s3(1)
      steps_with_then [OF s4(1) s5(1)]]]]) (simp_all add: s5 h1(2))
qed

theorem client_hangs_witness:
  "(\<exists>cs s. steps_with (monitor_next failing_env) cs (monitor_start demo_store) = Some s
      \<and> m_client s = Remove_listener 0 False \<and> containers (m_store s) = [''c1'' \<mapsto> \<lparr>State = Running, PID = 42\<rparr>])
   \<and> (\<exists>cs s. steps_with (monitor_next (demo_env [''c1'', ''c9''] demo_inspect)) cs (monitor_start demo_store) = Some s
      \<and> m_client s = Remove_listener 0 True \<and> containers (m_store s) = [''c1'' \<mapsto> \<lparr>State = Running, PID = 42\<rparr>])"
proof (rule conjI)
  from client_hangs [OF demo_containers(1), of _ _ "demo_event ''die'' ''c1'' 1"] obtain cs s where
    s: "steps_with (monitor_next failing_env) cs (monitor_start demo_store) = Some s"
      "\<And>cs t. steps_with (monitor_next failing_env) cs s = Some t \<Longrightarrow>
         m_client t = Remove_listener 0 False \<and> m_received t = [] \<and> containers (m_store t) = containers demo_store"
    by (auto simp: demo_event_def simp del: monitor_next.simps)
  from s(2) [of "[]" s] s(1) show "\<exists>cs s. steps_with (monitor_next failing_env) cs (monitor_start demo_store) = Some s
      \<and> m_client s = Remove_listener 0 False \<and> containers (m_store s) = [''c1'' \<mapsto> \<lparr>State = Running, PID = 42\<rparr>]"
    by (auto simp: demo_store_def)
next
  let ?E = "demo_env [''c1'', ''c9''] demo_inspect"
  from client_hangs [OF demo_containers(2), of _ _ "demo_event ''die'' ''c1'' 1"] obtain cs s where
    s: "steps_with (monitor_next ?E) cs (monitor_start demo_store) = Some s"
      "\<And>cs t. steps_with (monitor_next ?E) cs s = Some t \<Longrightarrow>
         m_client t = Remove_listener 0 True \<and> m_received t = []
         \<and> containers (m_store t) = [''c1'' \<mapsto> \<lparr>State = Running, PID = 42\<rparr>]"
    by (auto simp: demo_event_def simp del: monitor_next.simps)
  from s(2) [of "[]" s] s(1) show "\<exists>cs s. steps_with (monitor_next ?E) cs (monitor_start demo_store) = Some s
      \<and> m_client s = Remove_listener 0 True \<and> containers (m_store s) = [''c1'' \<mapsto> \<lparr>State = Running, PID = 42\<rparr>]"
    by auto
qed

theorem events_reordered_witness:
  "\<exists>cs s. steps_with (monitor_next (demo_env [] demo_inspect)) cs (monitor_start demo_store) = Some s
    \<and> m_streamed s = [demo_event ''start'' ''c1'' 1, demo_event ''die'' ''c1'' 2] \<and> m_client s = Receive 0
    \<and> m_senders s = [Sent, Sent] \<and> containers (m_store s) ''c1'' = Some \<lparr>State = Running, PID = 42\<rparr>"
proof -
  have d: "inspection (demo_env [] demo_inspect) ''c1'' w = Inr (Some (demo_state True False 42))" for w
    by (simp add: inspection_def demo_inspect_def)
  have e: "re_ID (transformEvent (demo_event status ''c1'' time)) = ''c1''"
    "re_Status (transformEvent (demo_event status ''c1'' time)) = status"
    "re_Time (demo_event status ''c1'' time) = time" "\<not> lock demo_store" for status time
    by (simp_all add: transformEvent_def demo_event_def demo_store_def Let_def)
  from events_reordered [OF demo_containers(3) _ d, of "demo_event ''start'' ''c1'' 1" "demo_event ''die'' ''c1'' 2" Running Stopped]
  obtain cs s where "steps_with (monitor_next (demo_env [] demo_inspect)) cs (monitor_start demo_store) = Some s"
    "m_streamed s = [demo_event ''start'' ''c1'' 1, demo_event ''die'' ''c1'' 2]" "m_client s = Receive 0"
    "m_senders s = [Sent, Sent]" "containers (m_store s) ''c1'' = Some \<lparr>State = Running, PID = 42\<rparr>"
    by (auto simp: e event_state_def demo_state_def simp del: monitor_next.simps)
  then show ?thesis by blast
qed

section \<open>A channel that is closed\<close>

text \<open>The reader of the connection has checked that the monitor is enabled and is about to put an event into the
  channel; when the client leaves its round because \<open>getContainers\<close> has failed, the channel is closed, and the
  reader's panic, which nothing recovers, ends the process.\<close>

lemma send_on_closed_channel:
  assumes "getContainers E st = (Returns (Some err), st')" and "re_Time e \<noteq> 0"
  shows "\<exists>s. steps_with (monitor_next E) (subscribe @ [Step_source 0 (Decoded e), Step_source 0 Go] @ replicate 6 Step_client
      @ [Step_source 0 Go]) (monitor_start st) = Some s \<and> m_crashed s"
proof -
  from subscribe_run [of E st] obtain s1 where
    s1: "steps_with (monitor_next E) subscribe (monitor_start st) = Some s1" "listening (List_containers 0) s1"
      "m_senders s1 = []" "m_readers s1 = 0" "m_store s1 = st" "m_wait_group s1 = 1" by blast
  from s1(2-) assms have "\<exists>s. steps_with (monitor_next E) ([Step_source 0 (Decoded e), Step_source 0 Go] @ replicate 6 Step_client
      @ [Step_source 0 Go]) s1 = Some s \<and> m_crashed s"
    by (simp add: monitor_run listening_def after_call_def removeListener_def disableEventMonitoring_def closeListeners_def
        leave_round_def numeral_eq_Suc)
  then show ?thesis using steps_with_then [OF s1(1)] by blast
qed

end
