(* ===== verification/Docker_Monitor_Safety.thy ===== *)
theory Docker_Monitor_Safety
  imports Docker_Monitor "HOL-Library.Multiset"
begin

text \<open>
  What the event monitor guarantees however its goroutines are interleaved: the client has at most one listener,
  closing the listeners under the write lock never waits, and no event is received that the daemon did not send, or
  more often than it sent it.
\<close>

section \<open>The listener of the client\<close>

definition listeners_of :: "client_pc \<Rightarrow> nat list \<Rightarrow> bool" where
  "listeners_of pc ls = (case pc of
      List_containers l \<Rightarrow> ls = [] \<or> ls = [l]
    | Receive l \<Rightarrow> ls = [] \<or> ls = [l]
    | Handle l e \<Rightarrow> ls = [] \<or> ls = [l]
    | Remove_listener l p \<Rightarrow> ls = [] \<or> ls = [l]
    | _ \<Rightarrow> ls = [])"

definition sends_once :: "sender_pc \<Rightarrow> bool" where
  "sends_once pc = (case pc of Sending e ls \<Rightarrow> length ls \<le> 1 | _ \<Rightarrow> True)"

text \<open>The wait group counts the listeners and the senders that hold the read lock.\<close>

definition monitor_ok :: "('w, 'z) monitor \<Rightarrow> bool" where
  "monitor_ok s \<longleftrightarrow> listeners_of (m_client s) (m_listeners s) \<and> (\<forall>x \<in> set (m_senders s). sends_once x)
     \<and> (m_monitors s \<noteq> [] \<longrightarrow> m_current s < length (m_C s)) \<and> readers_counted s
     \<and> m_wait_group s = int (length (m_listeners s)) + int (length (filter sender_holds (m_senders s)))"

lemmas monitor_ok_defs = monitor_ok_def readers_counted_def holders_def

lemma start_ok: "monitor_ok (monitor_start st)"
  by (simp add: monitor_ok_defs monitor_start_def listeners_of_def)

lemma client_ok:
  assumes "client_step E s = Some t" and "monitor_ok s"
  shows "monitor_ok t"
proof (cases "m_client s")
  case (Check_enabled l)
  with assms show ?thesis by (auto simp: client_step_def with_rlock_Some monitor_ok_defs listeners_of_def)
next
  case (Enable l)
  with assms show ?thesis
    by (cases "m_enabled s")
      (auto simp: client_step_def monitor_ok_defs listeners_of_def enableEventMonitoring_def elim!: with_lock_Some)
next
  case (Add_listener l)
  with assms show ?thesis
    by (auto simp: client_step_def monitor_ok_defs listeners_of_def addListener_def elim!: with_lock_Some)
next
  case (List_containers l)
  with assms show ?thesis
    by (auto simp: client_step_def monitor_ok_defs listeners_of_def elim!: after_call_Some split: option.splits)
next
  case (Receive l)
  with assms show ?thesis by (auto simp: client_step_def monitor_ok_defs listeners_of_def split: if_splits)
next
  case (Handle l e)
  with assms show ?thesis by (auto simp: client_step_def monitor_ok_defs listeners_of_def elim!: after_call_Some)
next
  case (Remove_listener l p)
  with assms show ?thesis
    by (auto simp: client_step_def monitor_ok_defs listeners_of_def removeListener_def elim!: with_lock_Some)
next
  case (Count_listeners l p)
  with assms show ?thesis
    by (auto simp: client_step_def with_rlock_Some monitor_ok_defs listeners_of_def leave_round_def split: if_splits)
next
  case (Disable l p)
  with assms show ?thesis
    by (auto simp: client_step_def monitor_ok_defs listeners_of_def leave_round_def disableEventMonitoring_def
        closeListeners_def Let_def elim!: with_lock_Some split: if_splits)
next
  case (Sleep l)
  with assms show ?thesis by (auto simp: client_step_def monitor_ok_defs listeners_of_def)
qed

text \<open>\<open>disableEventMonitoring\<close> waits for the group while it holds the write lock. The group counts nobody then.\<close>

lemma disable_never_waits:
  assumes "monitor_ok s" and "m_readers s = 0"
  shows "\<exists>t. disableEventMonitoring s = Some t"
  using assms by (auto simp: monitor_ok_defs disableEventMonitoring_def closeListeners_def Let_def)

lemma listeners_of_Nil [simp]: "listeners_of pc []"
  by (simp add: listeners_of_def split: client_pc.split)

lemma monitor_step_ok:
  assumes "monitor_step i c s = Some t" and "monitor_ok s"
  shows "monitor_ok t"
proof (cases "m_monitors s ! i")
  case Wait_listener
  with assms show ?thesis by (auto simp: monitor_step_def with_rlock_Some monitor_ok_defs set_monitor_def)
next
  case (Read_channels k)
  with assms show ?thesis by (auto simp: monitor_step_def with_rlock_Some monitor_ok_defs set_monitor_def)
next
  case (Connect k g)
  with assms show ?thesis by (auto simp: monitor_step_def connect_def monitor_ok_defs set_monitor_def split: if_splits)
next
  case Loop
  with assms show ?thesis by (auto simp: monitor_step_def with_rlock_Some monitor_ok_defs set_monitor_def)
next
  case Select
  with assms show ?thesis
    by (auto simp: monitor_step_def select_event_def select_error_def monitor_ok_defs set_monitor_def Let_def
        split: if_splits list.splits)
next
  case (Update_last_seen e)
  with assms show ?thesis
    by (cases "m_lastSeen s < re_Time e")
      (auto simp: monitor_step_def monitor_ok_defs set_monitor_def updateLastSeen_def sends_once_def elim!: with_lock_Some)
next
  case Disable_monitoring
  with assms show ?thesis
    by (auto simp: monitor_step_def monitor_ok_defs set_monitor_def disableEventMonitoring_def closeListeners_def Let_def
        elim!: with_lock_Some split: if_splits)
next
  case Monitor_done
  with assms show ?thesis by (simp add: monitor_step_def)
qed

lemma decoded_event_fields:
  "decoded_event i g e s = s\<lparr>m_sources := (m_sources s)[i := if re_Time e = 0 then Decode g else Check_channel g e],
     m_streamed := m_streamed s @ (if re_Time e = 0 then [] else [e])\<rparr>"
  by (simp add: decoded_event_def set_source_def)

lemma source_ok:
  assumes "source_step i c s = Some t" and "monitor_ok s"
  shows "monitor_ok t"
proof -
  note counts = filter_update [of i "m_sources s" source_holds]
  note defs = source_step_def with_rlock_Some monitor_ok_defs set_source_def
  show ?thesis
  proof (cases "m_sources s ! i")
    case (Decode g)
    with assms counts show ?thesis by (cases c) (auto simp: defs decode_next_def decoded_event_fields)
  next
    case (Put_EOF g)
    with assms counts [of Reader_done] show ?thesis by (auto simp: defs put_message_def split: if_splits)
  qed (use assms counts in \<open>auto simp: defs put_message_def put_error_def decoded_event_fields split: if_splits\<close>)
qed

lemma set_list_update: "x \<in> set (xs[i := y]) \<Longrightarrow> x = y \<or> x \<in> set xs"
  using set_update_subset_insert by fast

lemma sender_ok:
  assumes "sender_step i s = Some t" and "monitor_ok s"
  shows "monitor_ok t"
proof -
  note counts = filter_update [of i "m_senders s" sender_holds]
  have once: "listeners_of (m_client s) (m_listeners s) \<Longrightarrow> length (m_listeners s) \<le> 1"
    by (auto simp: listeners_of_def split: client_pc.splits)
  note defs = sender_step_def with_rlock_Some monitor_ok_defs set_sender_def sent_def
  show ?thesis
  proof (cases "m_senders s ! i")
    case (Start_sending e)
    with assms counts once show ?thesis by (auto simp: defs sends_once_def dest!: set_list_update split: if_splits)
  next
    case No_listeners
    with assms counts [of Sent] show ?thesis
      by (auto simp: defs put_error_def sends_once_def dest!: set_list_update split: if_splits)
  next
    case (Sending e ls)
    with assms counts [of Sent] show ?thesis
      by (cases ls) (auto simp: defs sends_once_def dest!: set_list_update split: if_splits)
  qed (use assms in \<open>auto simp: defs\<close>)
qed

lemma deliver_ok:
  assumes "deliver i s = Some t" and "monitor_ok s"
  shows "monitor_ok t"
proof -
  from assms(1) obtain e l ls where i: "i < length (m_senders s)" "m_senders s ! i = Sending e (l # ls)" "m_client s = Receive l"
    "t = set_sender i (Sending e ls) (s\<lparr>m_client := Handle l e, m_received := m_received s @ [e]\<rparr>)"
    by (auto simp: deliver_def split: sender_pc.splits list.splits)
  from i(1,2) assms(2) have "sends_once (Sending e (l # ls))" unfolding monitor_ok_def by (metis nth_mem)
  with i assms(2) filter_update [of i "m_senders s" sender_holds "Sending e ls"] show ?thesis
    by (auto simp: monitor_ok_defs set_sender_def listeners_of_def sends_once_def dest!: set_list_update)
qed

lemma monitor_next_ok:
  assumes "monitor_next E c s = Some t" and "monitor_ok s"
  shows "monitor_ok t"
proof (cases c)
  case Step_client
  with assms client_ok show ?thesis by (auto split: if_splits)
next
  case (Step_monitor i d)
  with assms monitor_step_ok show ?thesis by (auto split: if_splits)
next
  case (Step_source i d)
  with assms source_ok show ?thesis by (auto split: if_splits)
next
  case (Step_sender i)
  with assms sender_ok show ?thesis by (auto split: if_splits)
next
  case (Deliver i)
  with assms deliver_ok show ?thesis by (auto split: if_splits)
next
  case (Outside w)
  with assms show ?thesis by (auto simp: monitor_ok_defs split: if_splits)
qed

section \<open>Where the events are\<close>

text \<open>How often an event is on its way to the client, as it will be received: in the hands of a goroutine or in a
  channel.\<close>

definition one_if :: "bool \<Rightarrow> nat" where
  "one_if b = (if b then 1 else 0)"

fun source_has :: "raw_event \<Rightarrow> reader_pc \<Rightarrow> nat" where
  "source_has x (Check_channel g e) = one_if (transformEvent e = x)"
| "source_has x (Put g e) = one_if (transformEvent e = x)"
| "source_has x _ = 0"

fun message_has :: "raw_event \<Rightarrow> event_msg \<Rightarrow> nat" where
  "message_has x (Event e) = one_if (e = x)"
| "message_has x EOFEvent = 0"

fun monitor_has :: "raw_event \<Rightarrow> monitor_pc \<Rightarrow> nat" where
  "monitor_has x (Update_last_seen e) = one_if (e = x)"
| "monitor_has x _ = 0"

fun sender_has :: "raw_event \<Rightarrow> sender_pc \<Rightarrow> nat" where
  "sender_has x (Start_sending e) = one_if (e = x)"
| "sender_has x (Sending e (l # ls)) = one_if (e = x)"
| "sender_has x _ = 0"

definition on_the_way :: "raw_event \<Rightarrow> ('w, 'z) monitor \<Rightarrow> nat" where
  "on_the_way x s = sum_list (map (source_has x) (m_sources s)) + sum_list (map (\<lambda>c. sum_list (map (message_has x) c)) (m_C s))
     + sum_list (map (monitor_has x) (m_monitors s)) + sum_list (map (sender_has x) (m_senders s))"

lemma sum_list_change:
  fixes f :: "'a \<Rightarrow> nat"
  shows "i < length xs \<Longrightarrow> sum_list (map f (xs[i := y])) + f (xs ! i) = sum_list (map f xs) + f y"
proof (induction xs arbitrary: i)
  case (Cons x xs)
  then show ?case by (cases i) auto
qed simp

definition delivered_once :: "raw_event \<Rightarrow> ('w, 'z) monitor \<Rightarrow> bool" where
  "delivered_once x s \<longleftrightarrow> count_list (m_received s) x + on_the_way x s \<le> count_list (map transformEvent (m_streamed s)) x"

lemmas delivered_defs = delivered_once_def on_the_way_def

lemma client_delivered:
  assumes "client_step E s = Some t" and "delivered_once x s"
  shows "delivered_once x t"
proof (cases "m_client s")
  case (Enable l)
  with assms show ?thesis
    by (cases "m_enabled s") (auto simp: client_step_def delivered_defs enableEventMonitoring_def elim!: with_lock_Some)
next
  case (Disable l p)
  with assms show ?thesis
    by (auto simp: client_step_def delivered_defs leave_round_def disableEventMonitoring_def closeListeners_def Let_def
        elim!: with_lock_Some split: if_splits)
next
  case (Add_listener l)
  with assms show ?thesis
    by (auto simp: client_step_def delivered_defs addListener_def elim!: with_lock_Some)
next
  case (Remove_listener l p)
  with assms show ?thesis
    by (auto simp: client_step_def delivered_defs removeListener_def elim!: with_lock_Some)
qed (use assms in \<open>auto simp: client_step_def delivered_defs with_rlock_Some leave_round_def elim!: after_call_Some
      split: if_splits option.splits\<close>)

lemma monitor_delivered:
  assumes "monitor_step i c s = Some t" and "delivered_once x s" and "monitor_ok s"
  shows "delivered_once x t"
proof -
  note moved = sum_list_change [of i "m_monitors s" "monitor_has x"]
  have i: "i < length (m_monitors s)" using assms(1) by (auto simp: monitor_step_def)
  note defs = monitor_step_def with_rlock_Some delivered_defs set_monitor_def
  show ?thesis
  proof (cases "m_monitors s ! i")
    case Select
    from i assms(3) have g: "m_current s < length (m_C s)" by (auto simp: monitor_ok_def)
    note taken = sum_list_change [OF g, of "\<lambda>c. sum_list (map (message_has x) c)"]
    show ?thesis
    proof (cases "c = Take_event")
      case True
      show ?thesis
      proof (cases "m_C s ! m_current s")
        case Nil
        with Select True assms moved show ?thesis by (auto simp: defs select_event_def Let_def)
      next
        case (Cons m ms)
        with Select True assms(1,2) moved taken [of ms] i show ?thesis
          by (cases m) (auto simp: defs select_event_def Let_def)
      qed
    qed (use Select assms moved in \<open>auto simp: defs select_error_def Let_def split: if_splits list.splits monitor_error.splits\<close>)
  next
    case (Update_last_seen e)
    with assms moved [of Loop] show ?thesis
      by (cases "m_lastSeen s < re_Time e") (auto simp: defs updateLastSeen_def elim!: with_lock_Some)
  next
    case Disable_monitoring
    with assms moved [of Monitor_done] show ?thesis
      by (auto simp: defs disableEventMonitoring_def closeListeners_def Let_def elim!: with_lock_Some split: if_splits)
  qed (use assms moved i in \<open>auto simp: defs connect_def split: if_splits\<close>)
qed

lemma put_sum:
  "sum_list (map (\<lambda>c. sum_list (map (message_has x) c)) (C[g := C ! g @ [m]]))
     \<le> sum_list (map (\<lambda>c. sum_list (map (message_has x) c)) C) + message_has x m"
  using sum_list_change [of g C "\<lambda>c. sum_list (map (message_has x) c)" "C ! g @ [m]"]
  by (cases "g < length C") (simp_all add: list_update_beyond)

lemma source_delivered:
  assumes "source_step i c s = Some t" and "delivered_once x s"
  shows "delivered_once x t"
proof -
  note moved = sum_list_change [of i "m_sources s" "source_has x"]
  have i: "i < length (m_sources s)" using assms(1) by (auto simp: source_step_def)
  note defs = source_step_def with_rlock_Some delivered_defs set_source_def
  show ?thesis
  proof (cases "m_sources s ! i")
    case (Decode g)
    with assms moved i show ?thesis
      by (cases c) (auto simp: defs decode_next_def decoded_event_fields one_if_def)
  next
    case (Report_error g e)
    with assms moved i show ?thesis by (auto simp: defs put_error_def decoded_event_fields one_if_def split: if_splits)
  next
    case (Check_channel g e)
    with assms moved [of "Put g e"] moved [of Reader_done] show ?thesis by (auto simp: defs)
  next
    case (Put g e)
    with assms moved [of "Decode g"] put_sum [of x "m_C s" g "Event (transformEvent e)"] i show ?thesis
      by (auto simp: defs put_message_def split: if_splits)
  next
    case (Put_EOF g)
    with assms moved [of Reader_done] put_sum [of x "m_C s" g EOFEvent] i show ?thesis
      by (auto simp: defs put_message_def split: if_splits)
  qed (use assms moved i in \<open>auto simp: defs split: if_splits\<close>)
qed

lemma sender_delivered:
  assumes "sender_step i s = Some t" and "delivered_once x s"
  shows "delivered_once x t"
proof -
  note moved = sum_list_change [of i "m_senders s" "sender_has x"]
  note defs = sender_step_def with_rlock_Some delivered_defs set_sender_def sent_def
  show ?thesis
  proof (cases "m_senders s ! i")
    case (Start_sending e)
    with assms moved [of No_listeners] moved [of Sent] moved [of "Sending e (m_listeners s)"] show ?thesis
      by (cases "m_listeners s") (auto simp: defs split: if_splits)
  next
    case No_listeners
    with assms moved [of Sent] show ?thesis by (auto simp: defs put_error_def split: if_splits)
  next
    case (Sending e ls)
    with assms moved [of Sent] show ?thesis by (cases ls) (auto simp: defs split: if_splits)
  qed (use assms in \<open>auto simp: defs\<close>)
qed

lemma deliver_delivered:
  assumes "deliver i s = Some t" and "delivered_once x s" and "monitor_ok s"
  shows "delivered_once x t"
proof -
  from assms(1) obtain e l ls where i: "i < length (m_senders s)" "m_senders s ! i = Sending e (l # ls)"
    "t = set_sender i (Sending e ls) (s\<lparr>m_client := Handle l e, m_received := m_received s @ [e]\<rparr>)"
    by (auto simp: deliver_def split: sender_pc.splits list.splits)
  from i(1,2) assms(3) have "sends_once (Sending e (l # ls))" unfolding monitor_ok_def by (metis nth_mem)
  then have "ls = []" by (simp add: sends_once_def)
  with i assms(2) sum_list_change [OF i(1), of "sender_has x" "Sending e ls"] show ?thesis
    by (auto simp: delivered_defs set_sender_def one_if_def)
qed

lemma monitor_next_delivered:
  assumes "monitor_next E c s = Some t" and "delivered_once x s" and "monitor_ok s"
  shows "delivered_once x t"
proof (cases c)
  case Step_client
  with assms client_delivered show ?thesis by (auto split: if_splits)
next
  case (Step_monitor i d)
  with assms monitor_delivered show ?thesis by (auto split: if_splits)
next
  case (Step_source i d)
  with assms source_delivered show ?thesis by (auto split: if_splits)
next
  case (Step_sender i)
  with assms sender_delivered show ?thesis by (auto split: if_splits)
next
  case (Deliver i)
  with assms deliver_delivered show ?thesis by (auto split: if_splits)
next
  case (Outside w)
  with assms show ?thesis by (auto simp: delivered_defs split: if_splits)
qed

text \<open>The two invariants hold in every state that can be reached.\<close>

definition monitor_init :: "('w, 'z) monitor \<Rightarrow> bool" where
  "monitor_init s \<longleftrightarrow> (\<exists>st. s = monitor_start st)"

interpretation event_monitor: invariant_system monitor_init "monitor_trans E"
  "\<lambda>s. monitor_ok s \<and> (\<forall>x. delivered_once x s)" for E
proof
  fix s :: "('a, 'b) monitor"
  assume "monitor_init s"
  then show "monitor_ok s \<and> (\<forall>x. delivered_once x s)"
    using start_ok by (auto simp: monitor_init_def delivered_defs monitor_start_def)
next
  fix s t :: "('a, 'b) monitor"
  assume "monitor_ok s \<and> (\<forall>x. delivered_once x s)" "monitor_trans E s t"
  then show "monitor_ok t \<and> (\<forall>x. delivered_once x t)"
    using monitor_next_ok monitor_next_delivered by (fastforce simp: monitor_trans_def simp del: monitor_next.simps)
qed

text \<open>C10: However the client, the monitor, the reader of the connection and the senders are interleaved, and however
  often the connection is made anew, the client receives only events that the daemon sent, filled in by
  \<open>transformEvent\<close>, and none more often than the daemon sent it; and \<open>disableEventMonitoring\<close>, which waits for a
  group while it holds the write lock, never has to wait for it.\<close>

theorem events_delivered_once:
  assumes "steps_with (monitor_next E) cs (monitor_start st) = Some s"
  shows "mset (m_received s) \<subseteq># mset (map transformEvent (m_streamed s))
    \<and> (m_readers s = 0 \<longrightarrow> disableEventMonitoring s \<noteq> None)"
proof -
  have "monitor_init (monitor_start st)" unfolding monitor_init_def by blast
  from event_monitor.reachable_inv [OF this steps_with_trans [OF assms]]
  have inv: "monitor_ok s" "\<And>x. delivered_once x s" by blast+
  have "mset (m_received s) \<subseteq># mset (map transformEvent (m_streamed s))"
    unfolding subseteq_mset_def count_mset using inv(2) by (auto simp: delivered_once_def intro: add_leD1)
  with disable_never_waits [OF inv(1)] show ?thesis by auto
qed

lemma event_received:
  "re_Time e \<noteq> 0 \<Longrightarrow> \<exists>s. steps_with (monitor_next (demo_env [] demo_inspect))
      (subscribe @ [Step_client] @ event_arrives e @ [Step_sender 0, Deliver 0]) (monitor_start demo_store) = Some s
    \<and> m_received s = [transformEvent e] \<and> m_streamed s = [e]"
proof -
  assume e: "re_Time e \<noteq> 0"
  let ?E = "demo_env [] demo_inspect"
  from subscribe_run [of ?E demo_store] obtain s1 where
    s1: "steps_with (monitor_next ?E) subscribe (monitor_start demo_store) = Some s1" "listening (List_containers 0) s1"
      "m_senders s1 = []" "m_readers s1 = 0" "m_store s1 = demo_store" "m_streamed s1 = []" by blast
  from listening_synced [OF s1(2), of ?E demo_store] demo_containers(3) s1 obtain s2 where
    s2: "steps_with (monitor_next ?E) [Step_client] s1 = Some s2" "listening (Receive 0) s2"
      "m_senders s2 = []" "m_readers s2 = 0" "m_streamed s2 = []" by auto
  from event_arrives_run [OF s2(2,4) e, of ?E] s2 obtain s3 where
    s3: "steps_with (monitor_next ?E) (event_arrives e) s2 = Some s3" "listening (Receive 0) s3" "m_readers s3 = 0"
      "m_senders s3 = [Start_sending (transformEvent e)]" "m_streamed s3 = [e]" by auto
  from s3(2-) have "\<exists>t. steps_with (monitor_next ?E) [Step_sender 0, Deliver 0] s3 = Some t
      \<and> m_received t = [transformEvent e] \<and> m_streamed t = [e]"
    by (simp add: monitor_run listening_def)
  then obtain s4 where s4: "steps_with (monitor_next ?E) [Step_sender 0, Deliver 0] s3 = Some s4"
    "m_received s4 = [transformEvent e]" "m_streamed s4 = [e]" by blast
  from steps_with_then [OF s1(1) steps_with_then [OF s2(1) steps_with_then [OF s3(1) s4(1)]]] s4(2,3) show ?thesis by blast
qed

theorem events_delivered_once_witness:
  "\<exists>cs s. steps_with (monitor_next (demo_env [] demo_inspect)) cs (monitor_start demo_store) = Some s
    \<and> m_received s = [transformEvent (demo_event ''die'' ''c1'' 1)]
    \<and> mset (m_received s) \<subseteq># mset (map transformEvent (m_streamed s))"
proof -
  have "re_Time (demo_event ''die'' ''c1'' 1) \<noteq> 0" by (simp add: demo_event_def)
  from event_received [OF this] obtain cs s where
    s: "steps_with (monitor_next (demo_env [] demo_inspect)) cs (monitor_start demo_store) = Some s"
      "m_received s = [transformEvent (demo_event ''die'' ''c1'' 1)]" by blast
  from events_delivered_once [OF s(1)] s show ?thesis by blast
qed

end
