(* ===== verification/Docker_Monitor_Start.thy ===== *)
theory Docker_Monitor_Start
  imports Docker_Monitor
begin

text \<open>
  The goroutine of \<open>docker.go\<close> among those of the event monitor takes the steps of the machine \<open>Start_step\<close> of the
  theory \<open>Docker\<close>, so that what is proved there of every run holds with the event monitor as it is written.
\<close>

section \<open>The loop of \<open>Start\<close>\<close>

text \<open>The detailed machine takes the steps of \<open>Start_step\<close>: the calls of the event monitor answer in some way, and
  the world may change between two steps.\<close>

definition answering :: "'w env \<Rightarrow> error option \<Rightarrow> chan_recv \<Rightarrow> 'w env" where
  "answering E err m = E\<lparr>docker_AddEventListener := (\<lambda>w. (err, w)), docker_receive := (\<lambda>w. (m, w)),
     docker_RemoveEventListener := (\<lambda>w. (None, w))\<rparr>"

definition start_trans :: "'w env \<Rightarrow> dc_pc \<times> ('w, 'z) Store_scheme \<Rightarrow> dc_pc \<times> ('w, 'z) Store_scheme \<Rightarrow> bool" where
  "start_trans E p q \<longleftrightarrow> (\<exists>err m. Start_step (answering E err m) (fst p) (snd p) = (Returns (fst q), snd q))
     \<or> (\<exists>w. q = (fst p, (snd p)\<lparr>world := w\<rparr>))"

fun start_pc :: "client_pc \<Rightarrow> dc_pc" where
  "start_pc (Check_enabled l) = Subscribe"
| "start_pc (Enable l) = Subscribe"
| "start_pc (Add_listener l) = Subscribe"
| "start_pc (List_containers l) = Sync"
| "start_pc (Receive l) = Listen"
| "start_pc (Handle l e) = Listen"
| "start_pc (Remove_listener l p) = Unsubscribe"
| "start_pc (Count_listeners l p) = Unsubscribe"
| "start_pc (Disable l p) = Unsubscribe"
| "start_pc (Sleep l) = Sleeping"

definition start_view :: "('w, 'z) monitor \<Rightarrow> dc_pc \<times> ('w, 'z) Store_scheme" where
  "start_view s = (start_pc (m_client s), m_store s)"

fun panicking :: "client_pc \<Rightarrow> bool" where
  "panicking (Remove_listener l p) = p"
| "panicking (Count_listeners l p) = p"
| "panicking (Disable l p) = p"
| "panicking _ = False"

lemma answering_same [simp]:
  "handleEvent (answering E err m) e = handleEvent E e" "getContainers (answering E err m) = getContainers E"
  by (auto simp: answering_def fun_eq_iff handleEvent_def getContainerPID_def getContainerState_def getContainer_def
      getContainers_def sync_container_def[abs_def] cong: option.case_cong)

lemma answering_simps [simp]:
  "docker_AddEventListener (answering E err m) = (\<lambda>w. (err, w))" "docker_receive (answering E err m) = (\<lambda>w. (m, w))"
  "docker_RemoveEventListener (answering E err m) = (\<lambda>w. (None, w))"
  by (simp_all add: answering_def)

lemma unchanged_view: "start_trans E p p"
proof -
  have "p = (fst p, (snd p)\<lparr>world := world (snd p)\<rparr>)" by (cases p) simp
  then show ?thesis unfolding start_trans_def by blast
qed

lemma start_trans_step:
  "Start_step (answering E err m) pc st = (Returns pc', st') \<Longrightarrow> start_trans E (pc, st) (pc', st')"
  unfolding start_trans_def by auto

lemma client_view:
  assumes "client_step E s = Some t" and "\<not> panicking (m_client s)"
  shows "panicking (m_client t) \<or> m_crashed t \<or> start_trans E (start_view s) (start_view t)"
proof -
  have leave: "start_trans E (Unsubscribe, m_store s) (Sleeping, m_store s)"
    by (rule start_trans_step) (simp add: go_run)
  show ?thesis
proof (cases "m_client s")
  case (Check_enabled l)
  with assms have "start_view t = start_view s"
    by (auto simp: client_step_def with_rlock_Some start_view_def)
  then show ?thesis by (simp add: unchanged_view)
next
  case (Enable l)
  with assms have "start_view t = start_view s"
    by (auto simp: client_step_def start_view_def enableEventMonitoring_def elim!: with_lock_Some)
  then show ?thesis by (simp add: unchanged_view)
next
  case (Add_listener l)
  let ?err = "if l \<in> set (m_listeners s) then Some (ExtErr ''listener already exists for docker events'') else None"
  from Add_listener assms have "start_view t = start_view s \<or>
      start_view s = (Subscribe, m_store s) \<and> start_view t = (if l \<in> set (m_listeners s) then Sleeping else Sync, m_store s)"
    by (auto simp: client_step_def start_view_def addListener_def elim!: with_lock_Some)
  with start_trans_step [of E ?err undefined Subscribe "m_store s"] show ?thesis
    by (cases "l \<in> set (m_listeners s)") (auto simp: unchanged_view go_run)
next
  case (List_containers l)
  from List_containers assms(1) obtain r st where r: "getContainers E (m_store s) = (r, st)" by fastforce
  show ?thesis
  proof (cases r)
    case (Returns e)
    let ?pc = "case e of Some err \<Rightarrow> Unsubscribe | None \<Rightarrow> Listen"
    from Returns r List_containers assms(1) have "start_view s = (Sync, m_store s)" "start_view t = (?pc, st)"
      by (auto simp: client_step_def after_call_def start_view_def split: option.splits)
    moreover have "start_trans E (Sync, m_store s) (?pc, st)"
      using Returns r by (intro start_trans_step) (simp add: go_run split: option.split)
    ultimately show ?thesis by simp
  qed (use r List_containers assms(1) in \<open>auto simp: client_step_def after_call_def\<close>)
next
  case (Receive l)
  with assms have "start_view s = (Listen, m_store s)" "start_view t = (Unsubscribe, m_store s)"
    by (auto simp: client_step_def start_view_def split: if_splits)
  moreover have "start_trans E (Listen, m_store s) (Unsubscribe, m_store s)"
    by (rule start_trans_step [where m = ChanClosed]) (simp add: go_run)
  ultimately show ?thesis by simp
next
  case (Handle l e)
  obtain r st where r: "handleEvent E (api_event e) (m_store s) = (r, st)" by fastforce
  show ?thesis
  proof (cases r)
    case (Returns u)
    with r Handle assms(1) have "start_view s = (Listen, m_store s)" "start_view t = (Listen, st)"
      by (auto simp: client_step_def after_call_def start_view_def)
    moreover have "start_trans E (Listen, m_store s) (Listen, st)"
      using Returns r by (intro start_trans_step [where m = "Received (api_event e)"]) (simp add: go_run)
    ultimately show ?thesis by simp
  qed (use r Handle assms(1) in \<open>auto simp: client_step_def after_call_def\<close>)
next
  case (Remove_listener l p)
  with assms have "start_view t = start_view s"
    by (auto simp: client_step_def start_view_def removeListener_def elim!: with_lock_Some)
  then show ?thesis by (simp add: unchanged_view)
next
  case (Count_listeners l p)
  with assms have "start_view t = start_view s \<or> start_view s = (Unsubscribe, m_store s) \<and> start_view t = (Sleeping, m_store s)"
    by (auto simp: client_step_def with_rlock_Some start_view_def leave_round_def)
  with leave show ?thesis by (auto simp: unchanged_view)
next
  case (Disable l p)
  with assms have "start_view t = start_view s \<or> start_view s = (Unsubscribe, m_store s) \<and> start_view t = (Sleeping, m_store s)"
    by (auto simp: client_step_def start_view_def leave_round_def dest: disable_frame elim!: with_lock_Some)
  with leave show ?thesis by (auto simp: unchanged_view)
next
  case (Sleep l)
  with assms have "start_view s = (Sleeping, m_store s)" "start_view t = (Subscribe, m_store s)"
    by (auto simp: client_step_def start_view_def)
  moreover have "start_trans E (Sleeping, m_store s) (Subscribe, m_store s)"
    by (rule start_trans_step) (simp add: go_run)
  ultimately show ?thesis by simp
qed
qed

lemma monitor_step_view:
  assumes "monitor_step i c s = Some t"
  shows "m_client t = m_client s \<and> m_store t = m_store s"
proof (cases "m_monitors s ! i")
  case Select
  with assms show ?thesis
    by (auto simp: monitor_step_def set_monitor_def select_event_def select_error_def Let_def split: if_splits list.splits)
next
  case (Update_last_seen e)
  with assms show ?thesis
    by (cases "m_lastSeen s < re_Time e") (auto simp: monitor_step_def set_monitor_def updateLastSeen_def elim!: with_lock_Some)
next
  case Disable_monitoring
  with assms show ?thesis by (auto simp: monitor_step_def set_monitor_def dest: disable_frame elim!: with_lock_Some)
qed (use assms in \<open>auto simp: monitor_step_def with_rlock_Some set_monitor_def connect_def split: if_splits\<close>)

lemma source_step_view:
  assumes "source_step i c s = Some t"
  shows "m_client t = m_client s \<and> m_store t = m_store s"
proof (cases "m_sources s ! i")
  case (Decode g)
  with assms show ?thesis
    by (cases c) (auto simp: source_step_def decode_next_def decoded_event_def set_source_def)
qed (use assms in \<open>auto simp: source_step_def with_rlock_Some set_source_def decoded_event_def put_message_def put_error_def
      split: if_splits\<close>)

lemma sender_step_view:
  assumes "sender_step i s = Some t"
  shows "m_client t = m_client s \<and> m_store t = m_store s"
proof (cases "m_senders s ! i")
  case (Sending e ls)
  with assms show ?thesis by (cases ls) (auto simp: sender_step_def sent_def set_sender_def)
qed (use assms in \<open>auto simp: sender_step_def sent_def with_rlock_Some set_sender_def put_error_def split: if_splits\<close>)

lemma next_view:
  assumes "monitor_next E c s = Some t" and "\<not> panicking (m_client s)"
  shows "panicking (m_client t) \<or> m_crashed t \<or> start_trans E (start_view s) (start_view t)"
proof (cases c)
  case Step_client
  with assms client_view show ?thesis by (auto split: if_splits)
next
  case (Step_monitor i d)
  with assms(1) have "start_view t = start_view s" by (auto simp: start_view_def dest: monitor_step_view split: if_splits)
  then show ?thesis by (simp add: unchanged_view)
next
  case (Step_source i d)
  with assms(1) have "start_view t = start_view s" by (auto simp: start_view_def dest: source_step_view split: if_splits)
  then show ?thesis by (simp add: unchanged_view)
next
  case (Step_sender i)
  with assms(1) have "start_view t = start_view s" by (auto simp: start_view_def dest: sender_step_view split: if_splits)
  then show ?thesis by (simp add: unchanged_view)
next
  case (Deliver i)
  with assms(1) have "start_view t = start_view s"
    by (auto simp: start_view_def deliver_def set_sender_def split: if_splits sender_pc.splits list.splits)
  then show ?thesis by (simp add: unchanged_view)
next
  case (Outside w)
  with assms(1) have "start_view t = (fst (start_view s), (snd (start_view s))\<lparr>world := w\<rparr>)"
    by (auto simp: start_view_def split: if_splits)
  then show ?thesis unfolding start_trans_def by blast
qed

lemma next_panicking:
  assumes "monitor_next E c s = Some t" and "panicking (m_client s)"
  shows "panicking (m_client t)"
proof (cases c)
  case Step_client
  with assms show ?thesis
    by (cases "m_client s") (auto simp: client_step_def with_rlock_Some leave_round_def removeListener_def
        dest: disable_frame elim!: with_lock_Some split: if_splits)
next
  case (Step_monitor i d)
  with assms show ?thesis by (auto dest: monitor_step_view split: if_splits)
next
  case (Step_source i d)
  with assms show ?thesis by (auto dest: source_step_view split: if_splits)
next
  case (Step_sender i)
  with assms show ?thesis by (auto dest: sender_step_view split: if_splits)
next
  case (Deliver i)
  with assms show ?thesis by (auto simp: deliver_def split: if_splits sender_pc.splits list.splits)
next
  case (Outside w)
  with assms show ?thesis by (auto split: if_splits)
qed

interpretation start_loop: invariant_system "\<lambda>s. s = monitor_start st" "monitor_trans E"
  "\<lambda>s. m_crashed s \<or> panicking (m_client s) \<or> (start_trans E)\<^sup>*\<^sup>* (Subscribe, st) (start_view s)" for st E
proof
  fix s t :: "('a, 'b) monitor"
  assume "m_crashed s \<or> panicking (m_client s) \<or> (start_trans E)\<^sup>*\<^sup>* (Subscribe, st) (start_view s)" "monitor_trans E s t"
  then show "m_crashed t \<or> panicking (m_client t) \<or> (start_trans E)\<^sup>*\<^sup>* (Subscribe, st) (start_view t)"
    unfolding monitor_trans_def by (metis monitor_next.simps next_panicking next_view option.distinct(1) rtranclp.rtrancl_into_rtrancl)
qed (simp add: monitor_start_def start_view_def)

lemma start_trans_store_ok:
  assumes "store_ok (snd p)" and "start_trans E p q"
  shows "store_ok (snd q)"
proof -
  from assms(2) consider (step) err m where "Start_step (answering E err m) (fst p) (snd p) = (Returns (fst q), snd q)"
    | (other) w where "q = (fst p, (snd p)\<lparr>world := w\<rparr>)" unfolding start_trans_def by blast
  then show ?thesis
  proof cases
    case step
    with store_safeD [OF store_safe_Start_step assms(1)] show ?thesis by (metis snd_conv)
  next
    case other
    with assms(1) show ?thesis by simp
  qed
qed

interpretation start_store: invariant_system "\<lambda>p. store_ok (snd p)" "start_trans E" "\<lambda>p. store_ok (snd p)" for E
  by unfold_locales (auto intro: start_trans_store_ok)

text \<open>C9: The client runs the loop of \<open>Start\<close> as the machine \<open>Start_step\<close> takes it, whatever the event monitor and its
  goroutines do: as long as the process has not crashed and the client has not panicked, the position of the client
  and the store are those of a run of \<open>Start_step\<close> in which the calls of the event monitor have given some answers;
  so the store holds in no state a container that is \<open>Destroyed\<close>.\<close>

theorem monitor_refines_Start:
  assumes "steps_with (monitor_next E) cs (monitor_start st) = Some s" and "\<not> m_crashed s" and "\<not> panicking (m_client s)"
    and "store_ok st"
  shows "(start_trans E)\<^sup>*\<^sup>* (Subscribe, st) (start_view s) \<and> store_ok (m_store s)"
proof -
  from start_loop.reachable_inv [OF refl steps_with_trans [OF assms(1)]] assms(2,3)
  have run: "(start_trans E)\<^sup>*\<^sup>* (Subscribe, st) (start_view s)" by blast
  from start_store.steps_inv [OF this] assms(4) have "store_ok (m_store s)" by (simp add: start_view_def)
  with run show ?thesis by blast
qed

theorem monitor_refines_Start_witness:
  "\<exists>s :: (unit, unit) monitor. m_client s = Receive 0 \<and> (start_trans (demo_env [] demo_inspect))\<^sup>*\<^sup>* (Subscribe, demo_store) (Listen, m_store s)
    \<and> store_ok (m_store s)"
proof -
  let ?E = "demo_env [] demo_inspect"
  from subscribe_run [of ?E demo_store] obtain s1 where
    s1: "steps_with (monitor_next ?E) subscribe (monitor_start demo_store) = Some s1" "listening (List_containers 0) s1"
      "m_store s1 = demo_store" by blast
  from listening_synced [OF s1(2), of ?E demo_store] demo_containers(3) s1(3) obtain s2 where
    s2: "steps_with (monitor_next ?E) [Step_client] s1 = Some s2" "listening (Receive 0) s2" by auto
  have "store_ok demo_store" by (simp add: store_ok_def demo_store_def)
  with monitor_refines_Start [OF steps_with_then [OF s1(1) s2(1)]] s2(2)
  have "(start_trans ?E)\<^sup>*\<^sup>* (Subscribe, demo_store) (start_view s2) \<and> store_ok (m_store s2)"
    by (simp add: listening_def)
  moreover have "start_view s2 = (Listen, m_store s2)" "m_client s2 = Receive 0"
    using s2(2) by (simp_all add: start_view_def listening_def)
  ultimately show ?thesis by metis
qed

end
