(* ===== verification/Spec2Isabelle.thy ===== *)
theory Spec2Isabelle
  imports NetNS_Concurrent NetNS_New Report_Wire Request_Wire Store_Concurrent Cover Runner_Slices Wcloud_List
    Docker_Monitor_Safety Docker_Monitor_Start
begin

text \<open>
  \<^bold>\<open>A verification development for the Scope network control plugin\<close>

  \<^bold>\<open>The program.\<close> The plugin runs beside a Weave Scope probe. It follows the containers of the
  local Docker daemon, serves a report of them to the probe over a Unix socket, with five
  controls per container, and, when a control is invoked, runs \<open>tc\<close> in the network namespace of
  the container's process. Its parts, all in package \<open>main\<close> at the top of \<open>src/\<close>:

  \<^item> \<open>store.go\<close>: the store, a map from container IDs to state and PID behind a mutex;
  \<^item> \<open>docker.go\<close>: the Docker client, a goroutine that subscribes to Docker's events, reads the
    list of containers and writes the store;
  \<^item> \<open>tc.go\<close>: the handlers of the controls, the cache of the settings made, and the figures of a
    pod; it uses the vendored package \<open>containernetworking/cni/pkg/ns\<close> to enter a namespace;
  \<^item> \<open>report.go\<close>: the reporter, which makes a report out of the store and finds the handler of a
    control;
  \<^item> \<open>main.go\<close>: start-up, the HTTP handlers \<open>/report\<close> and \<open>/control\<close>, signals.

  Beside it are three tools, programs of their own under \<open>src/tools\<close>:

  \<^item> \<open>cover/cover.go\<close> merges the coverage profiles of several test runs;
  \<^item> \<open>runner/runner.go\<close> runs tests on a pool of hosts, in sequence or in parallel;
  \<^item> \<open>cmd/wcloud\<close> (\<open>types.go\<close>, \<open>client.go\<close>, \<open>cli.go\<close>) is the client of a deployment service.

  \<^bold>\<open>The theories.\<close>

  \<^item> \<open>Go_Prelude\<close>: calls of Go functions as state transformers with an outcome (returned,
    panicked, ended the process, blocked on a mutex), \<open>defer\<close>, \<open>range\<close>, errors as values, nil
    maps; the rule collections \<open>go_run\<close>, \<open>go_keeps\<close>, \<open>go_maintains\<close>, \<open>go_nonblock\<close>.
  \<^item> \<open>Go_Strings\<close>: the functions of \<open>strings\<close> and \<open>strconv\<close> in use, with their round trips.
    \<open>Go_Sort\<close>: \<open>sort.Sort\<close>, for an order as in the
    locale \<open>sort_order\<close>. \<open>Go_Slices\<close>: slices that share arrays. \<open>Transitions\<close>: machines with an
    invariant, machines that always stop, and the refinement of one machine by another, as the
    locales \<open>invariant_system\<close>, \<open>terminating_system\<close> and \<open>refinement\<close>.
  \<^item> \<open>Go_Json\<close>: decoding a JSON value into a Go value. \<open>Go_Json_Text\<close>: the bytes of a JSON text; printing, and
    reading a stream with the scanner as a machine with a stack; what is printed is read back, whatever
    follows it. \<open>Go_Json_Cut\<close>: no part of a text is taken for a value. \<open>Go_Json_Codec\<close>: the contract of an
    encoder and a decoder through the bytes, as the locale \<open>json_codec\<close>. \<open>Go_Time\<close>: dates and the RFC 3339 texts
    of time stamps, which are read back to the nanosecond. \<open>Go_Fmt\<close>: the texts of errors, with \<open>%q\<close>.
  \<^item> \<open>Go_Duration\<close>: \<open>time.ParseDuration\<close>, with the floating point numbers that fractions go through; what is a
    whole number of nanoseconds is read exactly. \<open>Go_Time_Parse\<close>: times with a location, parsing RFC 3339 and
    printing RFC 822. \<open>Go_Url\<close>: which URLs \<open>http.NewRequest\<close> accepts.
  \<^item> \<open>World\<close>: the calls to the kernel, Docker, InfluxDB, the clock and the random generator, as
    the record \<open>env\<close> of functions on an unknown world; the first layer of the process state.
    \<open>Demo_World\<close> has concrete instances for the witnesses.
  \<^item> \<open>NetNS\<close>: the vendored \<open>ns.go\<close> (\<open>GetNS\<close>, \<open>Set\<close>, \<open>Close\<close>, \<open>Do\<close>, \<open>WithNetNSPath\<close>): the closure
    runs in the target namespace, and is run whenever the calls before it succeed, and the threads are restored. \<open>NetNS_New\<close>: the functions of the package that
    the plugin does not call.
  \<^item> \<open>Store\<close>: \<open>store.go\<close>, with the interface \<open>container_store\<close> of its clients as a locale,
    interpreted on the operations. \<open>Store_Concurrent\<close>: the methods in small steps of concurrent
    goroutines, and that they are atomic.
  \<^item> \<open>Docker\<close>: \<open>docker.go\<close>; the loop of \<open>Start\<close> is a machine with one step per call. Safety of
    its steps, the refinement of the documented life cycle, which is a table of its own, what the first
    synchronisation leaves in the store and when it crashes.
  \<^item> \<open>Docker_Monitor\<close>: the event monitor of the vendored Docker client (\<open>go-dockerclient/event.go\<close>), which feeds the
    channel that \<open>docker.go\<close> listens to: the client, \<open>monitorEvents\<close>, the readers of connections and the senders
    of events as goroutines in small steps, with the read-write lock. A schedule after which the client hangs for ever,
    and one that reverses two events. \<open>Docker_Monitor_Safety\<close>: under every schedule no event is made up or doubled.
    \<open>Docker_Monitor_Start\<close>: under every schedule the client takes the steps of \<open>Start_step\<close>.
  \<^item> \<open>TrafficControl\<close>: the status types of \<open>main.go\<close> and all of \<open>tc.go\<close>.
    \<open>TrafficControl_Props\<close>, \<open>Handlers\<close>, \<open>Pods\<close>: which commands run in which namespace, what the
    handlers make \<open>tc\<close> do, or why they do not, with a live and with a nil cache, the parsers, the made up figures.
  \<^item> \<open>Report_Data\<close>, \<open>Report\<close>, \<open>Report_Props\<close>: \<open>report.go\<close>; the data of a report and its JSON form, node IDs,
    controls and their handlers, the nodes of a report, the entry that makes every report panic.
    \<open>Report_Types\<close>: the references between the parts of a report.
  \<^item> \<open>Plugin\<close>, \<open>Plugin_Props\<close>: \<open>main.go\<close>; the plugin as a step relation whose steps are those of
    the Docker client, HTTP requests, signals and changes of the world; the invariant of its
    reachable states and what follows for requests. \<open>Confinement\<close>: commands are run for control
    requests only, in namespaces of the container's process. \<open>NetNS_Concurrent\<close>: requests that overlap, with the calls of
    \<open>WithNetNSPath\<close> cut into small steps that any number of goroutines take in any order, and what the
    creation of threads by older Go runtimes does. \<open>Report_Wire\<close>: the report as Scope reads it from the bytes of
    the answer. \<open>Request_Wire\<close>: requests that are followed by other bytes or cut off.
  \<^item> \<open>Cover\<close>: \<open>cover.go\<close>; the output is the sum of the inputs, in one order.
  \<^item> \<open>Tool_World\<close>: the process of a tool, its output and its environment variables.
  \<^item> \<open>Runner\<close>, \<open>Runner_Parallel\<close>: \<open>runner.go\<close>. The sequential mode is a function; the parallel mode is a
    step relation of the main goroutine and one goroutine per running test. No host is shared and
    none is lost, every test is run once, every run ends, with a deadlock exactly if a test needs
    more hosts than there are, and what a timeout does to this. \<open>Runner_Slices\<close> refines the parallel
    mode to slices that share arrays.
  \<^item> \<open>Wcloud_Client\<close>, \<open>Wcloud\<close>, \<open>Wcloud_List\<close>: the client of the deployment service and its command line: the
    requests, the round trip of a configuration, what is deployed, the table of deployments, output and exit
    status.

  \<^bold>\<open>State.\<close> The process state is one record, extended layer by layer: \<open>kernel\<close> (the world, the
  namespace of each OS thread, the log of executed commands), \<open>Store\<close> (mutex and map), \<open>Globals\<close>
  (the two global caches; a map that was never made is \<open>None\<close>), \<open>Process\<close> (the map captured by the
  closure of \<open>getContainerNodes\<close>). Operations are stated for every extension of the layer they
  work on, so that lemmas of one component apply unchanged in the next.

  A tool has a record \<open>tool\<close> with the world and the output, which is a list of messages.

  \<^bold>\<open>Bounds.\<close> There is no fuel: the loops run over lists, the endless loop of \<open>Start\<close> is cut into steps,
  and the loop of \<open>parallel\<close> is a machine with a measure (six per test and two) that every step makes
  smaller. \<open>int\<close> stands for Go's 64-bit \<open>int\<close> where the values are PIDs, random figures and times, which
  stay far from its ends; \<open>strconv.ParseInt\<close> has its 64-bit limits, and the counts of a coverage
  profile wrap around.

  \<^bold>\<open>Atomicity.\<close> A step of the plugin is a whole request or a whole turn of the Docker client. The
  operations of the store are atomic in the program as well (\<open>Store_Concurrent\<close>). The namespaces that
  requests switch to do not mix when requests overlap (\<open>NetNS_Concurrent\<close>, whose small steps are
  \<open>WithNetNSPath\<close> when nothing comes in between: \<open>turns_WithNetNSPath\<close>). The global cache has
  no lock, but it is nil in every reachable state: reading it finds nothing, deleting from it does nothing
  and writing to it panics, in any order, so that requests that overlap cannot observe each other in it. A goroutine of the runner has a step for each of its
  two blocks of output, which the program protects by a mutex, and one for sending its result.

  \<^bold>\<open>Bytes.\<close> Requests, answers and the messages of the tools' services are byte strings; a stream is its
  bytes and the error that ends it. A string of Go is a list of bytes, and reading a JSON text makes its
  strings valid UTF-8 (\<open>to_valid\<close>). An error is kept as its format and arguments and written out where it
  leaves the program (\<open>err_text\<close>); which characters \<open>%q\<close> prints as they are is a field of \<open>env\<close>, since the
  tables of package \<open>unicode\<close> are data.

  \<^bold>\<open>Versions.\<close> Where the releases of the standard library differ, functions of packages \<open>time\<close>, \<open>net/url\<close> and
  \<open>net/http\<close> are those of Go 1.6, with which the Makefile builds; what newer runtimes change for the
  network namespaces of threads is a parameter of \<open>NetNS_Concurrent\<close>.

  \<^bold>\<open>What is not modelled.\<close> Logging; the parts of the Docker client other than its event monitor, and the client of
  InfluxDB, which are fields of the record \<open>env\<close>: third-party code that the program only calls; the wording of
  syntax errors of JSON; packages outside the repository: the parser of profiles, the flags and colours of the
  runner, YAML, the table writer, each a parameter or left out. The scheduler (\<open>tools/scheduler\<close>, Python) and
  the shell scripts are not Go and are left out. The lines of the Go files that no definition models are imports,
  comments, logging and the declarations of flags.
\<close>

end
